(* ===== verification/Prelude.thy ===== *)
theory Prelude
  imports Main "HOL-Library.Word"
begin

section \<open>Shared vocabulary of the development\<close>

text \<open>
  This theory holds what every component theory uses: the names of Rust's
  machine integers, the operations that pass a state along and may return an
  error (the shape of an \<open>async fn(&mut self, ..) -> Result<T>\<close>), the part of
  the \<open>HashMap\<close> and \<open>HashSet\<close> interface the program calls, and the theorem
  collections that the component proofs hand to the simplifier.
\<close>

subsection \<open>Machine integers and bytes\<close>

type_synonym u8 = "8 word"
type_synonym u16 = "16 word"
type_synonym u32 = "32 word"
type_synonym u64 = "64 word"
type_synonym bytes = "u8 list"

subsection \<open>Strings\<close>

text \<open>
  A Rust \<open>String\<close> is a sequence of Unicode scalar values, stored as UTF-8. It is modelled
  by HOL's \<open>string\<close>, a list of \<open>char\<close>, where a \<open>char\<close> stands for a code point from U+0000
  to U+00FF: the code points that take one or two bytes in UTF-8. So \<open>len()\<close>, which counts
  bytes, and \<open>chars().count()\<close>, which counts code points, differ in the model as in Rust.
\<close>

definition utf8_char :: "char \<Rightarrow> bytes" where
  "utf8_char c =
     (let n = of_char c :: nat
      in if n < 128 then [of_nat n] else [of_nat (192 + n div 64), of_nat (128 + n mod 64)])"

definition utf8 :: "string \<Rightarrow> bytes" where
  "utf8 s = concat (map utf8_char s)"

text \<open>\<open>s.len()\<close>, and its computation without the bytes.\<close>

definition str_len :: "string \<Rightarrow> nat" where
  "str_len s = length (utf8 s)"

definition is_ascii :: "char \<Rightarrow> bool" where
  "is_ascii c \<longleftrightarrow> (of_char c :: nat) < 128"

lemma length_utf8_char: "length (utf8_char c) = (if is_ascii c then 1 else 2)"
  by (simp add: utf8_char_def is_ascii_def Let_def)

lemma str_len_Nil [simp]: "str_len [] = 0"
  by (simp add: str_len_def utf8_def)

lemma str_len_Cons: "str_len (c # s) = (if is_ascii c then 1 else 2) + str_len s"
  by (simp add: str_len_def utf8_def length_utf8_char)

lemma str_len_append [simp]: "str_len (s @ t) = str_len s + str_len t"
  by (simp add: str_len_def utf8_def)

lemma length_le_str_len: "length s \<le> str_len s"
  by (induction s) (auto simp: str_len_Cons)

lemma str_len_ascii: "list_all is_ascii s \<Longrightarrow> str_len s = length s"
  by (induction s) (auto simp: str_len_Cons)

text \<open>\<open>trim()\<close> removes white space (the property \<open>White_Space\<close> of Unicode, up to U+00FF) at both ends.\<close>

definition is_whitespace :: "char \<Rightarrow> bool" where
  "is_whitespace c \<longleftrightarrow> (let n = of_char c :: nat in 9 \<le> n \<and> n \<le> 13 \<or> n = 32 \<or> n = 133 \<or> n = 160)"

definition str_trim :: "string \<Rightarrow> string" where
  "str_trim s = rev (dropWhile is_whitespace (rev (dropWhile is_whitespace s)))"

lemma str_trim_Nil [simp]: "str_trim [] = []"
  by (simp add: str_trim_def)

lemma str_trim_triv: "s \<noteq> [] \<Longrightarrow> \<not> is_whitespace (hd s) \<Longrightarrow> \<not> is_whitespace (last s) \<Longrightarrow> str_trim s = s"
  by (simp add: str_trim_def hd_rev dropWhile_eq_self_iff [THEN iffD2])

text \<open>\<open>replace\<close> of a pattern that is not empty: its occurrences from the left, without overlap.\<close>

definition starts_with :: "string \<Rightarrow> string \<Rightarrow> bool" where
  "starts_with s prefix \<longleftrightarrow> take (length prefix) s = prefix"

function str_replace :: "string \<Rightarrow> string \<Rightarrow> string \<Rightarrow> string" where
  "str_replace pat rep s =
     (if s = [] \<or> pat = [] then s
      else if starts_with s pat then rep @ str_replace pat rep (drop (length pat) s)
      else hd s # str_replace pat rep (tl s))"
  by pat_completeness auto

termination
  by (relation "measure (\<lambda>(pat, rep, s). length s)") (auto simp: neq_Nil_conv)

declare str_replace.simps [simp del]

lemma str_replace_absent:
  "(\<And>u v. s \<noteq> u @ pat @ v) \<Longrightarrow> str_replace pat rep s = s"
proof (induction s)
  case (Cons c s)
  have "\<not> starts_with (c # s) pat"
    using Cons.prems [of "[]" "drop (length pat) (c # s)"]
    by (metis append_Nil append_take_drop_id starts_with_def)
  moreover have "str_replace pat rep s = s"
    using Cons.prems by (intro Cons.IH) (metis append_Cons)
  ultimately show ?case by (subst str_replace.simps) simp
qed (simp add: str_replace.simps)

subsection \<open>Operations on a state that may fail\<close>

text \<open>
  A method that takes \<open>&mut self\<close> and returns \<open>Result<T, E>\<close> may change the state
  and fail afterwards: the changes made before the failure stay. An operation
  therefore returns the outcome and the state it leaves behind in both cases.
\<close>

type_synonym ('s, 'e, 'a) op = "'s \<Rightarrow> ('e + 'a) \<times> 's"

definition ok :: "'a \<Rightarrow> ('s, 'e, 'a) op" where
  "ok x = (\<lambda>s. (Inr x, s))"

definition fail :: "'e \<Rightarrow> ('s, 'e, 'a) op" where
  "fail e = (\<lambda>s. (Inl e, s))"

text \<open>Sequencing with Rust's \<open>?\<close>: an error of the first operation is returned at once.\<close>

definition bnd :: "('s, 'e, 'a) op \<Rightarrow> ('a \<Rightarrow> ('s, 'e, 'b) op) \<Rightarrow> ('s, 'e, 'b) op" where
  "bnd m f = (\<lambda>s. case m s of (r, t) \<Rightarrow> (case r of Inl e \<Rightarrow> (Inl e, t) | Inr x \<Rightarrow> f x t))"

definition andthen :: "('s, 'e, 'a) op \<Rightarrow> ('s, 'e, 'b) op \<Rightarrow> ('s, 'e, 'b) op" where
  "andthen m n = bnd m (\<lambda>_. n)"

definition modify :: "('s \<Rightarrow> 's) \<Rightarrow> ('s, 'e, unit) op" where
  "modify f = (\<lambda>s. (Inr (), f s))"

text \<open>A \<open>for\<close> loop over a list whose body may return an error with \<open>?\<close>.\<close>

fun for_each :: "('a \<Rightarrow> ('s, 'e, unit) op) \<Rightarrow> 'a list \<Rightarrow> ('s, 'e, unit) op" where
  "for_each f [] = ok ()"
| "for_each f (x # xs) = andthen (f x) (for_each f xs)"

lemma ok_apply [simp]: "ok x s = (Inr x, s)"
  by (simp add: ok_def)

lemma fail_apply [simp]: "fail e s = (Inl e, s)"
  by (simp add: fail_def)

lemma modify_apply [simp]: "modify f s = (Inr (), f s)"
  by (simp add: modify_def)

lemma bnd_apply:
  "bnd m f s = (case m s of (r, t) \<Rightarrow> (case r of Inl e \<Rightarrow> (Inl e, t) | Inr x \<Rightarrow> f x t))"
  by (simp add: bnd_def)

lemma bnd_Inr [simp]: "m s = (Inr x, t) \<Longrightarrow> bnd m f s = f x t"
  by (simp add: bnd_def)

lemma bnd_Inl [simp]: "m s = (Inl e, t) \<Longrightarrow> bnd m f s = (Inl e, t)"
  by (simp add: bnd_def)

lemma andthen_Inr [simp]: "m s = (Inr x, t) \<Longrightarrow> andthen m n s = n t"
  by (simp add: andthen_def)

lemma andthen_Inl [simp]: "m s = (Inl e, t) \<Longrightarrow> andthen m n s = (Inl e, t)"
  by (simp add: andthen_def)

lemma bnd_ok_left [simp]: "bnd (ok x) f = f x"
  by (simp add: fun_eq_iff)

lemma bnd_ok_right [simp]: "bnd m ok = m"
  by (simp add: fun_eq_iff bnd_def split: prod.splits sum.splits)

lemma bnd_assoc: "bnd (bnd m f) g = bnd m (\<lambda>x. bnd (f x) g)"
  by (simp add: fun_eq_iff bnd_def split: prod.splits sum.splits)

lemma andthen_ok_left [simp]: "andthen (ok x) n = n"
  by (simp add: andthen_def)

lemma andthen_assoc: "andthen (andthen m n) k = andthen m (andthen n k)"
  by (simp add: andthen_def bnd_assoc)

lemma for_each_append:
  "for_each f (xs @ ys) = andthen (for_each f xs) (for_each f ys)"
  by (induction xs) (simp_all add: andthen_assoc)

subsection \<open>Preservation of invariants\<close>

text \<open>
  \<open>keeps P E m\<close>: started in a state with \<open>P\<close>, the operation \<open>m\<close> leaves a state with \<open>P\<close>
  whatever its outcome, and an error it returns satisfies \<open>E\<close>. The rules are collected in
  \<open>keeps\<close>, so that the preservation of an invariant by a handler is found by following the
  handler's own structure.
\<close>

named_theorems keeps \<open>preservation rules for operations\<close>

definition keeps :: "('s \<Rightarrow> bool) \<Rightarrow> ('e \<Rightarrow> bool) \<Rightarrow> ('s, 'e, 'a) op \<Rightarrow> bool" where
  "keeps P E m \<longleftrightarrow> (\<forall>s. P s \<longrightarrow> P (snd (m s)) \<and> (\<forall>e. fst (m s) = Inl e \<longrightarrow> E e))"

lemma keepsI:
  "(\<And>s r t. P s \<Longrightarrow> m s = (r, t) \<Longrightarrow> P t \<and> (\<forall>e. r = Inl e \<longrightarrow> E e)) \<Longrightarrow> keeps P E m"
  unfolding keeps_def by (metis prod.collapse)

lemma keeps_run: "keeps P E m \<Longrightarrow> P s \<Longrightarrow> m s = (r, t) \<Longrightarrow> P t"
  unfolding keeps_def by (metis snd_conv)

lemma keeps_error: "keeps P E m \<Longrightarrow> P s \<Longrightarrow> m s = (Inl e, t) \<Longrightarrow> E e"
  unfolding keeps_def by (metis fst_conv)

lemma keeps_ok [keeps]: "keeps P E (ok x)"
  by (simp add: keeps_def)

lemma keeps_fail [keeps]: "E e \<Longrightarrow> keeps P E (fail e)"
  by (simp add: keeps_def)

lemma keeps_modify: "(\<And>s. P s \<Longrightarrow> P (f s)) \<Longrightarrow> keeps P E (modify f)"
  by (simp add: keeps_def)

lemma keeps_bnd [keeps]: "keeps P E m \<Longrightarrow> (\<And>x. keeps P E (f x)) \<Longrightarrow> keeps P E (bnd m f)"
proof (rule keepsI)
  fix s r t
  assume m: "keeps P E m" and f: "\<And>x. keeps P E (f x)" and s: "P s" and run: "bnd m f s = (r, t)"
  obtain r1 s1 where m1: "m s = (r1, s1)" by fastforce
  with m s have s1: "P s1" by (auto dest: keeps_run)
  show "P t \<and> (\<forall>e. r = Inl e \<longrightarrow> E e)"
  proof (cases r1)
    case (Inl e)
    with m1 run m s s1 show ?thesis by (auto dest: keeps_error)
  next
    case (Inr x)
    with m1 run have "f x s1 = (r, t)" by simp
    with f [of x] s1 show ?thesis by (auto dest: keeps_run keeps_error)
  qed
qed

lemma keeps_andthen [keeps]: "keeps P E m \<Longrightarrow> keeps P E n \<Longrightarrow> keeps P E (andthen m n)"
  by (simp add: andthen_def keeps_bnd)

lemma keeps_if [keeps]: "(b \<Longrightarrow> keeps P E m) \<Longrightarrow> (\<not> b \<Longrightarrow> keeps P E n) \<Longrightarrow> keeps P E (if b then m else n)"
  by simp

lemma keeps_for_each [keeps]: "(\<And>x. x \<in> set xs \<Longrightarrow> keeps P E (f x)) \<Longrightarrow> keeps P E (for_each f xs)"
  by (induction xs) (auto intro: keeps)

subsection \<open>Lists whose elements are computed with a possible failure\<close>

fun map_result :: "('a \<Rightarrow> 'e + 'b) \<Rightarrow> 'a list \<Rightarrow> 'e + 'b list" where
  "map_result f [] = Inr []"
| "map_result f (x # xs) =
     (case f x of
        Inl e \<Rightarrow> Inl e
      | Inr y \<Rightarrow> (case map_result f xs of Inl e \<Rightarrow> Inl e | Inr ys \<Rightarrow> Inr (y # ys)))"

lemma map_result_Inr: "(\<And>x. x \<in> set xs \<Longrightarrow> f x = Inr (g x)) \<Longrightarrow> map_result f xs = Inr (map g xs)"
  by (induction xs) auto

lemma map_result_Inl: "map_result f xs = Inl e \<Longrightarrow> \<exists>x \<in> set xs. f x = Inl e"
  by (induction xs) (auto split: sum.splits)

lemma map_result_fails: "x \<in> set xs \<Longrightarrow> f x = Inl e \<Longrightarrow> \<exists>e'. map_result f xs = Inl e'"
  by (induction xs) (auto split: sum.splits)

text \<open>Subtraction of \<open>usize\<close>; \<open>None\<close> is the panic below zero.\<close>

definition usub :: "nat \<Rightarrow> nat \<Rightarrow> nat option" where
  "usub m n = (if n \<le> m then Some (m - n) else None)"

subsection \<open>Options\<close>

text \<open>The two idioms of the source for changing what an \<open>Option\<close> holds.\<close>

lemma case_option_map [simp]: "(case x of None \<Rightarrow> None | Some y \<Rightarrow> Some (f y)) = map_option f x"
  by (cases x) simp_all

lemma bind_Some_map [simp]: "Option.bind x (\<lambda>y. Some (f y)) = map_option f x"
  by (cases x) simp_all

subsection \<open>Hash maps and hash sets\<close>

text \<open>
  A \<open>HashMap<K, V>\<close> is a partial function. \<open>entry(k).or_insert(d)\<close> stores \<open>d\<close> when the key
  is absent and yields the stored value; \<open>entry(k).and_modify(f)\<close> changes a present value
  and does nothing otherwise.
\<close>

definition or_insert :: "'k \<Rightarrow> 'v \<Rightarrow> ('k \<rightharpoonup> 'v) \<Rightarrow> ('k \<rightharpoonup> 'v)" where
  "or_insert k d m = (case m k of None \<Rightarrow> m(k \<mapsto> d) | Some _ \<Rightarrow> m)"

definition and_modify :: "'k \<Rightarrow> ('v \<Rightarrow> 'v) \<Rightarrow> ('k \<rightharpoonup> 'v) \<Rightarrow> ('k \<rightharpoonup> 'v)" where
  "and_modify k f m = (case m k of None \<Rightarrow> m | Some v \<Rightarrow> m(k \<mapsto> f v))"

lemma or_insert_lookup [simp]:
  "or_insert k d m x = (if x = k \<and> m k = None then Some d else m x)"
  by (auto simp: or_insert_def split: option.splits)

lemma or_insert_key: "or_insert k d m k = Some (case m k of None \<Rightarrow> d | Some v \<Rightarrow> v)"
  by (simp add: or_insert_def split: option.splits)

lemma and_modify_lookup [simp]:
  "and_modify k f m x = (if x = k then map_option f (m k) else m x)"
  by (auto simp: and_modify_def split: option.splits)

lemma dom_and_modify [simp]: "dom (and_modify k f m) = dom m"
  by (auto simp: dom_def)

text \<open>
  The iteration order of a \<open>HashSet\<close> or \<open>HashMap\<close> is unspecified: it is an argument of the
  definitions that iterate. All that Rust promises is that a finite set is visited
  once per element.
\<close>

definition iterates :: "('a set \<Rightarrow> 'a list) \<Rightarrow> bool" where
  "iterates it \<longleftrightarrow> (\<forall>S. finite S \<longrightarrow> set (it S) = S \<and> distinct (it S))"

lemma ex_iterates: "\<exists>it. iterates it"
proof -
  have "\<forall>S :: 'a set. \<exists>xs. finite S \<longrightarrow> set xs = S \<and> distinct xs" using finite_distinct_list by blast
  then show ?thesis unfolding iterates_def by metis
qed

lemma iterates_set [simp]: "iterates it \<Longrightarrow> finite S \<Longrightarrow> set (it S) = S"
  by (simp add: iterates_def)

lemma iterates_distinct [simp]: "iterates it \<Longrightarrow> finite S \<Longrightarrow> distinct (it S)"
  by (simp add: iterates_def)

lemma iterates_empty [simp]: "iterates it \<Longrightarrow> it {} = []"
  by (metis iterates_set finite.emptyI set_empty)

subsection \<open>Loops that end well\<close>

text \<open>A \<open>for\<close> loop that runs to its end has composed the effects of its body.\<close>

lemma for_each_Inr:
  "for_each f xs s = (Inr u, t) \<Longrightarrow> t = fold (\<lambda>x s. snd (f x s)) xs s"
proof (induction xs arbitrary: s)
  case (Cons x xs)
  obtain r s1 where x: "f x s = (r, s1)" by fastforce
  with Cons.prems obtain y where "r = Inr y" by (cases r) auto
  with x Cons show ?case by simp
qed simp

text \<open>A body that never fails makes a loop that never fails.\<close>

lemma for_each_total:
  assumes "\<And>x s. f x s = (Inr (), g x s)"
  shows "for_each f xs s = (Inr (), fold g xs s)"
  using assms by (induction xs arbitrary: s) simp_all

lemma for_each_modify [simp]: "for_each (\<lambda>x. modify (g x)) xs s = (Inr (), fold g xs s)"
  by (rule for_each_total) simp

end
