(* ===== verification/Mqtt_Packet.thy ===== *)
theory Mqtt_Packet
  imports Prelude
begin

section \<open>MQTT control packets (\<open>mqttrs-1/src/mqtt/packet.rs\<close>)\<close>

text \<open>
  The broker keeps its own owned copies of the control packets and converts them to and
  from the borrowed packets of the \<open>mqttrs\<close> crate. The plain data types that the crate
  exports and the broker re-exports unchanged (\<open>pub use mqttrs::..\<close>) are declared here with
  the constructors and fields that the source names; the crate's functions are not
  modelled and appear later as arguments. A \<open>Pid\<close> wraps a 16-bit number.
\<close>

subsection \<open>Data shared with the \<open>mqttrs\<close> crate\<close>

datatype pid = Pid u16

datatype QoS = AtMostOnce | AtLeastOnce | ExactlyOnce

datatype QosPid = QP_AtMostOnce | QP_AtLeastOnce pid | QP_ExactlyOnce pid

datatype Protocol = MQTT311 | MQIsdp

datatype ConnectReturnCode =
  Accepted | RefusedProtocolVersion | RefusedIdentifierRejected
| ServerUnavailable | BadUsernamePassword | NotAuthorized

datatype SubscribeReturnCodes = Success QoS | Failure

record Connack =
  ca_session_present :: bool
  ca_code :: ConnectReturnCode

record mqttrs_SubscribeTopic =
  mst_topic_path :: string
  mst_qos :: QoS

record Subscribe =
  sub_pid :: pid
  sub_topics :: "mqttrs_SubscribeTopic list"

record Suback =
  sa_pid :: pid
  sa_return_codes :: "SubscribeReturnCodes list"

record Unsubscribe =
  unsub_pid :: pid
  unsub_topics :: "string list"

record mqttrs_LastWill =
  mlw_topic :: string
  mlw_message :: bytes
  mlw_qos :: QoS
  mlw_retain :: bool

record mqttrs_Connect =
  mcon_protocol :: Protocol
  mcon_keep_alive :: u16
  mcon_client_id :: string
  mcon_clean_session :: bool
  mcon_last_will :: "mqttrs_LastWill option"
  mcon_username :: "string option"
  mcon_password :: "bytes option"

record mqttrs_Publish =
  mpub_dup :: bool
  mpub_qospid :: QosPid
  mpub_retain :: bool
  mpub_topic_name :: string
  mpub_payload :: bytes

datatype mqttrs_Packet =
  M_Connack Connack | M_Connect mqttrs_Connect | M_Publish mqttrs_Publish
| M_Puback pid | M_Pubrec pid | M_Pubrel pid | M_Pubcomp pid
| M_Subscribe Subscribe | M_Suback Suback | M_Unsubscribe Unsubscribe | M_Unsuback pid
| M_Pingreq | M_Pingresp | M_Disconnect

subsection \<open>The broker's own packets\<close>

record LastWill =
  lw_topic :: string
  lw_message :: bytes
  lw_qos :: QoS
  lw_retain :: bool

record Connect =
  con_protocol :: Protocol
  con_keep_alive :: u16
  con_client_id :: string
  con_clean_session :: bool
  con_last_will :: "LastWill option"
  con_username :: "string option"
  con_password :: "bytes option"

record Publish =
  pub_dup :: bool
  pub_qospid :: QosPid
  pub_retain :: bool
  pub_topic_name :: string
  pub_payload :: bytes

record SubscribeTopic =
  st_topic_path :: string
  st_qos :: QoS

datatype Packet =
  P_Connack Connack | P_Connect Connect | P_Publish Publish
| P_Puback pid | P_Pubrec pid | P_Pubrel pid | P_Pubcomp pid
| P_Subscribe Subscribe | P_Suback Suback | P_Unsubscribe Unsubscribe | P_Unsuback pid
| P_Pingreq | P_Pingresp | P_Disconnect

subsection \<open>Conversions\<close>

definition last_will_into :: "LastWill \<Rightarrow> mqttrs_LastWill" where
  "last_will_into lw =
     \<lparr>mlw_topic = lw_topic lw, mlw_message = lw_message lw,
      mlw_qos = lw_qos lw, mlw_retain = lw_retain lw\<rparr>"

definition last_will_from :: "mqttrs_LastWill \<Rightarrow> LastWill" where
  "last_will_from other =
     \<lparr>lw_topic = mlw_topic other, lw_message = mlw_message other,
      lw_qos = mlw_qos other, lw_retain = mlw_retain other\<rparr>"

definition subscribe_topic_from :: "mqttrs_SubscribeTopic \<Rightarrow> SubscribeTopic" where
  "subscribe_topic_from other =
     \<lparr>st_topic_path = mst_topic_path other, st_qos = mst_qos other\<rparr>"

definition string_from_subscribe_topic :: "SubscribeTopic \<Rightarrow> string" where
  "string_from_subscribe_topic other = st_topic_path other"

definition subscribe_topic_from_string :: "string \<Rightarrow> SubscribeTopic" where
  "subscribe_topic_from_string other = \<lparr>st_topic_path = other, st_qos = AtMostOnce\<rparr>"

text \<open>\<open>Hash for SubscribeTopic\<close> feeds only the topic path to the hasher \<open>h\<close>.\<close>

definition subscribe_topic_hash :: "(string \<Rightarrow> u64) \<Rightarrow> SubscribeTopic \<Rightarrow> u64" where
  "subscribe_topic_hash h t = h (st_topic_path t)"

fun packet_into :: "Packet \<Rightarrow> mqttrs_Packet" where
  "packet_into (P_Connack connack) = M_Connack connack"
| "packet_into (P_Connect connect) = M_Connect
     \<lparr>mcon_protocol = con_protocol connect,
      mcon_keep_alive = con_keep_alive connect,
      mcon_client_id = con_client_id connect,
      mcon_clean_session = con_clean_session connect,
      mcon_last_will =
        (case con_last_will connect of Some lw \<Rightarrow> Some (last_will_into lw) | None \<Rightarrow> None),
      mcon_username =
        (case con_username connect of Some username \<Rightarrow> Some username | None \<Rightarrow> None),
      mcon_password =
        (case con_password connect of Some password \<Rightarrow> Some password | None \<Rightarrow> None)\<rparr>"
| "packet_into (P_Publish publish) = M_Publish
     \<lparr>mpub_dup = pub_dup publish,
      mpub_qospid = pub_qospid publish,
      mpub_retain = pub_retain publish,
      mpub_topic_name = pub_topic_name publish,
      mpub_payload = pub_payload publish\<rparr>"
| "packet_into (P_Puback pid) = M_Puback pid"
| "packet_into (P_Pubrec pid) = M_Pubrec pid"
| "packet_into (P_Pubrel pid) = M_Pubrel pid"
| "packet_into (P_Pubcomp pid) = M_Pubcomp pid"
| "packet_into (P_Subscribe subscribe) = M_Subscribe
     \<lparr>sub_pid = sub_pid subscribe, sub_topics = sub_topics subscribe\<rparr>"
| "packet_into (P_Suback suback) = M_Suback
     \<lparr>sa_pid = sa_pid suback, sa_return_codes = sa_return_codes suback\<rparr>"
| "packet_into (P_Unsubscribe unsubscribe) = M_Unsubscribe
     \<lparr>unsub_pid = unsub_pid unsubscribe, unsub_topics = unsub_topics unsubscribe\<rparr>"
| "packet_into (P_Unsuback pid) = M_Unsuback pid"
| "packet_into P_Pingreq = M_Pingreq"
| "packet_into P_Pingresp = M_Pingresp"
| "packet_into P_Disconnect = M_Disconnect"

fun packet_from :: "mqttrs_Packet \<Rightarrow> Packet" where
  "packet_from (M_Connack connack) = P_Connack connack"
| "packet_from (M_Connect c) = P_Connect
     \<lparr>con_protocol = mcon_protocol c,
      con_keep_alive = mcon_keep_alive c,
      con_client_id = mcon_client_id c,
      con_clean_session = mcon_clean_session c,
      con_last_will = Option.bind (mcon_last_will c) (\<lambda>lw. Some (last_will_from lw)),
      con_username = Option.bind (mcon_username c) (\<lambda>u. Some u),
      con_password = Option.bind (mcon_password c) (\<lambda>p. Some p)\<rparr>"
| "packet_from (M_Publish p) = P_Publish
     \<lparr>pub_dup = mpub_dup p,
      pub_qospid = mpub_qospid p,
      pub_retain = mpub_retain p,
      pub_topic_name = mpub_topic_name p,
      pub_payload = mpub_payload p\<rparr>"
| "packet_from (M_Puback pid) = P_Puback pid"
| "packet_from (M_Pubrec pid) = P_Pubrec pid"
| "packet_from (M_Pubrel pid) = P_Pubrel pid"
| "packet_from (M_Pubcomp pid) = P_Pubcomp pid"
| "packet_from (M_Subscribe subscribe) = P_Subscribe subscribe"
| "packet_from (M_Suback suback) = P_Suback suback"
| "packet_from (M_Unsubscribe unsubscribe) = P_Unsubscribe unsubscribe"
| "packet_from (M_Unsuback pid) = P_Unsuback pid"
| "packet_from M_Pingreq = P_Pingreq"
| "packet_from M_Pingresp = P_Pingresp"
| "packet_from M_Disconnect = P_Disconnect"

subsection \<open>The conversions lose nothing\<close>

lemma last_will_from_into [simp]: "last_will_from (last_will_into lw) = lw"
  by (simp add: last_will_from_def last_will_into_def)

lemma last_will_into_from [simp]: "last_will_into (last_will_from lw) = lw"
  by (simp add: last_will_from_def last_will_into_def)

lemma packet_from_into [simp]: "packet_from (packet_into p) = p"
  by (cases p) (simp_all add: option.map_comp comp_def option.map_ident)

lemma packet_into_from [simp]: "packet_into (packet_from q) = q"
  by (cases q) (simp_all add: option.map_comp comp_def option.map_ident split: option.split)

lemma packet_into_inject [simp]: "packet_into p = packet_into q \<longleftrightarrow> p = q"
  by (metis packet_from_into)

text \<open>Converting a packet to the \<open>mqttrs\<close> representation and back gives the packet, and
  the other way round: the two conversions are inverse bijections.\<close>

theorem packet_conversion_bijective:
  "bij packet_into \<and> (\<forall>p. packet_from (packet_into p) = p) \<and> (\<forall>q. packet_into (packet_from q) = q)"
  by (auto intro!: bij_betw_byWitness [where f' = packet_from])

end
