(* ===== verification/Broker_Msg.thy ===== *)
theory Broker_Msg
  imports Mqtt_Packet
begin

section \<open>Errors, configuration and broker messages\<close>

text \<open>
  The types every task of the broker shares: \<open>mqttrs-1/src/error.rs\<close>,
  \<open>mqttrs-1/src/broker/config.rs\<close> and \<open>mqttrs-1/src/broker/msg.rs\<close>. The text that the code
  formats into an error is for the log only and is not modelled; the operating system
  error that \<open>TokioErr\<close> wraps is an opaque string.
\<close>

subsection \<open>Errors\<close>

datatype error =
  BrokerMsgSendFailure | ClientHandlerInvalidState | CreateClientTaskFailed | EncodeFailed
| InvalidPacket | LoggerError | MQTTProtocolViolation | PacketSendFailed | PacketReceiveFailed
| TokioErr string

text \<open>
  \<open>impl PartialEq for Error\<close>. The last arm \<open>err => err == other\<close> calls the same \<open>eq\<close> on the
  same two values, so the function is a \<^theory_text>\<open>partial_function\<close> whose result \<open>None\<close>
  means that the call does not return.
\<close>

partial_function (option) error_eq :: "error \<Rightarrow> error \<Rightarrow> bool option" where
  "error_eq self other =
     (case self of
        TokioErr _ \<Rightarrow> Some (case other of TokioErr _ \<Rightarrow> True | _ \<Rightarrow> False)
      | err \<Rightarrow> error_eq err other)"

fun is_TokioErr :: "error \<Rightarrow> bool" where
  "is_TokioErr (TokioErr _) = True"
| "is_TokioErr _ = False"

lemma error_eq_returns_Tokio:
  assumes "error_eq a b = Some r"
  shows "is_TokioErr a"
proof (rule error_eq.raw_induct [where P = "\<lambda>a b r. is_TokioErr a", OF _ assms])
  fix f a b r
  assume IH: "\<And>a b r. f a b = Some r \<Longrightarrow> is_TokioErr a"
    and eq: "(case a of TokioErr _ \<Rightarrow> Some (case b of TokioErr _ \<Rightarrow> True | _ \<Rightarrow> False)
       | err \<Rightarrow> f err b) = Some r"
  show "is_TokioErr a"
    using eq by (cases a) (auto dest: IH)
qed

lemma error_eq_TokioErr [simp]:
  "error_eq (TokioErr e) b = Some (is_TokioErr b)"
  by (cases b) (simp_all add: error_eq.simps)

text \<open>Comparing two broker errors with \<open>==\<close> returns a value exactly when the left one is a
  \<open>TokioErr\<close>, and then says whether the right one is a \<open>TokioErr\<close> too; for every other
  error the comparison recurses on its own arguments and never returns.\<close>

theorem error_eq_diverges:
  "error_eq a b = (if is_TokioErr a then Some (is_TokioErr b) else None)"
proof (cases "is_TokioErr a")
  case True
  then show ?thesis by (cases a) simp_all
next
  case False
  then show ?thesis
    using error_eq_returns_Tokio [of a b] by (cases "error_eq a b") auto
qed

subsection \<open>Configuration\<close>

text \<open>A socket address is an IP address, kept as opaque text, and a port.\<close>

record Config =
  cfg_ip :: string
  cfg_port :: u16
  cfg_max_retries :: u32
  cfg_retry_interval :: u32
  cfg_timeout_interval :: u32

definition config_new :: "string \<Rightarrow> u16 \<Rightarrow> u32 \<Rightarrow> u32 \<Rightarrow> u32 \<Rightarrow> Config" where
  "config_new ip port max_retries retry_interval timeout_interval =
     \<lparr>cfg_ip = ip, cfg_port = port, cfg_max_retries = max_retries,
      cfg_retry_interval = retry_interval, cfg_timeout_interval = timeout_interval\<rparr>"

subsection \<open>Messages between the tasks\<close>

text \<open>
  A \<open>Sender<BrokerMsg>\<close> names the channel it sends to: the number of the client handler
  that owns the receiving end.
\<close>

type_synonym sender = nat

datatype BrokerMsg =
  ClientConnected string sender
| ClientConnectionTimeout
| ClientDisconnected string
| BM_Publish string Publish
| BM_Subscribe string Subscribe
| BM_Unsubscribe string Unsubscribe
| QoSRetry string Packet

end
