(* ===== verification/Mqtt_Codec.thy ===== *)
theory Mqtt_Codec
  imports Broker_Msg
begin

section \<open>Encoding, decoding and sending packets (\<open>mqttrs-1/src/mqtt.rs\<close>)\<close>

text \<open>
  The wire format is the business of the \<open>mqttrs\<close> crate, whose functions are the fields of
  the record \<open>mqttrs_api\<close>, an argument of everything that uses them:
  \<^item> \<open>encode_slice p buf\<close>: an error, or the number of bytes written and the buffer with the
    packet written at its start;
  \<^item> \<open>decode_slice buf\<close>: an error, no complete packet, or the packet at the start of \<open>buf\<close>;
  \<^item> \<open>pid_new\<close>: the value of \<open>Pid::new()\<close>;
  \<^item> \<open>size_of\<close>: \<open>std::mem::size_of\<close> of the types the code asks for, which the compiler
    chooses.
\<close>

datatype rust_type =
  T_mqttrs_Packet | T_Connack | T_Connect | T_mqttrs_Publish | T_Pid | T_Subscribe
| T_mqttrs_Suback | T_mqttrs_SubscribeReturnCodes | T_Unsubscribe | T_mqttrs_Connect

record mqttrs_api =
  encode_slice :: "mqttrs_Packet \<Rightarrow> bytes \<Rightarrow> string + nat \<times> bytes"
  decode_slice :: "bytes \<Rightarrow> string + mqttrs_Packet option"
  pid_new :: pid
  size_of :: "rust_type \<Rightarrow> nat"

definition decode :: "mqttrs_api \<Rightarrow> bytes \<Rightarrow> error + Packet option" where
  "decode X buf =
     (case decode_slice X buf of
        Inr res \<Rightarrow> Inr (Option.bind res (\<lambda>pkt. Some (packet_from pkt)))
      | Inl err \<Rightarrow> Inl InvalidPacket)"

text \<open>The size of the buffer that \<open>encode\<close> allocates; \<open>size_of::<u8>()\<close> is one.\<close>

fun encode_extra :: "mqttrs_api \<Rightarrow> mqttrs_Packet \<Rightarrow> nat" where
  "encode_extra X (M_Connack _) = size_of X T_Connack"
| "encode_extra X (M_Connect _) = size_of X T_Connect"
| "encode_extra X (M_Publish publish) =
     size_of X T_mqttrs_Publish + 1 * length (mpub_payload publish)"
| "encode_extra X (M_Puback _) = size_of X T_Pid"
| "encode_extra X (M_Pubrec _) = size_of X T_Pid"
| "encode_extra X (M_Pubrel _) = size_of X T_Pid"
| "encode_extra X (M_Pubcomp _) = size_of X T_Pid"
| "encode_extra X (M_Unsuback _) = size_of X T_Pid"
| "encode_extra X (M_Subscribe subscribe) =
     fold (\<lambda>t len. len + str_len (mst_topic_path t)) (sub_topics subscribe)
       (size_of X T_Subscribe)"
| "encode_extra X (M_Suback suback) =
     size_of X T_mqttrs_Suback
       + size_of X T_mqttrs_SubscribeReturnCodes * length (sa_return_codes suback)"
| "encode_extra X (M_Unsubscribe unsubscribe) =
     fold (\<lambda>t len. len + str_len t) (unsub_topics unsubscribe) (size_of X T_Unsubscribe)"
| "encode_extra X M_Pingreq = 0"
| "encode_extra X M_Pingresp = 0"
| "encode_extra X M_Disconnect = 0"

definition encode_size :: "mqttrs_api \<Rightarrow> mqttrs_Packet \<Rightarrow> nat" where
  "encode_size X pkt = size_of X T_mqttrs_Packet + encode_extra X pkt"

definition encode :: "mqttrs_api \<Rightarrow> Packet \<Rightarrow> error + bytes" where
  "encode X p =
     (let pkt = packet_into p;
          buf = replicate (encode_size X pkt) 0
      in case encode_slice X pkt buf of
           Inl e \<Rightarrow> Inl EncodeFailed
         | Inr (_, buf') \<Rightarrow> Inr buf')"

text \<open>
  A framed TCP stream is the list of buffers written to it so far. Whether the next write
  succeeds is up to the network: \<open>tcp_ok n\<close> for the write number \<open>n\<close>.
\<close>

type_synonym framed = "bytes list"

definition mqtt_send :: "mqttrs_api \<Rightarrow> (nat \<Rightarrow> bool) \<Rightarrow> Packet \<Rightarrow> (framed, error, unit) op" where
  "mqtt_send X tcp_ok pkt = (\<lambda>framed.
     case encode X pkt of
       Inl e \<Rightarrow> (Inl e, framed)
     | Inr buf \<Rightarrow>
         if tcp_ok (length framed) then (Inr (), framed @ [buf])
         else (Inl PacketSendFailed, framed))"

subsection \<open>What the crate's functions are assumed to do\<close>

text \<open>
  Three parts of the documented behaviour of the crate, each used by name:
  \<open>encode_slice\<close> writes the packet at the start of the buffer it is given and leaves the
  rest as it is; it fails on a buffer that cannot hold the topic and the payload of a
  publish packet; and \<open>decode_slice\<close> reads back the packet at the start of a buffer,
  whatever follows it.
\<close>

definition writes_prefix :: "mqttrs_api \<Rightarrow> bool" where
  "writes_prefix X \<longleftrightarrow>
     (\<forall>p buf n buf'. encode_slice X p buf = Inr (n, buf') \<longrightarrow>
        n \<le> length buf \<and> length buf' = length buf \<and> drop n buf' = drop n buf)"

definition needs_room :: "mqttrs_api \<Rightarrow> bool" where
  "needs_room X \<longleftrightarrow>
     (\<forall>m buf. length buf < str_len (mpub_topic_name m) + length (mpub_payload m) \<longrightarrow>
        (\<exists>e. encode_slice X (M_Publish m) buf = Inl e))"

definition reads_back :: "mqttrs_api \<Rightarrow> bool" where
  "reads_back X \<longleftrightarrow>
     (\<forall>p buf n buf' rest. encode_slice X p buf = Inr (n, buf') \<longrightarrow>
        decode_slice X (take n buf' @ rest) = Inr (Some p))"

text \<open>An instance of the three hypotheses: a codec for the ping request, the two bytes C0 00.\<close>

definition ping_codec :: mqttrs_api where
  "ping_codec =
     \<lparr>encode_slice = (\<lambda>p buf.
        if p = M_Pingreq \<and> 2 \<le> length buf then Inr (2, [192, 0] @ drop 2 buf) else Inl ''e''),
      decode_slice = (\<lambda>buf. if take 2 buf = [192, 0] then Inr (Some M_Pingreq) else Inr None),
      pid_new = Pid 1, size_of = (\<lambda>_. 4)\<rparr>"

lemma ping_codec_laws: "writes_prefix ping_codec" "needs_room ping_codec" "reads_back ping_codec"
  by (auto simp: writes_prefix_def needs_room_def reads_back_def ping_codec_def)

lemma ping_codec_encode: "encode ping_codec P_Pingreq = Inr [192, 0, 0, 0]"
  by (simp add: encode_def encode_size_def ping_codec_def numeral_eq_Suc)

subsection \<open>Properties\<close>

lemma encode_Inr:
  "encode X p = Inr b \<Longrightarrow>
    \<exists>n. encode_slice X (packet_into p) (replicate (encode_size X (packet_into p)) 0) = Inr (n, b)"
  by (auto simp: encode_def Let_def split: sum.splits prod.splits)

lemma encode_error: "encode X p = Inl e \<Longrightarrow> e = EncodeFailed"
  by (auto simp: encode_def Let_def split: sum.splits prod.splits)

lemma decode_error: "decode X buf = Inl e \<Longrightarrow> e = InvalidPacket"
  by (auto simp: decode_def split: sum.splits)

lemma encode_shape:
  assumes "writes_prefix X" "encode X p = Inr b"
  defines "sz \<equiv> encode_size X (packet_into p)"
  shows "\<exists>n \<le> sz. encode_slice X (packet_into p) (replicate sz 0) = Inr (n, b) \<and>
    length b = sz \<and> drop n b = replicate (sz - n) 0"
proof -
  obtain n where enc: "encode_slice X (packet_into p) (replicate sz 0) = Inr (n, b)"
    using encode_Inr [OF assms(2)] by (auto simp: sz_def)
  moreover from assms(1) enc
  have "n \<le> length (replicate sz (0::u8)) \<and> length b = length (replicate sz (0::u8)) \<and>
      drop n b = drop n (replicate sz 0)"
    unfolding writes_prefix_def by blast
  ultimately show ?thesis by auto
qed

text \<open>A buffer that \<open>encode\<close> returns decodes to the packet it was made from, although the
  buffer is longer than the packet and ends in zero bytes.\<close>

theorem decode_encode:
  assumes "writes_prefix X" "reads_back X" "encode X p = Inr b"
  shows "decode X b = Inr (Some p)"
proof -
  obtain n buf where "encode_slice X (packet_into p) buf = Inr (n, b)"
    using encode_shape [OF assms(1,3)] by blast
  with assms(2) have "decode_slice X (take n b @ drop n b) = Inr (Some (packet_into p))"
    unfolding reads_back_def by blast
  then show ?thesis by (simp add: decode_def)
qed

theorem decode_encode_witness: "decode ping_codec [192, 0, 0, 0] = Inr (Some P_Pingreq)"
  using decode_encode [OF ping_codec_laws(1,3) ping_codec_encode] .

text \<open>In particular, the buffer that \<open>encode\<close> returns has the size computed from the in-memory types, not
  the size of the encoded packet: everything after the bytes \<open>encode_slice\<close> reports as
  written is zero padding, which \<open>send\<close> transmits along with the packet.\<close>

lemma encode_sends_padding:
  assumes "writes_prefix X" "encode X p = Inr b"
  shows "length b = encode_size X (packet_into p) \<and>
    (\<exists>n buf. encode_slice X (packet_into p) buf = Inr (n, b) \<and>
       n \<le> length b \<and> drop n b = replicate (length b - n) 0)"
  using encode_shape [OF assms] by auto

text \<open>The buffer for a publish packet has no room for the topic name: a topic longer than the
  two in-memory sizes together makes \<open>encode\<close> fail.\<close>

theorem encode_long_topic_fails:
  assumes "needs_room X"
    and "size_of X T_mqttrs_Packet + size_of X T_mqttrs_Publish < str_len (pub_topic_name m)"
  shows "encode X (P_Publish m) = Inl EncodeFailed"
proof -
  define q where "q = \<lparr>mpub_dup = pub_dup m, mpub_qospid = pub_qospid m,
    mpub_retain = pub_retain m, mpub_topic_name = pub_topic_name m, mpub_payload = pub_payload m\<rparr>"
  define buf where "buf = replicate (encode_size X (M_Publish q)) (0::u8)"
  have "length buf < str_len (mpub_topic_name q) + length (mpub_payload q)"
    using assms(2) by (simp add: buf_def q_def encode_size_def)
  with assms(1) obtain e where "encode_slice X (M_Publish q) buf = Inl e"
    unfolding needs_room_def by blast
  then show ?thesis by (simp add: encode_def q_def buf_def)
qed

theorem encode_long_topic_fails_witness:
  "encode ping_codec (P_Publish \<lparr>pub_dup = False, pub_qospid = QP_AtMostOnce, pub_retain = False,
     pub_topic_name = ''a/long/topic'', pub_payload = []\<rparr>) = Inl EncodeFailed"
  by (rule encode_long_topic_fails [OF ping_codec_laws(2)])
    (simp add: ping_codec_def str_len_Cons is_ascii_def)

end
