(* ===== verification/Qos_Tracker.thy ===== *)
theory Qos_Tracker
  imports Broker_Msg
begin

section \<open>QoS transactions (\<open>mqttrs-1/src/broker/session/qos.rs\<close>)\<close>

text \<open>
  A \<open>Tracker\<close> remembers the last packet of one QoS transaction and the retry task that
  retransmits it. Spawned tasks live in a pool: a \<open>JoinHandle\<close> is the number of a task,
  \<open>abort\<close> removes the task, and a task that returns from its loop leaves the pool too.
\<close>

subsection \<open>Retry tasks\<close>

text \<open>The variables that the spawned \<open>async\<close> block captures.\<close>

record retry_task =
  rt_tx :: sender
  rt_msg :: BrokerMsg
  rt_max_retries :: u32
  rt_interval :: u64
  rt_attempts :: u32

record task_pool =
  tp_next :: nat
  tp_live :: "nat \<rightharpoonup> retry_task"

definition empty_pool :: task_pool where
  "empty_pool = \<lparr>tp_next = 0, tp_live = Map.empty\<rparr>"

definition spawn_retry_task ::
    "sender \<Rightarrow> string \<Rightarrow> Config \<Rightarrow> Packet \<Rightarrow> task_pool \<Rightarrow> nat \<times> task_pool" where
  "spawn_retry_task tx cid config packet pool =
     (let h = tp_next pool;
          task = \<lparr>rt_tx = tx, rt_msg = QoSRetry cid packet,
                  rt_max_retries = cfg_max_retries config,
                  rt_interval = ucast (cfg_retry_interval config), rt_attempts = 0\<rparr>
      in (h, pool\<lparr>tp_next := Suc h, tp_live := (tp_live pool)(h \<mapsto> task)\<rparr>))"

definition abort_task :: "nat \<Rightarrow> task_pool \<Rightarrow> task_pool" where
  "abort_task h pool = pool\<lparr>tp_live := (tp_live pool)(h := None)\<rparr>"

definition abort_opt :: "nat option \<Rightarrow> task_pool \<Rightarrow> task_pool" where
  "abort_opt r pool = (case r of Some h \<Rightarrow> abort_task h pool | None \<Rightarrow> pool)"

text \<open>
  One turn of the loop of a retry task: \<open>None\<close> when it returns, otherwise the message it
  sends once it has slept, and the task at the top of the next turn.
\<close>

definition retry_step :: "retry_task \<Rightarrow> (BrokerMsg \<times> retry_task) option" where
  "retry_step t =
     (if rt_max_retries t \<noteq> 0 \<and> rt_attempts t > rt_max_retries t then None
      else Some (rt_msg t, t\<lparr>rt_attempts := rt_attempts t + 1\<rparr>))"

text \<open>The messages a task sends in its first \<open>n\<close> turns.\<close>

fun retry_run :: "nat \<Rightarrow> retry_task \<Rightarrow> BrokerMsg list" where
  "retry_run 0 t = []"
| "retry_run (Suc n) t =
     (case retry_step t of None \<Rightarrow> [] | Some (m, t') \<Rightarrow> m # retry_run n t')"

text \<open>The timer of task \<open>h\<close> runs out: what is sent and to which channel, and the pool afterwards.\<close>

definition pool_tick :: "nat \<Rightarrow> task_pool \<Rightarrow> (sender \<times> BrokerMsg) option \<times> task_pool" where
  "pool_tick h pool =
     (case tp_live pool h of
        None \<Rightarrow> (None, pool)
      | Some t \<Rightarrow>
          (case retry_step t of
             None \<Rightarrow> (None, abort_task h pool)
           | Some (m, t') \<Rightarrow>
               (Some (rt_tx t, m), pool\<lparr>tp_live := (tp_live pool)(h \<mapsto> t')\<rparr>)))"

subsection \<open>Trackers\<close>

datatype QosUpdate = Active | Finished pid

record Tracker =
  tr_state :: Packet
  tr_retry_task :: "nat option"

definition tracker_new ::
    "sender \<Rightarrow> string \<Rightarrow> Config \<Rightarrow> Packet \<Rightarrow> (task_pool, error, Tracker) op" where
  "tracker_new client_tx cid config packet = (\<lambda>pool.
     let start = (case spawn_retry_task client_tx cid config packet pool of
           (h, pool') \<Rightarrow> (Inr \<lparr>tr_state = packet, tr_retry_task = Some h\<rparr>, pool'))
     in case packet of
          P_Publish _ \<Rightarrow> start
        | P_Pubrec _ \<Rightarrow> start
        | _ \<Rightarrow> (Inl MQTTProtocolViolation, pool))"

text \<open>The packet that may follow a transaction's last packet.\<close>

definition expected_packet :: "Packet \<Rightarrow> error + Packet" where
  "expected_packet state =
     (case state of
        P_Publish publish \<Rightarrow>
          (case pub_qospid publish of
             QP_AtMostOnce \<Rightarrow> Inl ClientHandlerInvalidState
           | QP_AtLeastOnce pid \<Rightarrow> Inr (P_Puback pid)
           | QP_ExactlyOnce pid \<Rightarrow> Inr (P_Pubrec pid))
      | P_Pubrec pid \<Rightarrow> Inr (P_Pubrel pid)
      | P_Pubrel pid \<Rightarrow> Inr (P_Pubcomp pid)
      | _ \<Rightarrow> Inl ClientHandlerInvalidState)"

definition tracker_update ::
    "sender \<Rightarrow> string \<Rightarrow> Config \<Rightarrow> Packet \<Rightarrow> (Tracker \<times> task_pool, error, QosUpdate) op" where
  "tracker_update client_tx cid config packet = (\<lambda>(self, pool).
     let pool1 = abort_opt (tr_retry_task self) pool;
         self1 = self\<lparr>tr_retry_task := None\<rparr>
     in (case expected_packet (tr_state self1) of
           Inl e \<Rightarrow> (Inl e, (self1, pool1))
         | Inr expected \<Rightarrow>
             (if expected \<noteq> packet then (Inl MQTTProtocolViolation, (self1, pool1))
              else
                let self2 = self1\<lparr>tr_state := expected\<rparr>
                in (case tr_state self2 of
                      P_Puback pid \<Rightarrow> (Inr (Finished pid), (self2, pool1))
                    | P_Pubcomp pid \<Rightarrow> (Inr (Finished pid), (self2, pool1))
                    | _ \<Rightarrow>
                        (case spawn_retry_task client_tx cid config packet pool1 of
                           (h, pool2) \<Rightarrow>
                             (Inr Active, (self2\<lparr>tr_retry_task := Some h\<rparr>, pool2)))))))"

text \<open>\<open>Drop for Tracker\<close>.\<close>

definition tracker_drop :: "Tracker \<Rightarrow> task_pool \<Rightarrow> task_pool" where
  "tracker_drop t pool = abort_opt (tr_retry_task t) pool"

subsection \<open>How often a packet is retransmitted\<close>

lemma retry_step_attrs:
  "retry_step t = Some (m, t') \<Longrightarrow> m = rt_msg t \<and> rt_msg t' = rt_msg t \<and>
     rt_tx t' = rt_tx t \<and> rt_max_retries t' = rt_max_retries t \<and> rt_attempts t' = rt_attempts t + 1"
  by (auto simp: retry_step_def split: if_splits)

lemma retry_run_unlimited:
  "rt_max_retries t = 0 \<Longrightarrow> retry_run n t = replicate n (rt_msg t)"
  by (induction n arbitrary: t) (auto simp: retry_step_def)

lemma retry_run_limited:
  assumes "rt_max_retries t \<noteq> 0" "unat (rt_max_retries t) + 1 < 2 ^ 32"
    and "unat (rt_attempts t) \<le> unat (rt_max_retries t) + 1"
  shows "retry_run n t
    = replicate (min n (unat (rt_max_retries t) + 1 - unat (rt_attempts t))) (rt_msg t)"
  using assms
proof (induction n arbitrary: t)
  case 0
  then show ?case by simp
next
  case (Suc n)
  define a where "a = unat (rt_attempts t)"
  define mx where "mx = unat (rt_max_retries t)"
  have mx: "mx + 1 < 2 ^ 32"
    using Suc.prems(2) by (simp add: mx_def)
  show ?case
  proof (cases "a > mx")
    case True
    then have "retry_step t = None"
      using Suc.prems by (simp add: retry_step_def a_def mx_def word_less_nat_alt)
    with True Suc.prems show ?thesis
      by (simp add: a_def mx_def)
  next
    case False
    define t' where "t' = t\<lparr>rt_attempts := rt_attempts t + 1\<rparr>"
    have step: "retry_step t = Some (rt_msg t, t')"
      using False by (simp add: retry_step_def t'_def a_def mx_def word_less_nat_alt)
    have a': "unat (rt_attempts t + 1) = a + 1"
      using False mx by (simp add: a_def mx_def unat_word_ariths)
    have "retry_run n t' = replicate (min n (mx + 1 - (a + 1))) (rt_msg t)"
      using Suc.IH [of t'] Suc.prems False a' by (simp add: t'_def mx_def)
    with step False show ?thesis
      by (simp add: a_def [symmetric] mx_def [symmetric] Suc_diff_le min_def)
  qed
qed

text \<open>C22: with \<open>max_retries\<close> set to a number other than 0 (and below the largest \<open>u32\<close>), the retry task
  of a transaction retransmits its packet \<open>max_retries + 1\<close> times and then returns; with 0
  it retransmits in every turn, for ever.\<close>

theorem retry_task_transmissions:
  assumes "spawn_retry_task tx cid config packet pool = (h, pool')"
  shows "\<exists>task. tp_live pool' h = Some task \<and>
    (cfg_max_retries config = 0 \<longrightarrow> retry_run n task = replicate n (QoSRetry cid packet)) \<and>
    (cfg_max_retries config \<noteq> 0 \<and> unat (cfg_max_retries config) + 1 < 2 ^ 32 \<longrightarrow>
       retry_run n task
         = replicate (min n (unat (cfg_max_retries config) + 1)) (QoSRetry cid packet))"
  using assms
  by (auto simp: spawn_retry_task_def Let_def retry_run_unlimited retry_run_limited)

theorem retry_task_transmissions_witness:
  "let (h, pool) = spawn_retry_task 0 ''c'' (config_new ''0.0.0.0'' 1883 3 20 30) P_Pingreq empty_pool
   in retry_run 100 (the (tp_live pool h)) = replicate 4 (QoSRetry ''c'' P_Pingreq)"
  using retry_task_transmissions [of 0 "''c''" "config_new ''0.0.0.0'' 1883 3 20 30" P_Pingreq
      empty_pool 0 "snd (spawn_retry_task 0 ''c'' (config_new ''0.0.0.0'' 1883 3 20 30) P_Pingreq
        empty_pool)" 100]
  by (auto simp: spawn_retry_task_def empty_pool_def config_new_def Let_def)

end
