(* ===== verification/Client_Session.thy ===== *)
theory Client_Session
  imports Qos_Tracker
begin

section \<open>Client sessions (\<open>mqttrs-1/src/broker/session.rs\<close>)\<close>

text \<open>
  A session holds the identity of a connected client and the trackers of its QoS
  transactions in flight, by packet identifier. Its operations run on the pair of the
  session and the pool of the retry tasks that its trackers spawn. The theory ends with
  the interface that the client handler relies on, the locale \<open>qos_store\<close>, and its
  interpretation on \<open>update_qos\<close>.
\<close>

record Session =
  s_id :: string
  s_config :: Config
  s_last_will :: "LastWill option"
  s_client_tx :: sender
  s_qos_txns :: "pid \<rightharpoonup> Tracker"

definition session_new :: "string \<Rightarrow> Config \<Rightarrow> LastWill option \<Rightarrow> sender \<Rightarrow> Session" where
  "session_new cid config last_will client_tx =
     \<lparr>s_id = cid, s_config = config, s_last_will = last_will,
      s_client_tx = client_tx, s_qos_txns = Map.empty\<rparr>"

type_synonym store = "Session \<times> task_pool"

text \<open>\<open>self.qos_txns.remove(&pid)\<close>: the removed tracker is dropped.\<close>

definition txns_remove :: "pid \<Rightarrow> store \<Rightarrow> store" where
  "txns_remove p = (\<lambda>(s, pool).
     case s_qos_txns s p of
       None \<Rightarrow> (s, pool)
     | Some t \<Rightarrow> (s\<lparr>s_qos_txns := (s_qos_txns s)(p := None)\<rparr>, tracker_drop t pool))"

definition update_qos :: "pid \<Rightarrow> Packet \<Rightarrow> (store, error, unit) op" where
  "update_qos p packet = (\<lambda>(s, pool).
     if \<not> p \<in> dom (s_qos_txns s) then
       (case tracker_new (s_client_tx s) (s_id s) (s_config s) packet pool of
          (Inl err, pool') \<Rightarrow> (Inr (), (s, pool'))
        | (Inr t, pool') \<Rightarrow>
            (Inr (), (s\<lparr>s_qos_txns := (s_qos_txns s)(p \<mapsto> t)\<rparr>, pool')))
     else
       (case s_qos_txns s p of
          None \<Rightarrow> (Inl ClientHandlerInvalidState, (s, pool))
        | Some tracker \<Rightarrow>
            (case tracker_update (s_client_tx s) (s_id s) (s_config s) packet (tracker, pool) of
               (res, (tracker', pool')) \<Rightarrow>
                 (let s' = s\<lparr>s_qos_txns := (s_qos_txns s)(p \<mapsto> tracker')\<rparr>
                  in (case res of
                        Inr Active \<Rightarrow> (Inr (), (s', pool'))
                      | Inr (Finished q) \<Rightarrow> (Inr (), txns_remove q (s', pool'))
                      | Inl err \<Rightarrow> (Inr (), (s', pool')))))))"

text \<open>\<open>PartialEq for Session\<close>.\<close>

definition session_eq :: "Session \<Rightarrow> Session \<Rightarrow> bool" where
  "session_eq a b \<longleftrightarrow> s_id a = s_id b \<and> s_config a = s_config b"

text \<open>
  Dropping a session drops every tracker of its map. The order in which a map drops its
  entries is not specified, and does not matter: the result is a pool without the tasks
  the trackers hold.
\<close>

definition session_drop :: "Session \<Rightarrow> task_pool \<Rightarrow> task_pool" where
  "session_drop s pool =
     pool\<lparr>tp_live := tp_live pool
       |` (- {h. \<exists>p t. s_qos_txns s p = Some t \<and> tr_retry_task t = Some h})\<rparr>"

subsection \<open>Transactions as phases\<close>

text \<open>
  What a transaction has come to is the packet its tracker holds. The following functions
  say which packets start, continue and end a transaction; they restate the flows of the
  broker's README and do not mention tasks.
\<close>

fun pkt_pid :: "Packet \<Rightarrow> pid option" where
  "pkt_pid (P_Publish m) =
     (case pub_qospid m of QP_AtMostOnce \<Rightarrow> None | QP_AtLeastOnce p \<Rightarrow> Some p
        | QP_ExactlyOnce p \<Rightarrow> Some p)"
| "pkt_pid (P_Puback p) = Some p"
| "pkt_pid (P_Pubrec p) = Some p"
| "pkt_pid (P_Pubrel p) = Some p"
| "pkt_pid (P_Pubcomp p) = Some p"
| "pkt_pid _ = None"

fun starts :: "Packet \<Rightarrow> bool" where
  "starts (P_Publish _) = True"
| "starts (P_Pubrec _) = True"
| "starts _ = False"

fun ends :: "Packet \<Rightarrow> bool" where
  "ends (P_Puback _) = True"
| "ends (P_Pubcomp _) = True"
| "ends _ = False"

fun follows :: "Packet \<Rightarrow> Packet \<Rightarrow> bool" where
  "follows (P_Publish m) k =
     (case pub_qospid m of QP_AtMostOnce \<Rightarrow> False | QP_AtLeastOnce p \<Rightarrow> k = P_Puback p
        | QP_ExactlyOnce p \<Rightarrow> k = P_Pubrec p)"
| "follows (P_Pubrec p) k = (k = P_Pubrel p)"
| "follows (P_Pubrel p) k = (k = P_Pubcomp p)"
| "follows _ k = False"

fun next_phase :: "Packet option \<Rightarrow> Packet \<Rightarrow> Packet option" where
  "next_phase None k = (if starts k then Some k else None)"
| "next_phase (Some st) k =
     (if \<not> follows st k then Some st else if ends k then None else Some k)"

lemma expected_follows: "expected_packet st = Inr k \<longleftrightarrow> follows st k"
  by (cases st) (auto simp: expected_packet_def split: QosPid.splits)

lemma follows_pid: "follows st k \<Longrightarrow> pkt_pid k = pkt_pid st"
  by (cases st) (auto split: QosPid.splits)

subsection \<open>What one update of a tracker does\<close>

lemma tracker_new_starts:
  "starts k \<Longrightarrow> tracker_new tx cid cfg k pool =
     (case spawn_retry_task tx cid cfg k pool of
        (h, pool') \<Rightarrow> (Inr \<lparr>tr_state = k, tr_retry_task = Some h\<rparr>, pool'))"
  by (cases k) (auto simp: tracker_new_def Let_def split: prod.splits)

lemma tracker_new_refuses:
  "\<not> starts k \<Longrightarrow> tracker_new tx cid cfg k pool = (Inl MQTTProtocolViolation, pool)"
  by (cases k) (auto simp: tracker_new_def Let_def split: prod.splits)

lemma tracker_update_rejects:
  assumes "\<not> follows (tr_state t) k"
  shows "\<exists>e. tracker_update tx cid cfg k (t, pool)
    = (Inl e, (t\<lparr>tr_retry_task := None\<rparr>, abort_opt (tr_retry_task t) pool))"
proof (cases "expected_packet (tr_state t)")
  case (Inl e)
  then show ?thesis by (simp add: tracker_update_def Let_def)
next
  case (Inr x)
  with assms have "x \<noteq> k"
    using expected_follows by blast
  with Inr show ?thesis by (simp add: tracker_update_def Let_def)
qed

lemma tracker_update_violation:
  assumes "\<not> follows (tr_state t) k" "pkt_pid (tr_state t) = Some p" "\<not> ends (tr_state t)"
  shows "fst (tracker_update tx cid cfg k (t, pool)) = Inl MQTTProtocolViolation"
proof -
  obtain x where "expected_packet (tr_state t) = Inr x"
    using assms(2,3) by (cases "tr_state t") (auto simp: expected_packet_def split: QosPid.splits)
  moreover from this assms(1) have "x \<noteq> k" using expected_follows by blast
  ultimately show ?thesis by (simp add: tracker_update_def Let_def)
qed

lemma tracker_update_ends:
  assumes "follows (tr_state t) k" "ends k" "pkt_pid k = Some p"
  shows "tracker_update tx cid cfg k (t, pool)
    = (Inr (Finished p), (t\<lparr>tr_state := k, tr_retry_task := None\<rparr>, abort_opt (tr_retry_task t) pool))"
proof -
  have "expected_packet (tr_state t) = Inr k"
    using assms(1) by (simp add: expected_follows)
  with assms(2,3) show ?thesis
    by (cases k) (auto simp: tracker_update_def Let_def)
qed

lemma tracker_update_continues:
  assumes "follows (tr_state t) k" "\<not> ends k"
  shows "tracker_update tx cid cfg k (t, pool)
    = (case spawn_retry_task tx cid cfg k (abort_opt (tr_retry_task t) pool) of
         (h, pool') \<Rightarrow> (Inr Active, (\<lparr>tr_state = k, tr_retry_task = Some h\<rparr>, pool')))"
proof -
  have "expected_packet (tr_state t) = Inr k"
    using assms(1) by (simp add: expected_follows)
  with assms(2) show ?thesis
    by (cases k) (auto simp: tracker_update_def Let_def split: prod.splits)
qed

subsection \<open>The invariant of a session and its tasks\<close>

text \<open>
  Every tracker is filed under the packet identifier of its packet, which starts or
  continues a transaction (finished ones are gone). Every task of the pool is the retry
  task of exactly one tracker and retransmits that tracker's packet to the session's own
  handler: no task outlives its transaction.
\<close>

definition wf_tracker :: "store \<Rightarrow> pid \<Rightarrow> Tracker \<Rightarrow> bool" where
  "wf_tracker st p t \<longleftrightarrow>
     pkt_pid (tr_state t) = Some p \<and> \<not> ends (tr_state t) \<and>
     (\<forall>h. tr_retry_task t = Some h \<longrightarrow> h < tp_next (snd st) \<and>
        (\<forall>rt. tp_live (snd st) h = Some rt \<longrightarrow>
           rt_msg rt = QoSRetry (s_id (fst st)) (tr_state t) \<and> rt_tx rt = s_client_tx (fst st)))"

definition wf_store :: "store \<Rightarrow> bool" where
  "wf_store st \<longleftrightarrow>
     (\<forall>p t. s_qos_txns (fst st) p = Some t \<longrightarrow> wf_tracker st p t) \<and>
     (\<forall>p q t u h. s_qos_txns (fst st) p = Some t \<and> s_qos_txns (fst st) q = Some u \<and>
        tr_retry_task t = Some h \<and> tr_retry_task u = Some h \<longrightarrow> p = q) \<and>
     (\<forall>h \<in> dom (tp_live (snd st)). \<exists>p t. s_qos_txns (fst st) p = Some t \<and> tr_retry_task t = Some h)"

lemma wf_storeI:
  assumes "\<And>p t. s_qos_txns (fst st) p = Some t \<Longrightarrow> wf_tracker st p t"
    and "\<And>p q t u h. s_qos_txns (fst st) p = Some t \<Longrightarrow> s_qos_txns (fst st) q = Some u \<Longrightarrow>
        tr_retry_task t = Some h \<Longrightarrow> tr_retry_task u = Some h \<Longrightarrow> p = q"
    and "\<And>h rt. tp_live (snd st) h = Some rt \<Longrightarrow>
        \<exists>p t. s_qos_txns (fst st) p = Some t \<and> tr_retry_task t = Some h"
  shows "wf_store st"
  using assms unfolding wf_store_def by blast

lemma wf_storeD:
  assumes "wf_store st"
  shows "s_qos_txns (fst st) p = Some t \<Longrightarrow> wf_tracker st p t"
    and "s_qos_txns (fst st) p = Some t \<Longrightarrow> s_qos_txns (fst st) q = Some u \<Longrightarrow>
        tr_retry_task t = Some h \<Longrightarrow> tr_retry_task u = Some h \<Longrightarrow> p = q"
    and "tp_live (snd st) h = Some rt \<Longrightarrow>
        \<exists>p t. s_qos_txns (fst st) p = Some t \<and> tr_retry_task t = Some h"
  using assms unfolding wf_store_def by blast+

lemma abort_opt_live [simp]:
  "tp_live (abort_opt r pool) h = (if r = Some h then None else tp_live pool h)"
  "tp_next (abort_opt r pool) = tp_next pool"
  by (auto simp: abort_opt_def abort_task_def split: option.splits)

lemma wf_session_new: "wf_store (session_new cid config lw tx, empty_pool)"
  by (simp add: wf_store_def session_new_def empty_pool_def)

text \<open>Three elementary changes of a store, of which every update is made.\<close>

lemma wf_disarm:
  assumes wf: "wf_store (s, pool)" and t: "s_qos_txns s p = Some t"
  shows "wf_store (s\<lparr>s_qos_txns := (s_qos_txns s)(p \<mapsto> t\<lparr>tr_retry_task := None\<rparr>)\<rparr>,
                   abort_opt (tr_retry_task t) pool)"
proof (rule wf_storeI, goal_cases)
  case (1 q u)
  then show ?case
    using wf_storeD(1) [OF wf, of q] wf_storeD(1) [OF wf, of p] t
    by (auto simp: wf_tracker_def split: if_splits)
next
  case (2 q q' u u' h)
  then show ?case
    using wf_storeD(2) [OF wf, of q _ q'] by (auto split: if_splits)
next
  case (3 h rt)
  then have "tp_live pool h = Some rt" and ne: "tr_retry_task t \<noteq> Some h"
    by (auto split: if_splits)
  then obtain q u where "s_qos_txns s q = Some u" "tr_retry_task u = Some h"
    using wf_storeD(3) [OF wf] by fastforce
  with ne t show ?case by (intro exI [of _ q] exI [of _ u]) auto
qed

lemma wf_arm:
  assumes wf: "wf_store (s, pool)"
    and idle: "\<And>t. s_qos_txns s p = Some t \<Longrightarrow> tr_retry_task t = None"
    and k: "pkt_pid k = Some p" "\<not> ends k"
    and spawn: "spawn_retry_task (s_client_tx s) (s_id s) cfg k pool = (h, pool')"
  shows "wf_store (s\<lparr>s_qos_txns := (s_qos_txns s)(p \<mapsto> \<lparr>tr_state = k, tr_retry_task = Some h\<rparr>)\<rparr>,
                   pool')"
proof -
  have h: "h = tp_next pool" and next': "tp_next pool' = Suc h"
    and new: "\<And>rt. tp_live pool' h = Some rt \<Longrightarrow>
       rt_msg rt = QoSRetry (s_id s) k \<and> rt_tx rt = s_client_tx s"
    and kept: "\<And>x. x \<noteq> h \<Longrightarrow> tp_live pool' x = tp_live pool x"
    using spawn by (auto simp: spawn_retry_task_def Let_def)
  have old: "tr_retry_task u \<noteq> Some h" if "s_qos_txns s q = Some u" for q u
    using wf_storeD(1) [OF wf, of q u] that h by (auto simp: wf_tracker_def)
  show ?thesis
  proof (rule wf_storeI, goal_cases)
    case (1 q u)
    show ?case
    proof (cases "q = p")
      case True
      with 1 have "u = \<lparr>tr_state = k, tr_retry_task = Some h\<rparr>" by simp
      with True k next' new show ?thesis by (auto simp: wf_tracker_def)
    next
      case False
      with 1 have u: "s_qos_txns s q = Some u" by simp
      with wf have "wf_tracker (s, pool) q u" by (auto dest: wf_storeD(1))
      moreover have "tp_live pool' x = tp_live pool x" if "tr_retry_task u = Some x" for x
        using old [OF u] that by (intro kept) auto
      ultimately show ?thesis
        using h next' by (simp add: wf_tracker_def less_SucI)
    qed
  next
    case (2 q q' u u' x)
    then show ?case
      using wf_storeD(2) [OF wf, of q u q' u'] old by (auto split: if_splits)
  next
    case (3 x rt)
    show ?case
    proof (cases "x = h")
      case True
      then show ?thesis by (intro exI [of _ p]) simp
    next
      case False
      with 3 kept have "tp_live pool x = Some rt" by simp
      then obtain q u where "s_qos_txns s q = Some u" "tr_retry_task u = Some x"
        using wf_storeD(3) [OF wf] by fastforce
      with idle show ?thesis by (intro exI [of _ q] exI [of _ u]) auto
    qed
  qed
qed

lemma wf_remove:
  assumes wf: "wf_store (s, pool)" and idle: "\<And>t. s_qos_txns s p = Some t \<Longrightarrow> tr_retry_task t = None"
  shows "wf_store (s\<lparr>s_qos_txns := (s_qos_txns s)(p := None)\<rparr>, pool)"
proof (rule wf_storeI, goal_cases)
  case (1 q u)
  then show ?case
    using wf_storeD(1) [OF wf, of q u] by (auto simp: wf_tracker_def split: if_splits)
next
  case (2 q q' u u' x)
  then show ?case
    using wf_storeD(2) [OF wf, of q u q' u'] by (auto split: if_splits)
next
  case (3 h rt)
  then obtain q u where "s_qos_txns s q = Some u" "tr_retry_task u = Some h"
    using wf_storeD(3) [OF wf] by fastforce
  with idle show ?case by (intro exI [of _ q] exI [of _ u]) auto
qed

subsection \<open>Updates of a transaction\<close>

definition phase :: "store \<Rightarrow> pid \<Rightarrow> Packet option" where
  "phase st p = map_option tr_state (s_qos_txns (fst st) p)"

text \<open>The packet that a live task is retransmitting for a transaction.\<close>

definition armed :: "store \<Rightarrow> pid \<Rightarrow> BrokerMsg option" where
  "armed st p =
     Option.bind (s_qos_txns (fst st) p) (\<lambda>t.
       Option.bind (tr_retry_task t) (\<lambda>h. map_option rt_msg (tp_live (snd st) h)))"

text \<open>\<open>update_qos\<close> on a well-formed store, case by case.\<close>

lemma update_qos_start:
  assumes "s_qos_txns s p = None" "starts k"
    and "spawn_retry_task (s_client_tx s) (s_id s) (s_config s) k pool = (h, pool')"
  shows "update_qos p k (s, pool) = (Inr (),
    (s\<lparr>s_qos_txns := (s_qos_txns s)(p \<mapsto> \<lparr>tr_state = k, tr_retry_task = Some h\<rparr>)\<rparr>, pool'))"
  using assms by (simp add: update_qos_def tracker_new_starts dom_def)

lemma update_qos_no_start:
  "s_qos_txns s p = None \<Longrightarrow> \<not> starts k \<Longrightarrow> update_qos p k (s, pool) = (Inr (), (s, pool))"
  by (simp add: update_qos_def tracker_new_refuses dom_def)

lemma update_qos_reject:
  assumes "s_qos_txns s p = Some t" "\<not> follows (tr_state t) k"
  shows "update_qos p k (s, pool) = (Inr (),
    (s\<lparr>s_qos_txns := (s_qos_txns s)(p \<mapsto> t\<lparr>tr_retry_task := None\<rparr>)\<rparr>, abort_opt (tr_retry_task t) pool))"
proof -
  obtain e where "tracker_update (s_client_tx s) (s_id s) (s_config s) k (t, pool)
      = (Inl e, (t\<lparr>tr_retry_task := None\<rparr>, abort_opt (tr_retry_task t) pool))"
    using tracker_update_rejects [OF assms(2)] by blast
  with assms(1) show ?thesis by (simp add: update_qos_def dom_def)
qed

lemma update_qos_end:
  assumes "s_qos_txns s p = Some t" "follows (tr_state t) k" "ends k" "pkt_pid k = Some p"
  shows "update_qos p k (s, pool) = (Inr (),
    (s\<lparr>s_qos_txns := (s_qos_txns s)(p := None)\<rparr>, abort_opt (tr_retry_task t) pool))"
  using assms
  by (simp add: update_qos_def Let_def dom_def tracker_update_ends txns_remove_def tracker_drop_def
      abort_opt_def)

lemma update_qos_continue:
  assumes "s_qos_txns s p = Some t" "follows (tr_state t) k" "\<not> ends k"
    and "spawn_retry_task (s_client_tx s) (s_id s) (s_config s) k (abort_opt (tr_retry_task t) pool)
      = (h, pool')"
  shows "update_qos p k (s, pool) = (Inr (),
    (s\<lparr>s_qos_txns := (s_qos_txns s)(p \<mapsto> \<lparr>tr_state = k, tr_retry_task = Some h\<rparr>)\<rparr>, pool'))"
  using assms by (simp add: update_qos_def Let_def dom_def tracker_update_continues)

text \<open>The five cases as one rule, for a packet that belongs to the transaction.\<close>

lemma update_qos_cases [consumes 1, case_names start no_start reject finish advance]:
  assumes "pkt_pid k = Some p"
  obtains
    (start) h pool' where "s_qos_txns s p = None" "starts k"
      "spawn_retry_task (s_client_tx s) (s_id s) (s_config s) k pool = (h, pool')"
      "update_qos p k (s, pool) = (Inr (),
         (s\<lparr>s_qos_txns := (s_qos_txns s)(p \<mapsto> \<lparr>tr_state = k, tr_retry_task = Some h\<rparr>)\<rparr>, pool'))"
  | (no_start) "s_qos_txns s p = None" "\<not> starts k" "update_qos p k (s, pool) = (Inr (), (s, pool))"
  | (reject) t where "s_qos_txns s p = Some t" "\<not> follows (tr_state t) k"
      "update_qos p k (s, pool) = (Inr (),
         (s\<lparr>s_qos_txns := (s_qos_txns s)(p \<mapsto> t\<lparr>tr_retry_task := None\<rparr>)\<rparr>,
          abort_opt (tr_retry_task t) pool))"
  | (finish) t where "s_qos_txns s p = Some t" "follows (tr_state t) k" "ends k"
      "update_qos p k (s, pool) = (Inr (),
         (s\<lparr>s_qos_txns := (s_qos_txns s)(p := None)\<rparr>, abort_opt (tr_retry_task t) pool))"
  | (advance) t h pool' where "s_qos_txns s p = Some t" "follows (tr_state t) k" "\<not> ends k"
      "spawn_retry_task (s_client_tx s) (s_id s) (s_config s) k (abort_opt (tr_retry_task t) pool)
         = (h, pool')"
      "update_qos p k (s, pool) = (Inr (),
         (s\<lparr>s_qos_txns := (s_qos_txns s)(p \<mapsto> \<lparr>tr_state = k, tr_retry_task = Some h\<rparr>)\<rparr>, pool'))"
proof (cases "s_qos_txns s p")
  case None
  then show thesis
    using start no_start update_qos_start [OF None] update_qos_no_start [OF None]
    by (metis surj_pair)
next
  case (Some t)
  then show thesis
    using reject finish advance assms update_qos_reject [OF Some] update_qos_end [OF Some]
      update_qos_continue [OF Some]
    by (metis surj_pair)
qed

lemma update_qos_Inr:
  assumes "pkt_pid k = Some p"
  shows "fst (update_qos p k st) = Inr ()"
  using assms by (cases st, cases rule: update_qos_cases [where s = "fst st" and pool = "snd st"])
    auto

lemma update_qos_fixed:
  assumes "pkt_pid k = Some p"
  shows "s_id (fst (snd (update_qos p k st))) = s_id (fst st)"
    and "s_client_tx (fst (snd (update_qos p k st))) = s_client_tx (fst st)"
    and "s_config (fst (snd (update_qos p k st))) = s_config (fst st)"
    and "s_last_will (fst (snd (update_qos p k st))) = s_last_will (fst st)"
  using assms
  by (cases st, cases rule: update_qos_cases [where s = "fst st" and pool = "snd st"], simp_all)+

lemma starts_not_ends: "starts k \<Longrightarrow> \<not> ends k"
  by (cases k) simp_all

lemma update_qos_wf:
  assumes "wf_store (s, pool)" "pkt_pid k = Some p"
  shows "wf_store (snd (update_qos p k (s, pool)))"
  using assms(2)
proof (cases rule: update_qos_cases [where s = s and pool = pool])
  case (start h pool')
  then show ?thesis
    using wf_arm [OF assms(1) _ assms(2) _ start(3)] by (simp add: starts_not_ends)
next
  case no_start
  then show ?thesis using assms(1) by simp
next
  case (reject t)
  then show ?thesis using wf_disarm [OF assms(1) reject(1)] by simp
next
  case (finish t)
  then show ?thesis
    using wf_remove [OF wf_disarm [OF assms(1) finish(1)], of p] by simp
next
  case (advance t h pool')
  let ?s = "s\<lparr>s_qos_txns := (s_qos_txns s)(p \<mapsto> t\<lparr>tr_retry_task := None\<rparr>)\<rparr>"
  have "spawn_retry_task (s_client_tx ?s) (s_id ?s) (s_config s) k (abort_opt (tr_retry_task t) pool)
      = (h, pool')"
    using advance(4) by simp
  from wf_arm [OF wf_disarm [OF assms(1) advance(1)] _ assms(2) advance(3) this]
  show ?thesis using advance(5) by simp
qed

lemma update_qos_phase:
  assumes "pkt_pid k = Some p"
  shows "phase (snd (update_qos p k (s, pool)))
    = (phase (s, pool))(p := next_phase (phase (s, pool) p) k)"
  using assms
  by (cases rule: update_qos_cases [where s = s and pool = pool])
    (auto simp: phase_def fun_eq_iff)

text \<open>Which packet is retransmitted after an update.\<close>

lemma spawn_live:
  assumes "spawn_retry_task tx cid cfg k pool = (h, pool')"
  shows "map_option rt_msg (tp_live pool' h) = Some (QoSRetry cid k)"
    and "x \<noteq> h \<Longrightarrow> tp_live pool' x = tp_live pool x"
    and "h = tp_next pool"
  using assms by (auto simp: spawn_retry_task_def Let_def)

lemma update_qos_armed:
  assumes "pkt_pid k = Some p"
  shows "armed (snd (update_qos p k (s, pool))) p =
    (if phase (snd (update_qos p k (s, pool))) p = Some k \<and>
        (case phase (s, pool) p of None \<Rightarrow> starts k | Some st \<Rightarrow> follows st k)
     then Some (QoSRetry (s_id s) k) else None)"
  using assms
proof (cases rule: update_qos_cases [where s = s and pool = pool])
  case (start h pool')
  then show ?thesis by (auto simp: armed_def phase_def dest: spawn_live(1))
next
  case no_start
  then show ?thesis by (simp add: armed_def phase_def)
next
  case (reject t)
  then show ?thesis by (simp add: armed_def phase_def)
next
  case (finish t)
  then show ?thesis by (simp add: armed_def phase_def)
next
  case (advance t h pool')
  then show ?thesis by (auto simp: armed_def phase_def dest: spawn_live(1))
qed

lemma update_qos_armed_other:
  assumes wf: "wf_store (s, pool)" and k: "pkt_pid k = Some p" and q: "q \<noteq> p"
  shows "armed (snd (update_qos p k (s, pool))) q = armed (s, pool) q"
proof (cases "s_qos_txns s q")
  case None
  with k q show ?thesis
    by (cases rule: update_qos_cases [where s = s and pool = pool]) (auto simp: armed_def)
next
  case (Some u)
  have old: "h < tp_next pool" if "tr_retry_task u = Some h" for h
    using wf_storeD(1) [OF wf, of q u] Some that by (simp add: wf_tracker_def)
  have other: "tr_retry_task t \<noteq> Some h"
    if "s_qos_txns s p = Some t" "tr_retry_task u = Some h" for t h
    using wf_storeD(2) [OF wf, of p t q u h] Some that q by auto
  have fresh: "tp_live pool' h = tp_live pool1 h"
    if "spawn_retry_task tx cid cfg k pool1 = (n, pool')" "tp_next pool1 = tp_next pool"
      "tr_retry_task u = Some h" for pool1 pool' tx cid cfg n h
    using spawn_live(2,3) [OF that(1)] old [OF that(3)] that(2) by auto
  from k show ?thesis
    by (cases rule: update_qos_cases [where s = s and pool = pool])
      (use Some q old other fresh in \<open>auto simp: armed_def split: option.splits bind_splits\<close>)
qed

subsection \<open>The interface to the client handler\<close>

text \<open>
  What a client handler needs to know of the store of transactions it updates: how the
  phase of the transaction moves, which packet is retransmitted afterwards, and that
  other transactions are left alone. What a stray packet does, and how a message received
  with QoS 2 is tracked, follow from these laws alone.
\<close>

locale qos_store =
  fixes ph :: "'s \<Rightarrow> pid \<Rightarrow> Packet option"
    and upd :: "pid \<Rightarrow> Packet \<Rightarrow> 's \<Rightarrow> 's"
    and armd :: "'s \<Rightarrow> pid \<Rightarrow> BrokerMsg option"
    and owner :: "'s \<Rightarrow> string"
    and invar :: "'s \<Rightarrow> bool"
  assumes invar_upd: "invar s \<Longrightarrow> pkt_pid k = Some p \<Longrightarrow> invar (upd p k s)"
    and ph_upd: "pkt_pid k = Some p \<Longrightarrow> ph (upd p k s) = (ph s)(p := next_phase (ph s p) k)"
    and armd_upd: "pkt_pid k = Some p \<Longrightarrow> armd (upd p k s) p =
      (if ph (upd p k s) p = Some k \<and>
          (case ph s p of None \<Rightarrow> starts k | Some st \<Rightarrow> follows st k)
       then Some (QoSRetry (owner s) k) else None)"
    and armd_other: "invar s \<Longrightarrow> pkt_pid k = Some p \<Longrightarrow> q \<noteq> p \<Longrightarrow> armd (upd p k s) q = armd s q"
    and owner_upd: "pkt_pid k = Some p \<Longrightarrow> owner (upd p k s) = owner s"
begin

lemma stray:
  assumes "ph s p = Some st" "\<not> follows st k" "pkt_pid k = Some p"
  shows "ph (upd p k s) = ph s" and "armd (upd p k s) p = None"
  using assms by (simp_all add: ph_upd armd_upd fun_upd_idem)

lemma qos2_receiver_completes:
  assumes "ph s p = None"
  defines "s1 \<equiv> upd p (P_Pubrec p) s"
  shows "ph s1 p = Some (P_Pubrec p)" and "armd s1 p = Some (QoSRetry (owner s) (P_Pubrec p))"
    and "ph (upd p (P_Pubcomp p) (upd p (P_Pubrel p) s1)) p = None"
    and "armd (upd p (P_Pubcomp p) (upd p (P_Pubrel p) s1)) p = None"
  using assms by (simp_all add: ph_upd armd_upd)

end

definition txn_update :: "pid \<Rightarrow> Packet \<Rightarrow> store \<Rightarrow> store" where
  "txn_update p k st = snd (update_qos p k st)"

interpretation txns: qos_store phase txn_update armed "\<lambda>st. s_id (fst st)" wf_store
proof (unfold_locales, goal_cases)
  case (1 st k p)
  then show ?case by (cases st) (simp add: txn_update_def update_qos_wf)
next
  case (2 k p st)
  then show ?case by (cases st) (simp add: txn_update_def update_qos_phase)
next
  case (3 k p st)
  then show ?case by (cases st) (simp only: txn_update_def update_qos_armed fst_conv)
next
  case (4 st k p q)
  then show ?case by (cases st) (simp add: txn_update_def update_qos_armed_other)
next
  case (5 k p st)
  then show ?case by (simp add: txn_update_def update_qos_fixed)
qed

subsection \<open>Retry tasks and the end of a session\<close>

lemma wf_pool_tick:
  assumes wf: "wf_store (s, pool)"
  shows "wf_store (s, snd (pool_tick h pool))"
proof -
  have live: "tp_live (snd (pool_tick h pool)) x = Some rt \<Longrightarrow>
      \<exists>rt0. tp_live pool x = Some rt0 \<and> rt_msg rt = rt_msg rt0 \<and> rt_tx rt = rt_tx rt0" for x rt
    by (auto simp: pool_tick_def abort_task_def retry_step_def split: option.splits if_splits)
  have nxt: "tp_next (snd (pool_tick h pool)) = tp_next pool"
    by (auto simp: pool_tick_def abort_task_def split: option.splits)
  show ?thesis
  proof (rule wf_storeI, goal_cases)
    case (1 p t)
    with wf have "wf_tracker (s, pool) p t" by (auto dest: wf_storeD(1))
    then show ?case using nxt by (auto simp: wf_tracker_def dest!: live)
  next
    case (2 p q t u x)
    then show ?case using wf_storeD(2) [OF wf, of p t q u] by auto
  next
    case (3 x rt)
    then show ?case using live [of x rt] wf_storeD(3) [OF wf, of x] by auto
  qed
qed

lemma pool_tick_sends:
  assumes "wf_store (s, pool)" "pool_tick h pool = (Some (tx, m), pool')"
  shows "\<exists>p k. phase (s, pool) p = Some k \<and> m = QoSRetry (s_id s) k \<and> tx = s_client_tx s"
proof -
  obtain rt where rt: "tp_live pool h = Some rt" "rt_msg rt = m" "rt_tx rt = tx"
    using assms(2) by (auto simp: pool_tick_def retry_step_def split: option.splits if_splits)
  with assms(1) obtain p t where "s_qos_txns s p = Some t" "tr_retry_task t = Some h"
    using wf_storeD(3) by fastforce
  moreover from this assms(1) have "wf_tracker (s, pool) p t"
    by (auto dest: wf_storeD(1))
  ultimately show ?thesis using rt by (auto simp: wf_tracker_def phase_def)
qed

subsection \<open>Properties\<close>

text \<open>A fresh session, at which the properties below are witnessed.\<close>

definition sample_store :: store where
  "sample_store = (session_new ''c'' (config_new ''0.0.0.0'' 1883 3 20 30) None 0, empty_pool)"

lemma sample_store_props:
  "wf_store sample_store" "phase sample_store p = None" "s_id (fst sample_store) = ''c''"
  "s_client_tx (fst sample_store) = 0"
  by (simp_all add: sample_store_def wf_session_new) (simp_all add: phase_def session_new_def)

text \<open>C11: on a well-formed session \<open>update_qos\<close> keeps the session well-formed and moves exactly the
  named transaction: an absent one is started by \<open>Publish\<close> or \<open>Pubrec\<close>, the expected next
  packet advances it, \<open>Puback\<close> and \<open>Pubcomp\<close> remove it, and anything else leaves its phase
  alone. It never returns an error, also where its tracker does: a first packet of the
  wrong type, which \<open>Tracker::new\<close> refuses with a protocol violation, changes nothing and
  returns \<open>Ok\<close>, and so does a later packet that \<open>Tracker::update\<close> refuses with one, though
  the comment in \<open>update_qos\<close> asks for the tracker's error to be propagated.\<close>

theorem update_qos_correct:
  assumes "wf_store st" "pkt_pid k = Some p"
  shows "fst (update_qos p k st) = Inr () \<and> wf_store (snd (update_qos p k st)) \<and>
    phase (snd (update_qos p k st)) = (phase st)(p := next_phase (phase st p) k) \<and>
    (phase st p = None \<and> \<not> starts k \<longrightarrow>
       fst (tracker_new (s_client_tx (fst st)) (s_id (fst st)) (s_config (fst st)) k (snd st))
         = Inl MQTTProtocolViolation \<and>
       update_qos p k st = (Inr (), st)) \<and>
    (\<forall>t. s_qos_txns (fst st) p = Some t \<and> \<not> follows (tr_state t) k \<longrightarrow>
       fst (tracker_update (s_client_tx (fst st)) (s_id (fst st)) (s_config (fst st)) k (t, snd st))
         = Inl MQTTProtocolViolation \<and>
       fst (update_qos p k st) = Inr ())"
proof (intro conjI impI allI; (elim conjE)?)
  show "fst (update_qos p k st) = Inr ()" "fst (update_qos p k st) = Inr ()"
    using update_qos_Inr [OF assms(2)] by simp_all
  show "wf_store (snd (update_qos p k st))"
      "phase (snd (update_qos p k st)) = (phase st)(p := next_phase (phase st p) k)"
    using txns.invar_upd [OF assms] txns.ph_upd [OF assms(2), of st] by (simp_all add: txn_update_def)
next
  assume none: "phase st p = None" and k: "\<not> starts k"
  show "fst (tracker_new (s_client_tx (fst st)) (s_id (fst st)) (s_config (fst st)) k (snd st))
      = Inl MQTTProtocolViolation"
    using tracker_new_refuses [OF k] by simp
  show "update_qos p k st = (Inr (), st)"
    using update_qos_no_start [of "fst st" p k "snd st"] none k by (simp add: phase_def)
next
  fix t assume "s_qos_txns (fst st) p = Some t" and k: "\<not> follows (tr_state t) k"
  then have "wf_tracker st p t" using wf_storeD(1) [OF assms(1)] by blast
  then show "fst (tracker_update (s_client_tx (fst st)) (s_id (fst st)) (s_config (fst st)) k
      (t, snd st)) = Inl MQTTProtocolViolation"
    using k by (intro tracker_update_violation) (auto simp: wf_tracker_def)
qed

theorem update_qos_correct_witness:
  "phase (snd (update_qos (Pid 1) (P_Pubrec (Pid 1)) sample_store)) (Pid 1)
     = Some (P_Pubrec (Pid 1))"
  using update_qos_correct [OF sample_store_props(1), of "P_Pubrec (Pid 1)" "Pid 1"]
  by (simp add: sample_store_props)

text \<open>
  The flows of the protocol, as the packets that the handler reports to \<open>update_qos\<close>: a
  message sent at QoS 1, one sent at QoS 2 and one received at QoS 2.
\<close>

inductive qos_flow :: "pid \<Rightarrow> Packet list \<Rightarrow> bool" for p where
  qos1_send: "pub_qospid m = QP_AtLeastOnce p \<Longrightarrow> qos_flow p [P_Publish m, P_Puback p]"
| qos2_send: "pub_qospid m = QP_ExactlyOnce p \<Longrightarrow>
    qos_flow p [P_Publish m, P_Pubrec p, P_Pubrel p, P_Pubcomp p]"
| qos2_receive: "qos_flow p [P_Pubrec p, P_Pubrel p, P_Pubcomp p]"

text \<open>The packet identifier for which a task retransmits, read off the message it sends.\<close>

fun msg_pid :: "BrokerMsg \<Rightarrow> pid option" where
  "msg_pid (QoSRetry _ k) = pkt_pid k"
| "msg_pid _ = None"

text \<open>
  \<open>st'\<close> is \<open>st\<close> in the middle of a flow under \<open>p\<close> whose last packet was \<open>k\<close>: beside the
  tasks of \<open>st\<close>, exactly one is live, and it retransmits \<open>k\<close> to the session's handler.
\<close>

definition one_task_more :: "store \<Rightarrow> Packet \<Rightarrow> nat \<Rightarrow> store \<Rightarrow> bool" where
  "one_task_more st k h st' \<longleftrightarrow>
     tp_live (snd st) h = None \<and>
     (\<exists>rt. tp_live (snd st') = (tp_live (snd st))(h \<mapsto> rt) \<and>
        rt_msg rt = QoSRetry (s_id (fst st)) k \<and> rt_tx rt = s_client_tx (fst st) \<and>
        rt_attempts rt = 0)"

definition flow_point :: "pid \<Rightarrow> store \<Rightarrow> Packet \<Rightarrow> store \<Rightarrow> bool" where
  "flow_point p st k st' \<longleftrightarrow>
     s_id (fst st') = s_id (fst st) \<and> s_client_tx (fst st') = s_client_tx (fst st) \<and>
     tp_next (snd st) \<le> tp_next (snd st') \<and> phase st' = (phase st)(p \<mapsto> k) \<and>
     (\<exists>h. s_qos_txns (fst st') p = Some \<lparr>tr_state = k, tr_retry_task = Some h\<rparr> \<and>
        one_task_more st k h st')"

lemma wf_store_fresh:
  assumes "wf_store st" "tp_next (snd st) \<le> h"
  shows "tp_live (snd st) h = None"
proof (rule ccontr)
  assume "tp_live (snd st) h \<noteq> None"
  then obtain q t where "s_qos_txns (fst st) q = Some t" "tr_retry_task t = Some h"
    using wf_storeD(3) [OF assms(1)] by fastforce
  with wf_storeD(1) [OF assms(1)] assms(2) show False by (fastforce simp: wf_tracker_def)
qed

lemma flow_start:
  assumes "wf_store st" "phase st p = None" "starts k" "pkt_pid k = Some p"
  shows "flow_point p st k (txn_update p k st)"
proof -
  obtain s pool where st: "st = (s, pool)" by fastforce
  obtain h pool' where sp: "spawn_retry_task (s_client_tx s) (s_id s) (s_config s) k pool = (h, pool')"
    by fastforce
  have none: "s_qos_txns s p = None" using assms(2) st by (simp add: phase_def)
  have "phase (txn_update p k st) = (phase st)(p \<mapsto> k)"
    using txns.ph_upd [OF assms(4), of st] assms(2,3) by simp
  then show ?thesis
    using update_qos_start [OF none assms(3) sp] sp wf_store_fresh [OF assms(1), of h]
    by (auto simp: st flow_point_def one_task_more_def txn_update_def spawn_retry_task_def Let_def)
qed

lemma flow_advance:
  assumes wf: "wf_store st" and point: "flow_point p st j st'"
    and k: "follows j k" "\<not> ends k" "pkt_pid k = Some p"
  shows "flow_point p st k (txn_update p k st')"
proof -
  obtain s pool where st': "st' = (s, pool)" by fastforce
  obtain h where t: "s_qos_txns s p = Some \<lparr>tr_state = j, tr_retry_task = Some h\<rparr>"
      and more: "one_task_more st j h (s, pool)"
    using point by (auto simp: flow_point_def st')
  obtain h' pool' where sp: "spawn_retry_task (s_client_tx s) (s_id s) (s_config s) k
      (abort_opt (Some h) pool) = (h', pool')" by fastforce
  have ph: "phase (txn_update p k st') = (phase st)(p \<mapsto> k)"
    using txns.ph_upd [OF k(3), of st'] point k(1,2) by (simp add: flow_point_def)
  have fresh: "tp_live (snd st) h' = None"
    using sp point by (intro wf_store_fresh [OF wf])
      (auto simp: spawn_retry_task_def Let_def flow_point_def st')
  have aborted: "tp_live (abort_opt (Some h) pool) = tp_live (snd st)"
    using more by (auto simp: one_task_more_def fun_eq_iff)
  have fixed: "s_id s = s_id (fst st)" "s_client_tx s = s_client_tx (fst st)"
      "tp_next (snd st) \<le> tp_next pool"
    using point by (auto simp: flow_point_def st')
  have "one_task_more st k h' (fst st', pool')"
    using sp fresh aborted fixed by (auto simp: one_task_more_def spawn_retry_task_def Let_def)
  moreover have "tp_next (snd st) \<le> tp_next pool'"
    using sp fixed(3) by (auto simp: spawn_retry_task_def Let_def)
  ultimately show ?thesis
    using update_qos_continue [OF t, of k pool h' pool'] sp fixed k(1,2) ph
    by (simp add: st' flow_point_def one_task_more_def txn_update_def)
qed

lemma flow_end:
  assumes point: "flow_point p st j st'" and k: "follows j k" "ends k" "pkt_pid k = Some p"
    and none: "phase st p = None"
  shows "phase (txn_update p k st') = phase st"
    and "tp_live (snd (txn_update p k st')) = tp_live (snd st)"
proof -
  obtain s pool where st': "st' = (s, pool)" by fastforce
  obtain h where t: "s_qos_txns s p = Some \<lparr>tr_state = j, tr_retry_task = Some h\<rparr>"
      and more: "one_task_more st j h (s, pool)"
    using point by (auto simp: flow_point_def st')
  show "phase (txn_update p k st') = phase st"
    using txns.ph_upd [OF k(3), of st'] point k(1,2) none
    by (simp add: flow_point_def fun_upd_idem)
  show "tp_live (snd (txn_update p k st')) = tp_live (snd st)"
    using update_qos_end [OF t, of k pool] k more
    by (auto simp: st' txn_update_def one_task_more_def fun_eq_iff)
qed

lemma no_task_without_transaction:
  assumes wf: "wf_store st" and none: "phase st p = None" and rt: "tp_live (snd st) h = Some rt"
  shows "msg_pid (rt_msg rt) \<noteq> Some p"
proof -
  obtain q t where t: "s_qos_txns (fst st) q = Some t" "tr_retry_task t = Some h"
    using wf_storeD(3) [OF wf rt] by blast
  with wf_storeD(1) [OF wf t(1)] rt have "msg_pid (rt_msg rt) = Some q"
    by (simp add: wf_tracker_def)
  moreover have "q \<noteq> p" using none t(1) by (auto simp: phase_def)
  ultimately show ?thesis by simp
qed

lemma flow_points:
  assumes "wf_store st" "phase st p = None" "qos_flow p ks" "0 < n" "n < length ks"
  shows "flow_point p st (ks ! (n - 1)) (fold (txn_update p) (take n ks) st)"
  using assms(3)
proof cases
  case (qos1_send m)
  with assms(4,5) have "n = 1" by simp
  with qos1_send show ?thesis using flow_start [OF assms(1,2), of "P_Publish m"] by simp
next
  case (qos2_send m)
  note one = flow_start [OF assms(1,2), of "P_Publish m"]
  note two = flow_advance [OF assms(1) one, of "P_Pubrec p"]
  note three = flow_advance [OF assms(1) two, of "P_Pubrel p"]
  from qos2_send assms(4,5) consider "n = 1" | "n = 2" | "n = 3" by fastforce
  then show ?thesis
    using one two three qos2_send by cases (simp_all add: numeral_2_eq_2 numeral_3_eq_3)
next
  case qos2_receive
  note one = flow_start [OF assms(1,2), of "P_Pubrec p"]
  note two = flow_advance [OF assms(1) one, of "P_Pubrel p"]
  from qos2_receive assms(4,5) consider "n = 1" | "n = 2" by fastforce
  then show ?thesis
    using one two qos2_receive by cases (simp_all add: numeral_2_eq_2)
qed

lemma flow_last:
  assumes "qos_flow p ks"
  shows "\<exists>ls j k. ks = ls @ [j, k] \<and> follows j k \<and> ends k \<and> pkt_pid k = Some p"
  using assms
proof cases
  case (qos1_send m)
  then show ?thesis by (intro exI [of _ "[]"]) auto
next
  case (qos2_send m)
  then show ?thesis by (intro exI [of _ "[P_Publish m, P_Pubrec p]"]) auto
next
  case qos2_receive
  then show ?thesis by (intro exI [of _ "[P_Pubrec p]"]) auto
qed

lemma flow_wf:
  assumes "wf_store st" "\<And>k. k \<in> set ks \<Longrightarrow> pkt_pid k = Some p"
  shows "wf_store (fold (txn_update p) ks st)"
  using assms by (induction ks arbitrary: st) (simp_all add: txns.invar_upd)

lemma flow_ends:
  assumes wf: "wf_store st" and none: "phase st p = None" and flow: "qos_flow p ks"
  shows "phase (fold (txn_update p) ks st) = phase st"
    and "tp_live (snd (fold (txn_update p) ks st)) = tp_live (snd st)"
    and "wf_store (fold (txn_update p) ks st)"
proof -
  obtain ls j k where ks: "ks = ls @ [j, k]" "follows j k" "ends k" "pkt_pid k = Some p"
    using flow_last [OF flow] by blast
  have "flow_point p st j (fold (txn_update p) (ls @ [j]) st)"
    using flow_points [OF wf none flow, of "length ls + 1"] ks(1) by (simp add: nth_append)
  then show "phase (fold (txn_update p) ks st) = phase st"
      and "tp_live (snd (fold (txn_update p) ks st)) = tp_live (snd st)"
    using flow_end [OF _ ks(2-4) none] ks(1) by simp_all
  show "wf_store (fold (txn_update p) ks st)"
    using flow by (intro flow_wf [OF wf]) (auto elim!: qos_flow.cases)
qed

text \<open>C21: each of the three QoS flows, \<open>Publish\<close>, \<open>Puback\<close> (QoS 1, sending); \<open>Publish\<close>, \<open>Pubrec\<close>,
  \<open>Pubrel\<close>, \<open>Pubcomp\<close> (QoS 2, sending); \<open>Pubrec\<close>, \<open>Pubrel\<close>, \<open>Pubcomp\<close> (QoS 2, receiving), runs to
  completion from a well-formed session with no transaction under the packet identifier.
  After every packet but the last the transaction is at that packet, and the pool of tasks
  holds what it held before the flow and one task more, which retransmits that packet to the
  session's handler. After the last packet every transaction is as it was, so is the whole
  pool of live tasks, and no task of it retransmits for the identifier: none is leaked.\<close>

theorem qos_flows_complete:
  assumes "wf_store st" "phase st p = None" "qos_flow p ks"
  shows "(\<forall>n. 0 < n \<and> n < length ks \<longrightarrow>
      (let st' = fold (txn_update p) (take n ks) st in
       phase st' = (phase st)(p \<mapsto> ks ! (n - 1)) \<and>
       (\<exists>h rt. tp_live (snd st) h = None \<and> tp_live (snd st') = (tp_live (snd st))(h \<mapsto> rt) \<and>
          rt_msg rt = QoSRetry (s_id (fst st)) (ks ! (n - 1)) \<and>
          rt_tx rt = s_client_tx (fst st) \<and> rt_attempts rt = 0))) \<and>
    (let st' = fold (txn_update p) ks st in
     phase st' = phase st \<and> tp_live (snd st') = tp_live (snd st) \<and>
     (\<forall>h rt. tp_live (snd st') h = Some rt \<longrightarrow> msg_pid (rt_msg rt) \<noteq> Some p))"
proof -
  have "phase (fold (txn_update p) (take n ks) st) = (phase st)(p \<mapsto> ks ! (n - 1)) \<and>
      (\<exists>h. one_task_more st (ks ! (n - 1)) h (fold (txn_update p) (take n ks) st))"
    if "0 < n" "n < length ks" for n
    using flow_points [OF assms that] by (auto simp: flow_point_def)
  moreover note flow_ends [OF assms] no_task_without_transaction [OF assms(1,2)]
  ultimately show ?thesis unfolding Let_def one_task_more_def by metis
qed

theorem qos_flows_complete_witness:
  "let st = fold (txn_update (Pid 7)) [P_Pubrec (Pid 7), P_Pubrel (Pid 7), P_Pubcomp (Pid 7)] sample_store
   in phase st = phase sample_store \<and> tp_live (snd st) = Map.empty"
  using qos_flows_complete [OF sample_store_props(1,2) qos2_receive, of "Pid 7"]
  by (simp add: Let_def) (simp add: sample_store_def empty_pool_def)

text \<open>A packet that does not follow the last packet of its transaction leaves the transaction in
  place but cancels its retransmission: no task resends the pending packet any more, and
  other transactions keep theirs.\<close>

theorem stray_packet_cancels_retry:
  assumes "wf_store st" "pkt_pid k = Some p" "phase st p = Some pending" "\<not> follows pending k"
  shows "phase (snd (update_qos p k st)) = phase st \<and> armed (snd (update_qos p k st)) p = None \<and>
    (\<forall>q. q \<noteq> p \<longrightarrow> armed (snd (update_qos p k st)) q = armed st q)"
  using txns.stray [OF assms(3,4,2)] txns.armd_other [OF assms(1,2)]
  by (simp add: txn_update_def)

theorem stray_packet_cancels_retry_witness:
  "let st = snd (update_qos (Pid 1) (P_Pubrec (Pid 1)) sample_store)
   in armed st (Pid 1) = Some (QoSRetry ''c'' (P_Pubrec (Pid 1))) \<and>
      armed (snd (update_qos (Pid 1) (P_Puback (Pid 1)) st)) (Pid 1) = None"
proof -
  let ?st = "txn_update (Pid 1) (P_Pubrec (Pid 1)) sample_store"
  have "wf_store ?st" "phase ?st (Pid 1) = Some (P_Pubrec (Pid 1))"
      "armed ?st (Pid 1) = Some (QoSRetry ''c'' (P_Pubrec (Pid 1)))"
    using txns.invar_upd [OF sample_store_props(1)] txns.qos2_receiver_completes(1,2)
      [OF sample_store_props(2)] by (simp_all add: sample_store_props)
  then show ?thesis
    using stray_packet_cancels_retry [of ?st "P_Puback (Pid 1)" "Pid 1" "P_Pubrec (Pid 1)"]
    by (simp add: Let_def txn_update_def)
qed

text \<open>Retransmission is confined to open transactions: whatever a retry task of a well-formed
  session sends is the packet a transaction of that session is waiting on, sent to the
  session's own handler; firing a timer keeps the session well-formed; and dropping the
  session aborts every task.\<close>

theorem retries_belong_to_open_transactions:
  assumes "wf_store (s, pool)"
  shows "(\<forall>h tx m pool'. pool_tick h pool = (Some (tx, m), pool') \<longrightarrow>
      (\<exists>p k. phase (s, pool) p = Some k \<and> m = QoSRetry (s_id s) k \<and> tx = s_client_tx s)) \<and>
    (\<forall>h. wf_store (s, snd (pool_tick h pool))) \<and>
    tp_live (session_drop s pool) = Map.empty"
proof (intro conjI allI impI)
  show "\<exists>p k. phase (s, pool) p = Some k \<and> m = QoSRetry (s_id s) k \<and> tx = s_client_tx s"
    if "pool_tick h pool = (Some (tx, m), pool')" for h tx m pool'
    using pool_tick_sends [OF assms that] .
  show "wf_store (s, snd (pool_tick h pool))" for h
    using assms by (rule wf_pool_tick)
  show "tp_live (session_drop s pool) = Map.empty"
  proof
    fix h
    have "tp_live pool h = None \<or> (\<exists>p t. s_qos_txns s p = Some t \<and> tr_retry_task t = Some h)"
      using wf_storeD(3) [OF assms, of h] by (cases "tp_live pool h") auto
    then show "tp_live (session_drop s pool) h = None"
      by (auto simp: session_drop_def restrict_map_def)
  qed
qed

theorem retries_belong_to_open_transactions_witness:
  "let (s, pool) = snd (update_qos (Pid 1) (P_Pubrec (Pid 1)) sample_store)
   in fst (pool_tick 0 pool) = Some (0, QoSRetry ''c'' (P_Pubrec (Pid 1))) \<and>
      tp_live (session_drop s pool) = Map.empty"
proof -
  obtain s pool where st: "txn_update (Pid 1) (P_Pubrec (Pid 1)) sample_store = (s, pool)"
    by fastforce
  then have "wf_store (s, pool)"
    using txns.invar_upd [OF sample_store_props(1), of "P_Pubrec (Pid 1)" "Pid 1"] by simp
  moreover have "fst (pool_tick 0 pool) = Some (0, QoSRetry ''c'' (P_Pubrec (Pid 1)))"
    using st by (auto simp: txn_update_def sample_store_def update_qos_def session_new_def
        empty_pool_def tracker_new_def Let_def spawn_retry_task_def pool_tick_def retry_step_def
        config_new_def)
  ultimately show ?thesis
    using st retries_belong_to_open_transactions [of s pool] by (simp add: txn_update_def)
qed

end
