(* ===== verification/Client_Handler.thy ===== *)
theory Client_Handler
  imports Mqtt_Codec Client_Session
begin

section \<open>Client handlers (\<open>mqttrs-1/src/broker/client_handler.rs\<close>)\<close>

text \<open>
  One client handler task serves one TCP connection. Its state is the record
  \<open>ClientHandler\<close>; what it has written to the TCP stream and sent to the broker is kept as
  lists, so that an operation's effects are visible in the state it leaves. What the
  handler does not control comes from a \<open>world\<close>: the \<open>mqttrs\<close> crate, whether the next TCP
  write and the next send to the broker succeed, and whether \<open>info!\<close> messages are
  formatted. An \<open>.await\<close> does not appear: a handler runs one event to completion, as the
  loop of \<open>listen_for_messages\<close> does.
\<close>

datatype ClientState = Initialized | Connected Session

record ClientHandler =
  h_config :: Config
  h_framed :: framed
  h_addr :: string
  h_state :: ClientState
  h_disconnect_pkt_seen :: bool
  h_broker_tx :: "BrokerMsg list"
  h_client_tx :: sender
  h_tasks :: task_pool
  h_connect_timeout :: bool

text \<open>
  \<open>h_tasks\<close> holds the retry tasks that the session's trackers spawn, and
  \<open>h_connect_timeout\<close> says that the task started by \<open>execute_after_delay\<close> is still sleeping.
\<close>

record world =
  w_mqttrs :: mqttrs_api
  w_tcp_ok :: "nat \<Rightarrow> bool"
  w_broker_ok :: "nat \<Rightarrow> bool"
  w_info :: bool

text \<open>An operation of the handler returns an error of the program, or never returns because its
  calls nest until the stack overflows, which aborts the process.\<close>

datatype failure = Err error | StackOverflow

type_synonym 'a hop = "(ClientHandler, failure, 'a) op"

subsection \<open>Printing a handler\<close>

text \<open>
  \<open>Display for ClientHandler\<close> asks \<open>get_session()\<close> for the client identifier. In state
  \<open>Initialized\<close>, \<open>get_session()\<close> builds its error with \<open>format!("..'{}'", self)\<close>, which
  prints the handler, which asks \<open>get_session()\<close> again. The result \<open>None\<close> means that
  printing does not return.
\<close>

partial_function (option) handler_fmt :: "ClientHandler \<Rightarrow> string option" where
  "handler_fmt h =
     (case h_state h of
        Connected session \<Rightarrow> Some (s_id session @ ''@'' @ h_addr h)
      | Initialized \<Rightarrow> Option.bind (handler_fmt h) (\<lambda>_. Some (h_addr h)))"

definition print_self :: "unit hop" where
  "print_self = (\<lambda>h. case handler_fmt h of None \<Rightarrow> (Inl StackOverflow, h) | Some _ \<Rightarrow> (Inr (), h))"

definition get_session :: "Session hop" where
  "get_session = (\<lambda>h. case h_state h of
     Connected state \<Rightarrow> (Inr state, h)
   | Initialized \<Rightarrow> andthen print_self (fail (Err ClientHandlerInvalidState)) h)"

text \<open>\<open>self.get_session_mut()?.update_qos(pid, packet)\<close>.\<close>

definition session_update_qos :: "pid \<Rightarrow> Packet \<Rightarrow> unit hop" where
  "session_update_qos p packet = (\<lambda>h. case h_state h of
     Connected state \<Rightarrow>
       (case update_qos p packet (state, h_tasks h) of
          (r, (state', tasks')) \<Rightarrow>
            (map_sum Err id r, h\<lparr>h_state := Connected state', h_tasks := tasks'\<rparr>))
   | Initialized \<Rightarrow> andthen print_self (fail (Err ClientHandlerInvalidState)) h)"

subsection \<open>Sending\<close>

definition send_broker :: "world \<Rightarrow> BrokerMsg \<Rightarrow> unit hop" where
  "send_broker W msg = (\<lambda>h.
     if w_broker_ok W (length (h_broker_tx h)) then (Inr (), h\<lparr>h_broker_tx := h_broker_tx h @ [msg]\<rparr>)
     else (Inl (Err BrokerMsgSendFailure), h))"

definition send_client :: "world \<Rightarrow> Packet \<Rightarrow> unit hop" where
  "send_client W pkt = (\<lambda>h. case mqtt_send (w_mqttrs W) (w_tcp_ok W) pkt (h_framed h) of
     (r, framed') \<Rightarrow> (map_sum Err id r, h\<lparr>h_framed := framed'\<rparr>))"

subsection \<open>The connection state machine\<close>

definition update_state :: "world \<Rightarrow> Packet \<Rightarrow> unit hop" where
  "update_state W pkt = (\<lambda>h. case h_state h of
     Initialized \<Rightarrow>
       (case pkt of
          P_Connect connect \<Rightarrow>
            (let info = session_new (con_client_id connect) (h_config h) (con_last_will connect)
                          (h_client_tx h)
             in andthen (send_broker W (ClientConnected (s_id info) (h_client_tx h)))
                  (modify (\<lambda>h. h\<lparr>h_connect_timeout := False, h_state := Connected info\<rparr>)) h)
        | _ \<Rightarrow> fail (Err MQTTProtocolViolation) h)
   | Connected _ \<Rightarrow>
       (case pkt of P_Connect _ \<Rightarrow> fail (Err MQTTProtocolViolation) h | _ \<Rightarrow> ok () h))"

definition will_message :: "mqttrs_api \<Rightarrow> LastWill \<Rightarrow> Publish" where
  "will_message X lw =
     \<lparr>pub_dup = False,
      pub_qospid = (case lw_qos lw of
         AtMostOnce \<Rightarrow> QP_AtMostOnce
       | AtLeastOnce \<Rightarrow> QP_AtLeastOnce (pid_new X)
       | ExactlyOnce \<Rightarrow> QP_ExactlyOnce (pid_new X)),
      pub_retain = lw_retain lw,
      pub_topic_name = lw_topic lw,
      pub_payload = lw_message lw\<rparr>"

definition on_client_disconnect :: "world \<Rightarrow> unit hop" where
  "on_client_disconnect W = (\<lambda>h. case h_state h of
     Connected state \<Rightarrow>
       andthen
         (if \<not> h_disconnect_pkt_seen h then
            (case s_last_will state of
               Some lw \<Rightarrow> send_broker W (BM_Publish (s_id state) (will_message (w_mqttrs W) lw))
             | None \<Rightarrow> ok ())
          else ok ())
         (send_broker W (ClientDisconnected (s_id state))) h
   | Initialized \<Rightarrow> ok () h)"

subsection \<open>Packets from the client\<close>

definition handle_connect :: "world \<Rightarrow> Connect \<Rightarrow> unit hop" where
  "handle_connect W connect =
     (let code = (if con_protocol connect \<noteq> MQTT311 then RefusedProtocolVersion else Accepted)
      in send_client W (P_Connack \<lparr>ca_session_present = False, ca_code = code\<rparr>))"

text \<open>Five handlers refuse a packet with an error whose text prints the handler.\<close>

definition violation_by_self :: "unit hop" where
  "violation_by_self = andthen print_self (fail (Err MQTTProtocolViolation))"

definition handle_connack :: "Connack \<Rightarrow> unit hop" where
  "handle_connack connack = violation_by_self"

definition handle_publish :: "world \<Rightarrow> Publish \<Rightarrow> unit hop" where
  "handle_publish W publish =
     bnd get_session (\<lambda>session.
       andthen
         (case pub_qospid publish of
            QP_AtMostOnce \<Rightarrow> ok ()
          | QP_AtLeastOnce p \<Rightarrow> send_client W (P_Puback p)
          | QP_ExactlyOnce p \<Rightarrow>
              andthen (session_update_qos p (P_Pubrec p)) (send_client W (P_Pubrec p)))
         (send_broker W (BM_Publish (s_id session) publish)))"

definition handle_puback :: "pid \<Rightarrow> unit hop" where
  "handle_puback p = session_update_qos p (P_Puback p)"

definition handle_pubrec :: "world \<Rightarrow> pid \<Rightarrow> unit hop" where
  "handle_pubrec W p =
     andthen (session_update_qos p (P_Pubrec p))
       (andthen (send_client W (P_Pubrel p)) (session_update_qos p (P_Pubrel p)))"

definition handle_pubrel :: "world \<Rightarrow> pid \<Rightarrow> unit hop" where
  "handle_pubrel W p =
     andthen (session_update_qos p (P_Pubrel p))
       (andthen (send_client W (P_Pubcomp p)) (session_update_qos p (P_Pubcomp p)))"

definition handle_pubcomp :: "pid \<Rightarrow> unit hop" where
  "handle_pubcomp p = session_update_qos p (P_Pubcomp p)"

definition handle_subscribe :: "world \<Rightarrow> Subscribe \<Rightarrow> unit hop" where
  "handle_subscribe W subscribe =
     (if length (sub_topics subscribe) = 0 then violation_by_self
      else
        (let suback = P_Suback \<lparr>sa_pid = sub_pid subscribe,
               sa_return_codes = map (\<lambda>_. Success AtMostOnce) (sub_topics subscribe)\<rparr>
         in andthen (send_client W suback)
              (bnd get_session (\<lambda>session.
                 send_broker W (BM_Subscribe (s_id session) subscribe)))))"

definition handle_suback :: "Suback \<Rightarrow> unit hop" where
  "handle_suback suback = violation_by_self"

definition handle_unsubscribe :: "world \<Rightarrow> Unsubscribe \<Rightarrow> unit hop" where
  "handle_unsubscribe W unsubscribe =
     (if length (unsub_topics unsubscribe) = 0 then fail (Err MQTTProtocolViolation)
      else
        bnd get_session (\<lambda>session.
          andthen (send_broker W (BM_Unsubscribe (s_id session) unsubscribe))
            (send_client W (P_Unsuback (unsub_pid unsubscribe)))))"

definition handle_unsuback :: "pid \<Rightarrow> unit hop" where
  "handle_unsuback p = violation_by_self"

definition handle_pingreq :: "world \<Rightarrow> unit hop" where
  "handle_pingreq W = send_client W P_Pingresp"

definition handle_pingresp :: "unit hop" where
  "handle_pingresp = violation_by_self"

definition handle_disconnect :: "unit hop" where
  "handle_disconnect = modify (\<lambda>h. h\<lparr>h_disconnect_pkt_seen := True\<rparr>)"

fun handle_packet :: "world \<Rightarrow> Packet \<Rightarrow> unit hop" where
  "handle_packet W (P_Connect connect) = handle_connect W connect"
| "handle_packet W (P_Connack connack) = handle_connack connack"
| "handle_packet W (P_Publish publish) = handle_publish W publish"
| "handle_packet W (P_Puback p) = handle_puback p"
| "handle_packet W (P_Pubrec p) = handle_pubrec W p"
| "handle_packet W (P_Pubrel p) = handle_pubrel W p"
| "handle_packet W (P_Pubcomp p) = handle_pubcomp p"
| "handle_packet W (P_Subscribe subscribe) = handle_subscribe W subscribe"
| "handle_packet W (P_Suback suback) = handle_suback suback"
| "handle_packet W (P_Unsubscribe unsubscribe) = handle_unsubscribe W unsubscribe"
| "handle_packet W (P_Unsuback p) = handle_unsuback p"
| "handle_packet W P_Pingreq = handle_pingreq W"
| "handle_packet W P_Pingresp = handle_pingresp"
| "handle_packet W P_Disconnect = handle_disconnect"

subsection \<open>Messages from the broker and from timers\<close>

fun handle_broker_publish :: "world \<Rightarrow> BrokerMsg \<Rightarrow> unit hop" where
  "handle_broker_publish W (BM_Publish _ packet) =
     andthen (send_client W (P_Publish packet))
       (case pub_qospid packet of
          QP_AtMostOnce \<Rightarrow> ok ()
        | QP_AtLeastOnce p \<Rightarrow> session_update_qos p (P_Publish packet)
        | QP_ExactlyOnce p \<Rightarrow> session_update_qos p (P_Publish packet))"
| "handle_broker_publish W _ = fail (Err InvalidPacket)"

definition handle_connection_timeout :: "unit hop" where
  "handle_connection_timeout = (\<lambda>h. case h_state h of
     Connected _ \<Rightarrow> ok () h
   | Initialized \<Rightarrow> fail (Err MQTTProtocolViolation) h)"

definition handle_broker_qos_retry :: "world \<Rightarrow> Packet \<Rightarrow> unit hop" where
  "handle_broker_qos_retry W packet = send_client W packet"

definition decode_broker_msg :: "world \<Rightarrow> BrokerMsg \<Rightarrow> unit hop" where
  "decode_broker_msg W msg =
     (case msg of
        BM_Publish _ _ \<Rightarrow> handle_broker_publish W msg
      | ClientConnectionTimeout \<Rightarrow> handle_connection_timeout
      | QoSRetry _ packet \<Rightarrow> handle_broker_qos_retry W packet
      | _ \<Rightarrow> ok ())"

subsection \<open>The loop of the task\<close>

text \<open>What \<open>tokio::select!\<close> can deliver: from \<open>framed.next()\<close> a frame of bytes, the end of the
  stream or an error; from \<open>broker_rx.recv()\<close> a message, or the end of the channel.\<close>

datatype event =
  Frame bytes | StreamClosed | StreamError | FromBroker BrokerMsg | ChannelClosed

text \<open>One turn of the loop. The result \<open>True\<close> is another turn, \<open>False\<close> is \<open>break Ok(())\<close>.\<close>

fun listen_turn :: "world \<Rightarrow> event \<Rightarrow> bool hop" where
  "listen_turn W (Frame bytes) =
     (case decode (w_mqttrs W) bytes of
        Inl e \<Rightarrow> fail (Err e)
      | Inr (Some pkt) \<Rightarrow> andthen (update_state W pkt) (andthen (handle_packet W pkt) (ok True))
      | Inr None \<Rightarrow> ok True)"
| "listen_turn W StreamClosed =
     andthen (if w_info W then print_self else ok ())
       (andthen (on_client_disconnect W) (ok False))"
| "listen_turn W StreamError = fail (Err PacketReceiveFailed)"
| "listen_turn W (FromBroker msg) = andthen (decode_broker_msg W msg) (ok True)"
| "listen_turn W ChannelClosed = ok False"

text \<open>The loop on the events that arrive; the result \<open>True\<close> means that it waits for more.\<close>

fun listen_for_messages :: "world \<Rightarrow> event list \<Rightarrow> bool hop" where
  "listen_for_messages W [] = ok True"
| "listen_for_messages W (e # es) =
     bnd (listen_turn W e) (\<lambda>again. if again then listen_for_messages W es else ok False)"

definition handler_new :: "Config \<Rightarrow> string \<Rightarrow> sender \<Rightarrow> ClientHandler" where
  "handler_new config addr client_tx =
     \<lparr>h_config = config, h_framed = [], h_addr = addr, h_state = Initialized,
      h_disconnect_pkt_seen = False, h_broker_tx = [], h_client_tx = client_tx,
      h_tasks = empty_pool, h_connect_timeout = True\<rparr>"

text \<open>\<open>ClientHandler::run\<close> once the peer's address is known: an error of the loop is returned after
  \<open>on_client_disconnect\<close> has run.\<close>

definition handler_run :: "world \<Rightarrow> event list \<Rightarrow> bool hop" where
  "handler_run W es = (\<lambda>h. case listen_for_messages W es h of
     (Inl (Err err), h') \<Rightarrow> andthen (on_client_disconnect W) (fail (Err err)) h'
   | (Inl StackOverflow, h') \<Rightarrow> (Inl StackOverflow, h')
   | (Inr again, h') \<Rightarrow> (Inr again, h'))"

subsection \<open>Printing, sending and updating in a connected handler\<close>

lemma handler_fmt_returns:
  assumes "handler_fmt h = Some out"
  shows "h_state h \<noteq> Initialized"
proof (rule handler_fmt.raw_induct [where P = "\<lambda>h out. h_state h \<noteq> Initialized", OF _ assms])
  fix f :: "ClientHandler \<Rightarrow> string option" and h :: ClientHandler and out
  assume IH: "\<And>h out. f h = Some out \<Longrightarrow> h_state h \<noteq> Initialized"
    and eq: "(case h_state h of Initialized \<Rightarrow> Option.bind (f h) (\<lambda>_. Some (h_addr h))
       | Connected session \<Rightarrow> Some (s_id session @ ''@'' @ h_addr h)) = Some out"
  show "h_state h \<noteq> Initialized"
    using eq by (cases "f h") (auto dest: IH split: ClientState.splits)
qed

lemma handler_fmt_Initialized [simp]: "h_state h = Initialized \<Longrightarrow> handler_fmt h = None"
  using handler_fmt_returns by (metis option.exhaust)

lemma handler_fmt_Connected [simp]:
  "h_state h = Connected s \<Longrightarrow> handler_fmt h = Some (s_id s @ ''@'' @ h_addr h)"
  by (simp add: handler_fmt.simps)

lemma print_self_simps [simp]:
  "h_state h = Initialized \<Longrightarrow> print_self h = (Inl StackOverflow, h)"
  "h_state h = Connected s \<Longrightarrow> print_self h = (Inr (), h)"
  by (simp_all add: print_self_def)

lemma get_session_simps [simp]:
  "h_state h = Initialized \<Longrightarrow> get_session h = (Inl StackOverflow, h)"
  "h_state h = Connected s \<Longrightarrow> get_session h = (Inr s, h)"
  by (simp_all add: get_session_def)

lemma violation_by_self_simps [simp]:
  "h_state h = Connected s \<Longrightarrow> violation_by_self h = (Inl (Err MQTTProtocolViolation), h)"
  by (simp add: violation_by_self_def)

lemma session_update_qos_Connected:
  assumes "h_state h = Connected s" "pkt_pid k = Some p"
  shows "session_update_qos p k h = (Inr (),
    h\<lparr>h_state := Connected (fst (txn_update p k (s, h_tasks h))),
      h_tasks := snd (txn_update p k (s, h_tasks h))\<rparr>)"
  using assms update_qos_Inr [OF assms(2), of "(s, h_tasks h)"]
  by (auto simp: session_update_qos_def txn_update_def split: prod.splits)

text \<open>A packet whose encoding and writing succeed.\<close>

lemma send_client_ok:
  assumes "encode (w_mqttrs W) pkt = Inr buf" "w_tcp_ok W (length (h_framed h))"
  shows "send_client W pkt h = (Inr (), h\<lparr>h_framed := h_framed h @ [buf]\<rparr>)"
  using assms by (simp add: send_client_def mqtt_send_def)

lemma send_broker_ok:
  "w_broker_ok W (length (h_broker_tx h)) \<Longrightarrow>
    send_broker W msg h = (Inr (), h\<lparr>h_broker_tx := h_broker_tx h @ [msg]\<rparr>)"
  by (simp add: send_broker_def)

subsection \<open>The invariant of a handler\<close>

text \<open>
  The messages a handler sends to the broker form a conversation: \<open>ClientConnected\<close> first,
  then requests of the same client only.
\<close>

fun request_of :: "string \<Rightarrow> BrokerMsg \<Rightarrow> bool" where
  "request_of cid (BM_Publish c _) = (c = cid)"
| "request_of cid (BM_Subscribe c _) = (c = cid)"
| "request_of cid (BM_Unsubscribe c _) = (c = cid)"
| "request_of cid _ = False"

definition conversation :: "string \<Rightarrow> sender \<Rightarrow> BrokerMsg list \<Rightarrow> bool" where
  "conversation cid tx ms \<longleftrightarrow>
     ms \<noteq> [] \<and> hd ms = ClientConnected cid tx \<and> list_all (request_of cid) (tl ms)"

lemma conversation_snoc [simp]:
  "conversation cid tx ms \<Longrightarrow> request_of cid m \<Longrightarrow> conversation cid tx (ms @ [m])"
  by (auto simp: conversation_def)

text \<open>A connected handler: its session is well-formed and agrees with the handler.\<close>

definition conn :: "string \<Rightarrow> sender \<Rightarrow> ClientHandler \<Rightarrow> bool" where
  "conn cid tx h \<longleftrightarrow> (\<exists>s. h_state h = Connected s \<and> s_id s = cid \<and> wf_store (s, h_tasks h) \<and>
     s_client_tx s = tx \<and> h_client_tx h = tx \<and> s_config s = h_config h \<and>
     \<not> h_connect_timeout h \<and> conversation cid tx (h_broker_tx h))"

definition idle :: "sender \<Rightarrow> ClientHandler \<Rightarrow> bool" where
  "idle tx h \<longleftrightarrow> h_state h = Initialized \<and> h_tasks h = empty_pool \<and> h_broker_tx h = [] \<and>
     h_client_tx h = tx \<and> \<not> h_disconnect_pkt_seen h"

definition wf_handler :: "sender \<Rightarrow> ClientHandler \<Rightarrow> bool" where
  "wf_handler tx h \<longleftrightarrow> idle tx h \<or> (\<exists>cid. conn cid tx h)"

text \<open>The errors a handler task can end with.\<close>

fun handler_error :: "failure \<Rightarrow> bool" where
  "handler_error (Err e) \<longleftrightarrow>
     e \<in> {BrokerMsgSendFailure, EncodeFailed, InvalidPacket, MQTTProtocolViolation,
           PacketReceiveFailed, PacketSendFailed}"
| "handler_error StackOverflow \<longleftrightarrow> False"

lemma keeps_get_session:
  assumes "\<And>s. s_id s = cid \<Longrightarrow> keeps (conn cid tx) E (f s)"
  shows "keeps (conn cid tx) E (bnd get_session f)"
proof (rule keepsI)
  fix h r t
  assume h: "conn cid tx h" and run: "bnd get_session f h = (r, t)"
  then obtain s where "h_state h = Connected s" "s_id s = cid" by (auto simp: conn_def)
  with run have "f s h = (r, t)" by simp
  then show "conn cid tx t \<and> (\<forall>e. r = Inl e \<longrightarrow> E e)"
    using assms [OF \<open>s_id s = cid\<close>] h by (auto dest: keeps_run keeps_error)
qed

lemma keeps_violation: "keeps (conn cid tx) handler_error violation_by_self"
  by (rule keepsI) (auto simp: conn_def)

lemma keeps_session_update_qos:
  assumes "pkt_pid k = Some p"
  shows "keeps (conn cid tx) handler_error (session_update_qos p k)"
proof (rule keepsI)
  fix h r t
  assume "conn cid tx h" and run: "session_update_qos p k h = (r, t)"
  then obtain s where s: "h_state h = Connected s" and c: "s_id s = cid" "wf_store (s, h_tasks h)"
      "s_client_tx s = tx" "h_client_tx h = tx" "s_config s = h_config h" "\<not> h_connect_timeout h"
      "conversation cid tx (h_broker_tx h)"
    by (auto simp: conn_def)
  define s' pool' where "s' = fst (txn_update p k (s, h_tasks h))"
    and "pool' = snd (txn_update p k (s, h_tasks h))"
  have "r = Inr ()" "t = h\<lparr>h_state := Connected s', h_tasks := pool'\<rparr>"
    using run session_update_qos_Connected [OF s assms] by (auto simp: s'_def pool'_def)
  moreover have "wf_store (s', pool')"
    using txns.invar_upd [OF c(2) assms] by (simp add: s'_def pool'_def)
  moreover have "s_id s' = cid" "s_client_tx s' = tx" "s_config s' = h_config h"
    using update_qos_fixed [OF assms, of "(s, h_tasks h)"] c by (auto simp: s'_def txn_update_def)
  ultimately show "conn cid tx t \<and> (\<forall>e. r = Inl e \<longrightarrow> handler_error e)"
    using c by (auto simp: conn_def)
qed

lemma keeps_send_client: "keeps (conn cid tx) handler_error (send_client W k)"
  by (rule keepsI)
    (auto simp: send_client_def mqtt_send_def conn_def dest: encode_error split: sum.splits if_splits)

lemma keeps_send_client_idle: "keeps (idle tx) handler_error (send_client W k)"
  by (rule keepsI)
    (auto simp: send_client_def mqtt_send_def idle_def dest: encode_error split: sum.splits if_splits)

lemma keeps_send_broker: "request_of cid m \<Longrightarrow> keeps (conn cid tx) handler_error (send_broker W m)"
  by (rule keepsI) (auto simp: send_broker_def conn_def split: if_splits)

lemmas keeps_conn = keeps keeps_get_session keeps_violation keeps_session_update_qos
  keeps_send_client keeps_send_broker

lemmas packet_handler_defs = handle_connect_def handle_connack_def handle_publish_def
  handle_puback_def handle_pubrec_def handle_pubrel_def handle_pubcomp_def handle_subscribe_def
  handle_suback_def handle_unsubscribe_def handle_unsuback_def handle_pingreq_def
  handle_pingresp_def

lemma keeps_handle_disconnect: "keeps (conn cid tx) E handle_disconnect"
  unfolding handle_disconnect_def by (rule keeps_modify) (auto simp: conn_def)

lemma keeps_handle_packet: "keeps (conn cid tx) handler_error (handle_packet W pkt)"
  by (cases pkt)
    (auto simp: packet_handler_defs keeps_handle_disconnect Let_def split: QosPid.splits
      intro!: keeps_conn)

lemma keeps_decode_broker_msg: "keeps (conn cid tx) handler_error (decode_broker_msg W msg)"
proof (cases msg)
  case ClientConnectionTimeout
  then show ?thesis
    by (auto simp: decode_broker_msg_def handle_connection_timeout_def conn_def intro!: keepsI)
next
  case (BM_Publish c m)
  then show ?thesis
    by (auto simp: decode_broker_msg_def split: QosPid.splits intro!: keeps_conn)
qed (auto simp: decode_broker_msg_def handle_broker_qos_retry_def intro!: keeps_conn)

subsection \<open>Turns of the loop\<close>

lemma keeps_update_state_conn: "keeps (conn cid tx) handler_error (update_state W pkt)"
  by (rule keepsI) (auto simp: update_state_def conn_def split: Packet.splits)

lemma turn_conn: "e \<noteq> StreamClosed \<Longrightarrow> keeps (conn cid tx) handler_error (listen_turn W e)"
  by (cases e)
    (auto split: sum.splits option.splits dest: decode_error
      intro!: keeps keeps_update_state_conn keeps_handle_packet keeps_decode_broker_msg)

lemma update_state_connect:
  assumes "idle tx h" "w_broker_ok W 0"
  shows "update_state W (P_Connect c) h = (Inr (),
    h\<lparr>h_broker_tx := [ClientConnected (con_client_id c) tx], h_connect_timeout := False,
      h_state := Connected (session_new (con_client_id c) (h_config h) (con_last_will c) tx)\<rparr>)"
  using assms
  by (simp add: update_state_def idle_def Let_def send_broker_def) (simp add: session_new_def)

lemma update_state_connect_conn:
  assumes "idle tx h" "update_state W (P_Connect c) h = (Inr x, t)"
  shows "conn (con_client_id c) tx t"
proof -
  have "w_broker_ok W 0"
    using assms by (auto simp: update_state_def idle_def Let_def andthen_def bnd_def send_broker_def
        split: if_splits)
  from update_state_connect [OF assms(1) this] assms(2) have
    "t = h\<lparr>h_broker_tx := [ClientConnected (con_client_id c) tx], h_connect_timeout := False,
      h_state := Connected (session_new (con_client_id c) (h_config h) (con_last_will c) tx)\<rparr>"
    by simp
  then show ?thesis
    using assms(1) wf_session_new [of "con_client_id c" "h_config h" "con_last_will c" tx]
    by (simp add: conn_def idle_def conversation_def) (simp add: session_new_def)
qed

lemma update_state_error:
  assumes "idle tx h" "update_state W pkt h = (Inl f, t)"
  shows "t = h \<and> handler_error f"
  using assms
  by (cases pkt) (auto simp: update_state_def idle_def Let_def andthen_def bnd_def send_broker_def
      split: if_splits)

lemma update_state_idle_Inr:
  assumes "idle tx h" "update_state W pkt h = (Inr x, t)"
  shows "\<exists>c. pkt = P_Connect c"
  using assms by (cases pkt) (auto simp: update_state_def idle_def)

text \<open>What a turn makes of an idle handler.\<close>

lemma turn_idle_frame:
  assumes "idle tx h" "listen_turn W (Frame bytes) h = (r, t)"
  shows "wf_handler tx t \<and> (\<forall>f. r = Inl f \<longrightarrow> handler_error f)"
proof (cases "decode (w_mqttrs W) bytes")
  case (Inl e)
  with assms show ?thesis by (auto simp: wf_handler_def dest: decode_error)
next
  case (Inr res)
  show ?thesis
  proof (cases res)
    case None
    with Inr assms show ?thesis by (auto simp: wf_handler_def)
  next
    case (Some pkt)
    obtain r1 h1 where u: "update_state W pkt h = (r1, h1)" by fastforce
    show ?thesis
    proof (cases r1)
      case (Inl f)
      with u Some Inr assms update_state_error [OF assms(1), of W pkt f h1] show ?thesis
        by (auto simp: wf_handler_def)
    next
      case (Inr x)
      with u update_state_idle_Inr [OF assms(1)] obtain c where c: "pkt = P_Connect c" by blast
      with u Inr have "conn (con_client_id c) tx h1"
        using update_state_connect_conn [OF assms(1)] by blast
      moreover have "andthen (handle_packet W pkt) (ok True) h1 = (r, t)"
        using assms(2) u Inr Some \<open>decode (w_mqttrs W) bytes = Inr res\<close> by simp
      moreover have "keeps (conn (con_client_id c) tx) handler_error
          (andthen (handle_packet W pkt) (ok True))"
        by (intro keeps keeps_handle_packet)
      ultimately show ?thesis
        unfolding wf_handler_def by (blast dest: keeps_run keeps_error)
    qed
  qed
qed

lemma turn_idle_msg:
  assumes "idle tx h" "listen_turn W (FromBroker m) h = (r, t)"
  shows "idle tx t \<and> (\<forall>f. r = Inl f \<longrightarrow> handler_error f \<or> f = StackOverflow)"
proof -
  have upd: "session_update_qos p k h1 = (Inl StackOverflow, h1)" if "idle tx h1" for p k h1
    using that by (simp add: session_update_qos_def idle_def)
  have sent: "r1 = Inr () \<and> idle tx h1 \<or> (\<exists>f. r1 = Inl f \<and> handler_error f) \<and> idle tx h1"
    if "send_client W k h = (r1, h1)" for k r1 h1
    using keeps_run [OF keeps_send_client_idle assms(1) that]
      keeps_error [OF keeps_send_client_idle assms(1)] that by (cases r1) auto
  show ?thesis
  proof (cases m)
    case (BM_Publish c k)
    obtain r1 h1 where "send_client W (P_Publish k) h = (r1, h1)" by fastforce
    with BM_Publish assms(2) sent [OF this] upd show ?thesis
      by (auto simp: decode_broker_msg_def andthen_def bnd_def split: QosPid.splits)
  next
    case (QoSRetry c k)
    obtain r1 h1 where "send_client W k h = (r1, h1)" by fastforce
    with QoSRetry assms(2) sent [OF this] show ?thesis
      by (auto simp: decode_broker_msg_def handle_broker_qos_retry_def)
  qed (use assms in \<open>auto simp: decode_broker_msg_def handle_connection_timeout_def idle_def\<close>)
qed

lemma turn_wf:
  assumes "wf_handler tx h" "listen_turn W e h = (r, t)" "e \<noteq> StreamClosed"
  shows "wf_handler tx t \<and>
    (\<forall>f. r = Inl f \<longrightarrow> handler_error f \<or> f = StackOverflow \<and> idle tx t)"
proof (cases "idle tx h")
  case True
  then show ?thesis
    using assms turn_idle_frame [OF True, of W _ r t] turn_idle_msg [OF True, of W _ r t]
    by (cases e) (auto simp: wf_handler_def)
next
  case False
  then obtain cid where "conn cid tx h" using assms(1) by (auto simp: wf_handler_def)
  with turn_conn [OF assms(3)] assms(2) show ?thesis
    unfolding wf_handler_def by (blast dest: keeps_run keeps_error)
qed

subsection \<open>Leaving\<close>

text \<open>What a connected handler tells the broker when it goes: the last will of a client that did not
  send \<open>Disconnect\<close>, and that the client is gone.\<close>

definition farewell :: "world \<Rightarrow> ClientHandler \<Rightarrow> BrokerMsg list" where
  "farewell W h = (case h_state h of Initialized \<Rightarrow> []
     | Connected s \<Rightarrow>
         (if h_disconnect_pkt_seen h then []
          else (case s_last_will s of None \<Rightarrow> []
                | Some lw \<Rightarrow> [BM_Publish (s_id s) (will_message (w_mqttrs W) lw)]))
         @ [ClientDisconnected (s_id s)])"

lemma on_client_disconnect_farewell:
  assumes "\<And>n. w_broker_ok W n"
  shows "on_client_disconnect W h = (Inr (), h\<lparr>h_broker_tx := h_broker_tx h @ farewell W h\<rparr>)"
  by (cases "h_state h")
    (auto simp: on_client_disconnect_def farewell_def send_broker_ok assms split: option.splits)

text \<open>A finished conversation: nothing at all, or a client that connected, sent requests and went.\<close>

definition closed_log :: "sender \<Rightarrow> BrokerMsg list \<Rightarrow> bool" where
  "closed_log tx ms \<longleftrightarrow> ms = [] \<or>
     (\<exists>cid reqs. ms = ClientConnected cid tx # reqs @ [ClientDisconnected cid] \<and>
        list_all (request_of cid) reqs)"

lemma conversationE:
  assumes "conversation cid tx ms"
  obtains reqs where "ms = ClientConnected cid tx # reqs" "list_all (request_of cid) reqs"
  using assms unfolding conversation_def by (metis list.collapse)

lemma farewell_closes:
  assumes "wf_handler tx h"
  shows "closed_log tx (h_broker_tx h @ farewell W h)"
proof (cases "idle tx h")
  case True
  then show ?thesis by (simp add: closed_log_def idle_def farewell_def)
next
  case False
  with assms obtain cid s where s: "h_state h = Connected s" "s_id s = cid"
      "conversation cid tx (h_broker_tx h)"
    by (auto simp: wf_handler_def conn_def)
  then obtain reqs where reqs: "h_broker_tx h = ClientConnected cid tx # reqs"
      "list_all (request_of cid) reqs"
    by (auto elim: conversationE)
  obtain wills where "farewell W h = wills @ [ClientDisconnected cid]" "list_all (request_of cid) wills"
    using s that [of "[]"] that [of "[BM_Publish cid (will_message (w_mqttrs W) (the (s_last_will s)))]"]
    by (auto simp: farewell_def split: option.splits if_splits)
  with reqs show ?thesis
    unfolding closed_log_def by (intro disjI2 exI [of _ cid] exI [of _ "reqs @ wills"]) simp
qed

lemma closing_turn:
  assumes "wf_handler tx h" "\<And>n. w_broker_ok W n" "listen_turn W StreamClosed h = (r, t)"
  shows "r = Inr False \<and> closed_log tx (h_broker_tx t) \<or> r = Inl StackOverflow \<and> idle tx t"
proof (cases "idle tx h \<and> w_info W")
  case True
  then show ?thesis using assms(3) by (simp add: idle_def)
next
  case False
  have "(if w_info W then print_self else ok ()) h = (Inr (), h)"
    using False assms(1) by (auto simp: wf_handler_def conn_def)
  then have "r = Inr False \<and> t = h\<lparr>h_broker_tx := h_broker_tx h @ farewell W h\<rparr>"
    using assms(3) on_client_disconnect_farewell [OF assms(2), of h] by simp
  then show ?thesis using farewell_closes [OF assms(1), of W] by simp
qed

text \<open>How a run of the loop can end.\<close>

definition ended :: "sender \<Rightarrow> failure + bool \<Rightarrow> ClientHandler \<Rightarrow> bool" where
  "ended tx r h \<longleftrightarrow>
     (case r of
        Inr True \<Rightarrow> wf_handler tx h
      | Inr False \<Rightarrow> closed_log tx (h_broker_tx h)
      | Inl (Err e) \<Rightarrow> wf_handler tx h \<and> handler_error (Err e)
      | Inl StackOverflow \<Rightarrow> idle tx h)"

lemma listen_Cons:
  assumes "listen_turn W e h = (r1, h1)"
  shows "listen_for_messages W (e # es) h =
    (case r1 of Inl f \<Rightarrow> (Inl f, h1)
     | Inr b \<Rightarrow> if b then listen_for_messages W es h1 else (Inr False, h1))"
  using assms by (simp add: bnd_apply split: sum.split)

lemma listen_ends:
  assumes "\<And>n. w_broker_ok W n"
  shows "wf_handler tx h \<Longrightarrow> ChannelClosed \<notin> set es \<Longrightarrow> listen_for_messages W es h = (r, t) \<Longrightarrow>
    ended tx r t"
proof (induction es arbitrary: h)
  case Nil
  then show ?case by (auto simp: ended_def)
next
  case (Cons e es)
  obtain r1 h1 where turn: "listen_turn W e h = (r1, h1)" by fastforce
  note run = Cons.prems(3) [unfolded listen_Cons [OF turn]]
  show ?case
  proof (cases "e = StreamClosed")
    case True
    with closing_turn [OF Cons.prems(1) assms] turn
    have "r1 = Inr False \<and> closed_log tx (h_broker_tx h1) \<or> r1 = Inl StackOverflow \<and> idle tx h1"
      by blast
    with run show ?thesis by (auto simp: ended_def)
  next
    case False
    have wf: "wf_handler tx h1"
      and err: "\<And>f. r1 = Inl f \<Longrightarrow> handler_error f \<or> f = StackOverflow \<and> idle tx h1"
      using turn_wf [OF Cons.prems(1) turn False] by auto
    show ?thesis
    proof (cases r1)
      case (Inl f)
      with run wf err [OF Inl] show ?thesis
        by (cases f) (auto simp: ended_def)
    next
      case (Inr b)
      have "b"
        using turn Inr False Cons.prems(2)
        by (cases e) (auto simp: andthen_def bnd_def split: sum.splits option.splits prod.splits)
      with run Inr have "listen_for_messages W es h1 = (r, t)" by simp
      with Cons.IH [OF wf] Cons.prems(2) show ?thesis by simp
    qed
  qed
qed

lemma run_ends:
  assumes "\<And>n. w_broker_ok W n" "wf_handler tx h" "ChannelClosed \<notin> set es"
    "handler_run W es h = (r, t)"
  shows "(r = Inr True \<and> wf_handler tx t) \<or> (r = Inl StackOverflow \<and> idle tx t) \<or>
    ((r = Inr False \<or> (\<exists>e. r = Inl (Err e) \<and> handler_error (Err e))) \<and> closed_log tx (h_broker_tx t))"
proof -
  obtain r1 h1 where l: "listen_for_messages W es h = (r1, h1)" by fastforce
  from listen_ends [OF assms(1,2,3) this] have e: "ended tx r1 h1" .
  show ?thesis
  proof (cases r1)
    case (Inl f)
    then show ?thesis
      using e l assms(4) on_client_disconnect_farewell [OF assms(1), of h1] farewell_closes [of tx h1 W]
      by (cases f) (auto simp: ended_def handler_run_def)
  next
    case (Inr b)
    then show ?thesis
      using e l assms(4) by (cases b) (auto simp: ended_def handler_run_def)
  qed
qed

lemma wf_handler_new: "wf_handler tx (handler_new config addr tx)"
  by (simp add: wf_handler_def idle_def handler_new_def)

end
