(* ===== verification/Broker_State.thy ===== *)
theory Broker_State
  imports Broker_Msg "HOL-Library.Multiset" "HOL-Library.Char_ord" "HOL-Library.List_Lexorder"
    "HOL-Library.Product_Lexorder"
begin

section \<open>The shared state of the broker (\<open>mqttrs-1/src/broker.rs\<close>)\<close>

text \<open>
  The broker task owns the maps of clients and of subscriptions and serves one message of
  the channel at a time. \<open>b_out\<close> records what it has sent to the channels of the client
  handlers, in order; the queue \<open>Broker::msg\<close> that feeds the task is the list of messages
  the loop is run on here, and part of the system state in \<open>Broker_System\<close>.
\<close>

record ClientInfo =
  ci_client_tx :: sender
  ci_topics :: "SubscribeTopic set"

record Broker =
  b_config :: Config
  b_clients :: "string \<rightharpoonup> ClientInfo"
  b_subscriptions :: "string \<rightharpoonup> string set"
  b_out :: "(sender \<times> BrokerMsg) list"

text \<open>
  What the task does not control: the order in which the two hash sets are visited, and
  which handlers still hold the receiving end of their channel, which decides whether
  \<open>client_tx.send\<close> succeeds.
\<close>

record broker_env =
  be_iter :: "string set \<Rightarrow> string list"
  be_iter_topics :: "SubscribeTopic set \<Rightarrow> SubscribeTopic list"
  be_open :: "sender \<Rightarrow> bool"

definition env_ok :: "broker_env \<Rightarrow> bool" where
  "env_ok E \<longleftrightarrow> iterates (be_iter E) \<and> iterates (be_iter_topics E)"

type_synonym 'a bop = "(Broker, error, 'a) op"

definition broker_new :: "Config \<Rightarrow> Broker" where
  "broker_new config =
     \<lparr>b_config = config, b_clients = Map.empty, b_subscriptions = Map.empty, b_out = []\<rparr>"

subsection \<open>The handlers of the broker\<close>

definition broker_client_connected :: "string \<Rightarrow> sender \<Rightarrow> unit bop" where
  "broker_client_connected client client_tx = modify (\<lambda>b.
     b\<lparr>b_clients := (b_clients b)(client \<mapsto> \<lparr>ci_client_tx = client_tx, ci_topics = {}\<rparr>)\<rparr>)"

definition broker_client_disconnected :: "broker_env \<Rightarrow> string \<Rightarrow> unit bop" where
  "broker_client_disconnected E client = (\<lambda>b.
     andthen
       (case b_clients b client of
          Some client_info \<Rightarrow>
            for_each (\<lambda>topic. modify (\<lambda>b. b\<lparr>b_subscriptions :=
                and_modify (st_topic_path topic) (\<lambda>subs. subs - {client}) (b_subscriptions b)\<rparr>))
              (be_iter_topics E (ci_topics client_info))
        | None \<Rightarrow> ok ())
       (modify (\<lambda>b. b\<lparr>b_clients := (b_clients b)(client := None)\<rparr>)) b)"

text \<open>One turn of the loop over the subscribers of a topic.\<close>

definition publish_to :: "broker_env \<Rightarrow> string \<Rightarrow> Publish \<Rightarrow> string \<Rightarrow> unit bop" where
  "publish_to E client packet client_id = (\<lambda>b.
     (let msg = BM_Publish client packet in
      case b_clients b client_id of
        Some client_info \<Rightarrow>
          if client_id = client then ok () b
          else if be_open E (ci_client_tx client_info)
            then (Inr (), b\<lparr>b_out := b_out b @ [(ci_client_tx client_info, msg)]\<rparr>)
            else (Inl BrokerMsgSendFailure, b)
      | None \<Rightarrow> ok () b))"

definition broker_publish :: "broker_env \<Rightarrow> string \<Rightarrow> Publish \<Rightarrow> unit bop" where
  "broker_publish E client packet = (\<lambda>b.
     (let b' = b\<lparr>b_subscriptions := or_insert (pub_topic_name packet) {} (b_subscriptions b)\<rparr> in
      case b_subscriptions b' (pub_topic_name packet) of
        Some subs \<Rightarrow> for_each (publish_to E client packet) (be_iter E subs) b'
      | None \<Rightarrow> ok () b'))"

text \<open>\<open>entry(path).or_insert(HashSet::new()).insert(client)\<close>.\<close>

definition subscribe_one :: "string \<Rightarrow> string \<Rightarrow> Broker \<Rightarrow> Broker" where
  "subscribe_one client path b =
     b\<lparr>b_subscriptions := and_modify path (insert client) (or_insert path {} (b_subscriptions b))\<rparr>"

definition broker_subscribe :: "string \<Rightarrow> Subscribe \<Rightarrow> unit bop" where
  "broker_subscribe client packet =
     for_each (\<lambda>topic. modify (subscribe_one client (mst_topic_path topic))) (sub_topics packet)"

text \<open>The client leaves the entry of the topic; an entry left empty is removed.\<close>

definition unsubscribe_one :: "string \<Rightarrow> string \<Rightarrow> Broker \<Rightarrow> Broker" where
  "unsubscribe_one client topic b =
     (let m = (case b_subscriptions b topic of
                 Some subs \<Rightarrow> (b_subscriptions b)(topic \<mapsto> subs - {client})
               | None \<Rightarrow> b_subscriptions b);
          m' = (case m topic of
                  Some subs \<Rightarrow> if subs = {} then m(topic := None) else m
                | None \<Rightarrow> m)
      in b\<lparr>b_subscriptions := m'\<rparr>)"

definition broker_unsubscribe :: "string \<Rightarrow> Unsubscribe \<Rightarrow> unit bop" where
  "broker_unsubscribe client packet =
     andthen
       (for_each (\<lambda>topic. modify (unsubscribe_one client topic)) (unsub_topics packet))
       (modify (\<lambda>b. b\<lparr>b_clients := and_modify client
          (\<lambda>info. info\<lparr>ci_topics := fold (\<lambda>topic ts. ts - {\<lparr>st_topic_path = topic, st_qos = AtMostOnce\<rparr>})
             (unsub_topics packet) (ci_topics info)\<rparr>) (b_clients b)\<rparr>))"

subsection \<open>The loop of the task\<close>

fun broker_turn :: "broker_env \<Rightarrow> BrokerMsg \<Rightarrow> unit bop" where
  "broker_turn E (ClientConnected client client_tx) = broker_client_connected client client_tx"
| "broker_turn E (ClientDisconnected client) = broker_client_disconnected E client"
| "broker_turn E (BM_Publish client packet) = broker_publish E client packet"
| "broker_turn E (BM_Subscribe client packet) = broker_subscribe client packet"
| "broker_turn E (BM_Unsubscribe client packet) = broker_unsubscribe client packet"
| "broker_turn E ClientConnectionTimeout = fail InvalidPacket"
| "broker_turn E (QoSRetry _ _) = fail InvalidPacket"

text \<open>
  The loop on the messages that arrive. The broker keeps a sender of its own channel, so
  \<open>recv\<close> never returns \<open>None\<close> and the only way out of the loop is an error.
\<close>

definition listen_for_broker_msgs :: "broker_env \<Rightarrow> BrokerMsg list \<Rightarrow> unit bop" where
  "listen_for_broker_msgs E msgs = for_each (broker_turn E) msgs"

subsection \<open>The invariant of the shared state\<close>

text \<open>
  The topics recorded for a client are always empty: \<open>handle_client_connected\<close> starts with
  none, and \<open>handle_subscribe\<close> never adds one.
\<close>

definition wf_broker :: "Broker \<Rightarrow> bool" where
  "wf_broker b \<longleftrightarrow>
     (\<forall>t S. b_subscriptions b t = Some S \<longrightarrow> finite S) \<and>
     (\<forall>c i. b_clients b c = Some i \<longrightarrow> ci_topics i = {})"

text \<open>The observations of the shared state that routing depends on.\<close>

definition members :: "Broker \<Rightarrow> string \<Rightarrow> string set" where
  "members b t = (case b_subscriptions b t of None \<Rightarrow> {} | Some S \<Rightarrow> S)"

definition address :: "Broker \<Rightarrow> string \<Rightarrow> sender option" where
  "address b c = map_option ci_client_tx (b_clients b c)"

lemma wf_broker_new [simp]: "wf_broker (broker_new config)"
  by (simp add: wf_broker_def broker_new_def)

lemma out_broker_new [simp]: "b_out (broker_new config) = []"
  by (simp add: broker_new_def)

lemma finite_members [simp]: "wf_broker b \<Longrightarrow> finite (members b t)"
  by (auto simp: wf_broker_def members_def split: option.splits)

lemma wf_out [simp]: "wf_broker (b\<lparr>b_out := out\<rparr>) = wf_broker b"
  by (simp add: wf_broker_def)

lemma members_out [simp]: "members (b\<lparr>b_out := out\<rparr>) = members b" "address (b\<lparr>b_out := out\<rparr>) = address b"
  by (simp_all add: members_def address_def fun_eq_iff)

subsection \<open>A registry of subscribers\<close>

text \<open>
  What the two loops over topics promise of the table they change, and what follows for
  whole lists of topics.
\<close>

locale registry =
  fixes mem :: "'s \<Rightarrow> string \<Rightarrow> string set"
    and join :: "string \<Rightarrow> string \<Rightarrow> 's \<Rightarrow> 's"
    and leave :: "string \<Rightarrow> string \<Rightarrow> 's \<Rightarrow> 's"
    and inv :: "'s \<Rightarrow> bool"
  assumes mem_join: "inv s \<Longrightarrow> mem (join c t s) u = (if u = t then insert c (mem s u) else mem s u)"
    and mem_leave: "inv s \<Longrightarrow> mem (leave c t s) u = (if u = t then mem s u - {c} else mem s u)"
    and inv_join: "inv s \<Longrightarrow> inv (join c t s)"
    and inv_leave: "inv s \<Longrightarrow> inv (leave c t s)"
begin

lemma inv_joins: "inv s \<Longrightarrow> inv (fold (join c) ts s)"
  by (induction ts arbitrary: s) (auto intro: inv_join)

lemma inv_leaves: "inv s \<Longrightarrow> inv (fold (leave c) ts s)"
  by (induction ts arbitrary: s) (auto intro: inv_leave)

lemma mem_joins:
  "inv s \<Longrightarrow> mem (fold (join c) ts s) u = (if u \<in> set ts then insert c (mem s u) else mem s u)"
  by (induction ts arbitrary: s) (auto simp: mem_join inv_join)

lemma mem_leaves:
  "inv s \<Longrightarrow> mem (fold (leave c) ts s) u = (if u \<in> set ts then mem s u - {c} else mem s u)"
  by (induction ts arbitrary: s) (auto simp: mem_leave inv_leave)

end

interpretation table: registry members subscribe_one unsubscribe_one wf_broker
proof
  fix b c t u
  assume wf: "wf_broker b"
  show "members (subscribe_one c t b) u = (if u = t then insert c (members b u) else members b u)"
    by (auto simp: members_def subscribe_one_def split: option.splits)
  show "members (unsubscribe_one c t b) u = (if u = t then members b u - {c} else members b u)"
    by (auto simp: members_def unsubscribe_one_def Let_def split: option.splits)
  show "wf_broker (subscribe_one c t b)"
    using wf by (auto simp: wf_broker_def subscribe_one_def)
  show "wf_broker (unsubscribe_one c t b)"
    using wf by (auto simp: wf_broker_def unsubscribe_one_def Let_def split: option.splits if_splits)
qed

subsection \<open>What each handler does to the observations\<close>

lemma clients_fold_subscribe [simp]: "b_clients (fold (subscribe_one c) ts b) = b_clients b"
  "b_out (fold (subscribe_one c) ts b) = b_out b"
  by (induction ts arbitrary: b) (simp_all add: subscribe_one_def)

lemma clients_fold_unsubscribe [simp]: "b_clients (fold (unsubscribe_one c) ts b) = b_clients b"
  "b_out (fold (unsubscribe_one c) ts b) = b_out b"
  by (induction ts arbitrary: b) (simp_all add: unsubscribe_one_def Let_def)

definition sub_paths :: "Subscribe \<Rightarrow> string list" where
  "sub_paths packet = map mst_topic_path (sub_topics packet)"

lemma broker_subscribe_run: "broker_subscribe c k b = (Inr (), fold (subscribe_one c) (sub_paths k) b)"
  by (simp add: broker_subscribe_def sub_paths_def fold_map comp_def)

lemma broker_unsubscribe_run:
  assumes "wf_broker b"
  shows "\<exists>b'. broker_unsubscribe c k b = (Inr (), b') \<and> wf_broker b' \<and>
    members b' = members (fold (unsubscribe_one c) (unsub_topics k) b) \<and> address b' = address b \<and>
    b_out b' = b_out b"
proof -
  have "fold (\<lambda>topic ts. ts - {\<lparr>st_topic_path = topic, st_qos = AtMostOnce\<rparr>}) xs {} = {}" for xs
    by (induction xs) simp_all
  then show ?thesis
    using assms table.inv_leaves [OF assms, of c "unsub_topics k"]
    by (auto simp: broker_unsubscribe_def wf_broker_def members_def address_def fun_eq_iff
        option.map_comp comp_def split: if_splits)
qed

lemma broker_connected_run:
  assumes "wf_broker b"
  shows "\<exists>b'. broker_client_connected c tx b = (Inr (), b') \<and> wf_broker b' \<and>
    members b' = members b \<and> address b' = (address b)(c \<mapsto> tx) \<and> b_out b' = b_out b"
  using assms
  by (auto simp: broker_client_connected_def wf_broker_def members_def address_def fun_eq_iff)

lemma broker_disconnected_run:
  assumes "wf_broker b" "env_ok E"
  shows "\<exists>b'. broker_client_disconnected E c b = (Inr (), b') \<and> wf_broker b' \<and>
    members b' = members b \<and> address b' = (address b)(c := None) \<and> b_out b' = b_out b"
proof -
  have "broker_client_disconnected E c b = (Inr (), b\<lparr>b_clients := (b_clients b)(c := None)\<rparr>)"
    using assms by (auto simp: broker_client_disconnected_def wf_broker_def env_ok_def
        split: option.splits)
  then show ?thesis
    using assms(1) by (auto simp: wf_broker_def members_def address_def fun_eq_iff)
qed

text \<open>
  A publish goes, in the order the subscribers are visited, to those that are connected and
  are not its sender, up to the first whose handler has dropped its receiver.
\<close>

definition targets :: "Broker \<Rightarrow> string \<Rightarrow> string list \<Rightarrow> string list" where
  "targets b client cs = filter (\<lambda>c. c \<noteq> client \<and> address b c \<noteq> None) cs"

definition deliver :: "Broker \<Rightarrow> BrokerMsg \<Rightarrow> string \<Rightarrow> sender \<times> BrokerMsg" where
  "deliver b msg c = (the (address b c), msg)"

definition reachable_at :: "broker_env \<Rightarrow> Broker \<Rightarrow> string \<Rightarrow> bool" where
  "reachable_at E b c \<longleftrightarrow> be_open E (the (address b c))"

lemma publish_to_cases:
  "publish_to E client k c b =
     (if c = client \<or> address b c = None then (Inr (), b)
      else if reachable_at E b c then (Inr (), b\<lparr>b_out := b_out b @ [deliver b (BM_Publish client k) c]\<rparr>)
      else (Inl BrokerMsgSendFailure, b))"
  by (auto simp: publish_to_def address_def deliver_def reachable_at_def Let_def split: option.splits)

lemma obs_out [simp]:
  "targets (b\<lparr>b_out := out\<rparr>) = targets b" "deliver (b\<lparr>b_out := out\<rparr>) = deliver b"
  "reachable_at E (b\<lparr>b_out := out\<rparr>) = reachable_at E b"
  by (simp_all add: targets_def deliver_def reachable_at_def fun_eq_iff)

lemma publish_loop:
  "for_each (publish_to E client k) cs b =
     (if list_all (reachable_at E b) (targets b client cs) then Inr () else Inl BrokerMsgSendFailure,
      b\<lparr>b_out := b_out b @ map (deliver b (BM_Publish client k))
          (takeWhile (reachable_at E b) (targets b client cs))\<rparr>)"
proof (induction cs arbitrary: b)
  case (Cons c cs)
  show ?case
  proof (cases "c = client \<or> address b c = None")
    case True
    then have "targets b client (c # cs) = targets b client cs" by (auto simp: targets_def)
    moreover have "publish_to E client k c b = (Inr (), b)" using True by (simp add: publish_to_cases)
    ultimately show ?thesis by (simp add: Cons.IH)
  next
    case False
    then have ts: "targets b client (c # cs) = c # targets b client cs" by (auto simp: targets_def)
    show ?thesis
    proof (cases "reachable_at E b c")
      case True
      with False have "publish_to E client k c b
        = (Inr (), b\<lparr>b_out := b_out b @ [deliver b (BM_Publish client k) c]\<rparr>)"
        by (auto simp: publish_to_cases)
      then show ?thesis using True ts by (simp add: Cons.IH)
    next
      case unreachable: False
      with False have "publish_to E client k c b = (Inl BrokerMsgSendFailure, b)"
        by (auto simp: publish_to_cases)
      then show ?thesis using unreachable ts by simp
    qed
  qed
qed (simp add: targets_def)

definition recipients :: "Broker \<Rightarrow> string \<Rightarrow> string \<Rightarrow> string set" where
  "recipients b client t = {c \<in> members b t. c \<noteq> client \<and> address b c \<noteq> None}"

lemma broker_publish_run:
  "\<exists>b'. broker_publish E client k b =
     (if list_all (reachable_at E b) ts then Inr () else Inl BrokerMsgSendFailure, b') \<and>
     b_out b' = b_out b @ map (deliver b (BM_Publish client k)) (takeWhile (reachable_at E b) ts) \<and>
     members b' = members b \<and> address b' = address b \<and> (wf_broker b \<longrightarrow> wf_broker b')"
  if "ts = targets b client (be_iter E (members b (pub_topic_name k)))"
proof -
  define b1 where "b1 = b\<lparr>b_subscriptions := or_insert (pub_topic_name k) {} (b_subscriptions b)\<rparr>"
  have m: "members b1 = members b" "address b1 = address b"
    by (auto simp: b1_def members_def address_def fun_eq_iff split: option.splits)
  have o: "targets b1 = targets b" "deliver b1 = deliver b" "reachable_at E b1 = reachable_at E b"
    "b_out b1 = b_out b"
    by (simp_all add: targets_def deliver_def reachable_at_def fun_eq_iff m) (simp add: b1_def)
  have w: "wf_broker b \<longrightarrow> wf_broker b1" by (auto simp: b1_def wf_broker_def)
  have "b_subscriptions b1 (pub_topic_name k) = Some (members b (pub_topic_name k))"
    by (simp add: b1_def members_def split: option.splits)
  then have "broker_publish E client k b
      = for_each (publish_to E client k) (be_iter E (members b (pub_topic_name k))) b1"
    unfolding broker_publish_def b1_def [symmetric] by simp
  then show ?thesis
    using m w by (simp add: publish_loop o that)
qed

lemma targets_recipients:
  assumes "env_ok E" "wf_broker b"
  shows "set (targets b c (be_iter E (members b t))) = recipients b c t"
    "distinct (targets b c (be_iter E (members b t)))"
  using assms by (auto simp: targets_def recipients_def env_ok_def)

lemma broker_turn_wf:
  assumes "wf_broker b" "env_ok E" "broker_turn E m b = (r, b')"
  shows "wf_broker b'"
proof (cases m)
  case (ClientConnected c tx)
  then show ?thesis using broker_connected_run [OF assms(1), of c tx] assms(3) by auto
next
  case (ClientDisconnected c)
  then show ?thesis using broker_disconnected_run [OF assms(1,2), of c] assms(3) by auto
next
  case (BM_Publish c k)
  then show ?thesis using broker_publish_run [OF refl, of E c k b] assms(1,3) by auto
next
  case (BM_Subscribe c k)
  then show ?thesis using table.inv_joins [OF assms(1)] assms(3) by (auto simp: broker_subscribe_run)
next
  case (BM_Unsubscribe c k)
  then show ?thesis using broker_unsubscribe_run [OF assms(1), of c k] assms(3) by auto
qed (use assms in auto)

lemma keeps_broker_turn [keeps]: "env_ok E \<Longrightarrow> keeps wf_broker (\<lambda>_. True) (broker_turn E m)"
  by (rule keepsI) (auto dest: broker_turn_wf)

subsection \<open>The specification of a publish/subscribe server\<close>

text \<open>
  The abstract server knows the channel of each connected client and the subscribers of
  each topic. \<open>ps_step\<close> is the effect of a request on it and \<open>ps_deliveries\<close> the messages
  that the request causes, one for each recipient.
\<close>

record pubsub =
  ps_address :: "string \<rightharpoonup> sender"
  ps_members :: "string \<Rightarrow> string set"

definition ps_init :: pubsub where
  "ps_init = \<lparr>ps_address = Map.empty, ps_members = (\<lambda>_. {})\<rparr>"

fun ps_step :: "BrokerMsg \<Rightarrow> pubsub \<Rightarrow> pubsub" where
  "ps_step (ClientConnected c tx) p = p\<lparr>ps_address := (ps_address p)(c \<mapsto> tx)\<rparr>"
| "ps_step (ClientDisconnected c) p = p\<lparr>ps_address := (ps_address p)(c := None)\<rparr>"
| "ps_step (BM_Subscribe c k) p = p\<lparr>ps_members := (\<lambda>t.
     if t \<in> set (sub_paths k) then insert c (ps_members p t) else ps_members p t)\<rparr>"
| "ps_step (BM_Unsubscribe c k) p = p\<lparr>ps_members := (\<lambda>t.
     if t \<in> set (unsub_topics k) then ps_members p t - {c} else ps_members p t)\<rparr>"
| "ps_step _ p = p"

definition ps_recipients :: "pubsub \<Rightarrow> string \<Rightarrow> string \<Rightarrow> string set" where
  "ps_recipients p client t = {c \<in> ps_members p t. c \<noteq> client \<and> ps_address p c \<noteq> None}"

fun ps_deliveries :: "pubsub \<Rightarrow> BrokerMsg \<Rightarrow> (sender \<times> BrokerMsg) multiset" where
  "ps_deliveries p (BM_Publish client k) =
     image_mset (\<lambda>c. (the (ps_address p c), BM_Publish client k))
       (mset_set (ps_recipients p client (pub_topic_name k)))"
| "ps_deliveries p _ = {#}"

fun ps_run :: "pubsub \<Rightarrow> BrokerMsg list \<Rightarrow> (sender \<times> BrokerMsg) multiset" where
  "ps_run p [] = {#}"
| "ps_run p (m # ms) = ps_deliveries p m + ps_run (ps_step m p) ms"

text \<open>The abstraction of the broker's state.\<close>

definition absb :: "Broker \<Rightarrow> pubsub" where
  "absb b = \<lparr>ps_address = address b, ps_members = members b\<rparr>"

lemma absb_simps [simp]:
  "ps_address (absb b) = address b" "ps_members (absb b) = members b"
  "ps_recipients (absb b) = recipients b" "absb (broker_new config) = ps_init"
  by (simp_all add: absb_def ps_recipients_def recipients_def fun_eq_iff ps_init_def broker_new_def
      address_def members_def)

text \<open>The messages that a client handler may send to the broker.\<close>

fun is_request :: "BrokerMsg \<Rightarrow> bool" where
  "is_request ClientConnectionTimeout = False"
| "is_request (QoSRetry _ _) = False"
| "is_request _ = True"

text \<open>One turn of the loop is one step of the specification.\<close>

lemma broker_turn_refines:
  assumes wf: "wf_broker b" and E: "env_ok E" and m: "is_request m"
    and up: "\<forall>tx. be_open E tx"
  shows "\<exists>b' sent. broker_turn E m b = (Inr (), b') \<and> wf_broker b' \<and> absb b' = ps_step m (absb b) \<and>
    b_out b' = b_out b @ sent \<and> mset sent = ps_deliveries (absb b) m"
proof (cases m)
  case (ClientConnected c tx)
  then show ?thesis using broker_connected_run [OF wf, of c tx] by (auto simp: absb_def)
next
  case (ClientDisconnected c)
  then show ?thesis using broker_disconnected_run [OF wf E, of c] by (auto simp: absb_def)
next
  case (BM_Publish c k)
  define ts where "ts = targets b c (be_iter E (members b (pub_topic_name k)))"
  have all: "list_all (reachable_at E b) ts" "takeWhile (reachable_at E b) ts = ts"
    using up by (simp_all add: reachable_at_def list_all_iff)
  have "mset ts = mset_set (recipients b c (pub_topic_name k))"
    using targets_recipients [OF E wf] ts_def by (metis mset_set_set)
  then have "mset (map (deliver b m) ts) = ps_deliveries (absb b) m"
    using BM_Publish by (simp add: deliver_def [abs_def])
  then show ?thesis
    using broker_publish_run [OF ts_def] wf BM_Publish all by (auto simp: absb_def)
next
  case (BM_Subscribe c k)
  then show ?thesis
    using table.inv_joins [OF wf] table.mem_joins [OF wf]
    by (auto simp: broker_subscribe_run absb_def address_def fun_eq_iff)
next
  case (BM_Unsubscribe c k)
  then show ?thesis
    using broker_unsubscribe_run [OF wf, of c k] table.mem_leaves [OF wf]
    by (auto simp: absb_def fun_eq_iff)
qed (use m in auto)

text \<open>A failing turn has the same effect on the observations as one that succeeds.\<close>

lemma broker_turn_absb:
  assumes wf: "wf_broker b" and E: "env_ok E"
  shows "absb (snd (broker_turn E m b)) = ps_step m (absb b)"
proof (cases "is_request m")
  case True
  show ?thesis
  proof (cases "\<exists>c k. m = BM_Publish c k")
    case True
    then obtain c k where m: "m = BM_Publish c k" by blast
    obtain r b' where "broker_publish E c k b = (r, b')" "members b' = members b" "address b' = address b"
      using broker_publish_run [OF refl, of E c k b] by blast
    then show ?thesis by (simp add: m absb_def)
  next
    case no: False
    define E' where "E' = E\<lparr>be_open := \<lambda>_. True\<rparr>"
    have E': "env_ok E'" "\<forall>tx. be_open E' tx" using E by (simp_all add: E'_def env_ok_def)
    have "broker_turn E m = broker_turn E' m"
      using True no by (cases m) (auto simp: E'_def broker_client_disconnected_def [abs_def] cong: option.case_cong)
    then show ?thesis using broker_turn_refines [OF wf E'(1) True E'(2)] by auto
  qed
qed (cases m; simp)

subsection \<open>The history of a server decides its routing\<close>

text \<open>How one message changes whether \<open>c\<close> is subscribed to \<open>t\<close>, and the channel of \<open>c\<close>.\<close>

fun wishes :: "string \<Rightarrow> string \<Rightarrow> BrokerMsg \<Rightarrow> bool \<Rightarrow> bool" where
  "wishes c t (BM_Subscribe d k) w = (w \<or> d = c \<and> t \<in> set (sub_paths k))"
| "wishes c t (BM_Unsubscribe d k) w = (w \<and> \<not> (d = c \<and> t \<in> set (unsub_topics k)))"
| "wishes c t _ w = w"

fun reaches :: "string \<Rightarrow> BrokerMsg \<Rightarrow> sender option \<Rightarrow> sender option" where
  "reaches c (ClientConnected d tx) a = (if d = c then Some tx else a)"
| "reaches c (ClientDisconnected d) a = (if d = c then None else a)"
| "reaches c _ a = a"

text \<open>A message that is the last word of \<open>c\<close> on \<open>t\<close>, and on its channel.\<close>

definition asks :: "string \<Rightarrow> string \<Rightarrow> BrokerMsg \<Rightarrow> bool" where
  "asks c t m \<longleftrightarrow> (\<exists>k. m = BM_Subscribe c k \<and> t \<in> set (sub_paths k))"

definition cancels :: "string \<Rightarrow> string \<Rightarrow> BrokerMsg \<Rightarrow> bool" where
  "cancels c t m \<longleftrightarrow> (\<exists>k. m = BM_Unsubscribe c k \<and> t \<in> set (unsub_topics k))"

definition moves :: "string \<Rightarrow> BrokerMsg \<Rightarrow> bool" where
  "moves c m \<longleftrightarrow> m = ClientDisconnected c \<or> (\<exists>tx. m = ClientConnected c tx)"

text \<open>What is last decided by a message that sets it and not undone since.\<close>

definition last_word :: "('m \<Rightarrow> bool) \<Rightarrow> ('m \<Rightarrow> bool) \<Rightarrow> 'm list \<Rightarrow> bool" where
  "last_word on off ms \<longleftrightarrow> (\<exists>as m bs. ms = as @ m # bs \<and> on m \<and> (\<forall>x \<in> set bs. \<not> off x))"

lemma last_word_Nil [simp]: "\<not> last_word on off []"
  by (simp add: last_word_def)

lemma last_word_snoc:
  "last_word on off (ms @ [m]) \<longleftrightarrow> on m \<or> last_word on off ms \<and> \<not> off m"
proof
  assume "last_word on off (ms @ [m])"
  then obtain as x bs where s: "ms @ [m] = as @ x # bs" "on x" "\<forall>y \<in> set bs. \<not> off y"
    unfolding last_word_def by blast
  show "on m \<or> last_word on off ms \<and> \<not> off m"
  proof (cases bs rule: rev_cases)
    case (snoc bs' y)
    with s have "ms = as @ x # bs'" "y = m" by auto
    with s snoc show ?thesis unfolding last_word_def by auto
  qed (use s in auto)
next
  assume "on m \<or> last_word on off ms \<and> \<not> off m"
  then show "last_word on off (ms @ [m])"
  proof
    assume "on m"
    then show ?thesis unfolding last_word_def by (intro exI [of _ ms] exI [of _ m] exI [of _ "[]"]) simp
  next
    assume "last_word on off ms \<and> \<not> off m"
    then obtain as x bs where "ms = as @ x # bs" "on x" "\<forall>y \<in> set bs. \<not> off y" "\<not> off m"
      unfolding last_word_def by blast
    then show ?thesis
      unfolding last_word_def by (intro exI [of _ as] exI [of _ x] exI [of _ "bs @ [m]"]) auto
  qed
qed

lemma fold_wishes: "fold (wishes c t) ms False \<longleftrightarrow> last_word (asks c t) (cancels c t) ms"
proof (induction ms rule: rev_induct)
  case (snoc m ms)
  then show ?case
    by (cases m) (auto simp: last_word_snoc asks_def cancels_def)
qed simp

lemma fold_reaches:
  "fold (reaches c) ms None = Some tx \<longleftrightarrow> last_word (\<lambda>m. m = ClientConnected c tx) (moves c) ms"
proof (induction ms rule: rev_induct)
  case (snoc m ms)
  then show ?case
    by (cases m) (auto simp: last_word_snoc moves_def)
qed simp

text \<open>
  A server whose every turn changes the observations in this way, as a contract; its
  client lemmas say what a whole history of messages does.
\<close>

locale pubsub_server =
  fixes mem :: "'s \<Rightarrow> string \<Rightarrow> string set"
    and adr :: "'s \<Rightarrow> string \<Rightarrow> sender option"
    and turn :: "BrokerMsg \<Rightarrow> 's \<Rightarrow> 's"
    and inv :: "'s \<Rightarrow> bool"
  assumes mem_turn: "inv s \<Longrightarrow> c \<in> mem (turn m s) t \<longleftrightarrow> wishes c t m (c \<in> mem s t)"
    and adr_turn: "inv s \<Longrightarrow> adr (turn m s) c = reaches c m (adr s c)"
    and inv_turn: "inv s \<Longrightarrow> inv (turn m s)"
begin

lemma inv_run: "inv s \<Longrightarrow> inv (fold turn ms s)"
  by (induction ms arbitrary: s) (auto intro: inv_turn)

lemma mem_run: "inv s \<Longrightarrow> c \<in> mem (fold turn ms s) t \<longleftrightarrow> fold (wishes c t) ms (c \<in> mem s t)"
  by (induction ms arbitrary: s) (simp_all add: mem_turn inv_turn)

lemma adr_run: "inv s \<Longrightarrow> adr (fold turn ms s) c = fold (reaches c) ms (adr s c)"
  by (induction ms arbitrary: s) (simp_all add: adr_turn inv_turn)

lemma mem_history:
  assumes "inv s" "c \<notin> mem s t"
  shows "c \<in> mem (fold turn ms s) t \<longleftrightarrow> last_word (asks c t) (cancels c t) ms"
  using mem_run [OF assms(1)] assms(2) by (simp add: fold_wishes)

lemma adr_history:
  assumes "inv s" "adr s c = None"
  shows "adr (fold turn ms s) c = Some tx \<longleftrightarrow>
    last_word (\<lambda>m. m = ClientConnected c tx) (moves c) ms"
  using adr_run [OF assms(1)] assms(2) by (simp add: fold_reaches)

end

interpretation server: pubsub_server members address "\<lambda>m b. snd (broker_turn E m b)"
  "\<lambda>b. env_ok E \<and> wf_broker b" for E
proof
  fix b c m t
  assume inv: "env_ok E \<and> wf_broker b"
  then have a: "absb (snd (broker_turn E m b)) = ps_step m (absb b)"
    using broker_turn_absb by blast
  show "c \<in> members (snd (broker_turn E m b)) t \<longleftrightarrow> wishes c t m (c \<in> members b t)"
    using arg_cong [OF a, of "\<lambda>p. c \<in> ps_members p t"] by (cases m) auto
  show "address (snd (broker_turn E m b)) c = reaches c m (address b c)"
    using arg_cong [OF a, of "\<lambda>p. ps_address p c"] by (cases m) auto
  show "env_ok E \<and> wf_broker (snd (broker_turn E m b))"
    using inv broker_turn_wf [of b E m] by (cases "broker_turn E m b") auto
qed

text \<open>The specification satisfies the same contract.\<close>

interpretation spec: pubsub_server ps_members ps_address ps_step "\<lambda>_. True"
proof
  fix p c m t
  show "c \<in> ps_members (ps_step m p) t \<longleftrightarrow> wishes c t m (c \<in> ps_members p t)"
    by (cases m) auto
  show "ps_address (ps_step m p) c = reaches c m (ps_address p c)"
    by (cases m) auto
qed simp

lemma last_wordD: "last_word on off ms \<Longrightarrow> \<exists>m \<in> set ms. on m"
  by (auto simp: last_word_def)

lemma served_recipient:
  assumes "absb b = fold ps_step served ps_init" "c \<in> recipients b client t" "address b c = Some tx"
  shows "ClientConnected c tx \<in> set served" "c \<noteq> client" "\<exists>m \<in> set served. asks c t m"
proof -
  have "c \<in> ps_members (fold ps_step served ps_init) t" "ps_address (fold ps_step served ps_init) c = Some tx"
    using assms by (simp_all flip: assms(1) add: recipients_def)
  then show "ClientConnected c tx \<in> set served" "\<exists>m \<in> set served. asks c t m"
    using spec.adr_history [where s = ps_init and c = c and ms = served and tx = tx]
      spec.mem_history [where s = ps_init and c = c and t = t and ms = served]
    by (auto simp: ps_init_def dest: last_wordD)
  show "c \<noteq> client" using assms(2) by (simp add: recipients_def)
qed

text \<open>What a turn of the broker may send, and how it may fail.\<close>

lemma broker_turn_sends:
  assumes "wf_broker b" "env_ok E" "broker_turn E m b = (r, b')"
  obtains sent where "b_out b' = b_out b @ sent"
    "\<And>tx x. (tx, x) \<in> set sent \<Longrightarrow> \<exists>client k c. m = BM_Publish client k \<and> x = m \<and>
       c \<in> recipients b client (pub_topic_name k) \<and> address b c = Some tx"
proof (cases "\<exists>client k. m = BM_Publish client k")
  case True
  then obtain client k where m: "m = BM_Publish client k" by blast
  define ts where "ts = targets b client (be_iter E (members b (pub_topic_name k)))"
  have ts: "set ts = recipients b client (pub_topic_name k)"
    using targets_recipients(1) [OF assms(2,1)] by (simp add: ts_def)
  show ?thesis
  proof (rule that)
    show "b_out b' = b_out b @ map (deliver b m) (takeWhile (reachable_at E b) ts)"
      using broker_publish_run [OF ts_def] assms(3) m by auto
    show "\<exists>client k c. m = BM_Publish client k \<and> x = m \<and> c \<in> recipients b client (pub_topic_name k) \<and>
        address b c = Some tx"
      if "(tx, x) \<in> set (map (deliver b m) (takeWhile (reachable_at E b) ts))" for tx x
      using that ts m by (fastforce simp: deliver_def recipients_def dest!: set_takeWhileD)
  qed
next
  case False
  have "b_out b' = b_out b"
  proof (cases m)
    case (ClientConnected c tx)
    then show ?thesis using broker_connected_run [OF assms(1), of c tx] assms(3) by auto
  next
    case (ClientDisconnected c)
    then show ?thesis using broker_disconnected_run [OF assms(1,2), of c] assms(3) by auto
  next
    case (BM_Subscribe c k)
    then show ?thesis using assms(3) by (auto simp: broker_subscribe_run)
  next
    case (BM_Unsubscribe c k)
    then show ?thesis using broker_unsubscribe_run [OF assms(1), of c k] assms(3) by auto
  qed (use assms False in auto)
  then show ?thesis using that [of "[]"] by simp
qed

lemma broker_turn_error:
  assumes "wf_broker b" "env_ok E" "is_request m" "broker_turn E m b = (Inl e, b')"
  shows "e = BrokerMsgSendFailure"
proof (cases m)
  case (ClientDisconnected c)
  then show ?thesis using broker_disconnected_run [OF assms(1,2), of c] assms(4) by auto
next
  case (BM_Publish c k)
  then show ?thesis using broker_publish_run [OF refl, of E c k b] assms(4) by (auto split: if_splits)
next
  case (BM_Unsubscribe c k)
  then show ?thesis using broker_unsubscribe_run [OF assms(1), of c k] assms(4) by auto
qed (use assms in \<open>auto simp: broker_client_connected_def broker_subscribe_run\<close>)

subsection \<open>A sample environment\<close>

text \<open>Hash sets visited in the order of their elements; all channels but number 7 are open.\<close>

instantiation QoS :: linorder
begin

fun qos_rank :: "QoS \<Rightarrow> nat" where
  "qos_rank AtMostOnce = 0"
| "qos_rank AtLeastOnce = 1"
| "qos_rank ExactlyOnce = 2"

definition less_eq_QoS :: "QoS \<Rightarrow> QoS \<Rightarrow> bool" where
  "less_eq_QoS a b \<longleftrightarrow> qos_rank a \<le> qos_rank b"

definition less_QoS :: "QoS \<Rightarrow> QoS \<Rightarrow> bool" where
  "less_QoS a b \<longleftrightarrow> qos_rank a < qos_rank b"

instance
proof
  fix a b :: QoS
  show "a \<le> b \<Longrightarrow> b \<le> a \<Longrightarrow> a = b"
    by (cases a; cases b) (simp_all add: less_eq_QoS_def)
qed (auto simp: less_eq_QoS_def less_QoS_def)

end

definition topic_order :: "SubscribeTopic set \<Rightarrow> SubscribeTopic list" where
  "topic_order S =
     map (\<lambda>(p, q). \<lparr>st_topic_path = p, st_qos = q\<rparr>)
       (sorted_list_of_set ((\<lambda>t. (st_topic_path t, st_qos t)) ` S))"

definition sample_env :: broker_env where
  "sample_env =
     \<lparr>be_iter = sorted_list_of_set, be_iter_topics = topic_order, be_open = (\<lambda>tx. tx \<noteq> 7)\<rparr>"

lemma iterates_topic_order: "iterates topic_order"
  unfolding iterates_def
proof (intro allI impI conjI)
  fix S :: "SubscribeTopic set"
  assume fin: "finite S"
  have eta: "(\<lambda>t :: SubscribeTopic. \<lparr>st_topic_path = st_topic_path t, st_qos = st_qos t\<rparr>) = (\<lambda>t. t)"
    by (simp add: fun_eq_iff)
  have "set (topic_order S) = (\<lambda>t. \<lparr>st_topic_path = st_topic_path t, st_qos = st_qos t\<rparr>) ` S"
    using fin by (simp add: topic_order_def image_image)
  then show "set (topic_order S) = S"
    unfolding eta by simp
  show "distinct (topic_order S)"
    by (auto simp: topic_order_def distinct_map inj_on_def)
qed

lemma sample_env_ok [simp]: "env_ok sample_env" "env_ok (sample_env\<lparr>be_open := f\<rparr>)"
  by (simp_all add: sample_env_def env_ok_def iterates_topic_order) (simp_all add: iterates_def)

definition sample_config :: Config where
  "sample_config = config_new ''0.0.0.0'' 1883 3 20 30"

definition sample_msgs :: "BrokerMsg list" where
  "sample_msgs =
     [ClientConnected ''a'' 1, ClientConnected ''b'' 2,
      BM_Subscribe ''b'' \<lparr>sub_pid = Pid 1, sub_topics = [\<lparr>mst_topic_path = ''t'', mst_qos = AtMostOnce\<rparr>]\<rparr>]"

definition sample_message :: Publish where
  "sample_message = \<lparr>pub_dup = False, pub_qospid = QP_AtMostOnce, pub_retain = False,
     pub_topic_name = ''t'', pub_payload = [1]\<rparr>"

subsection \<open>Properties\<close>

lemma broker_run_refines:
  assumes "wf_broker b" "env_ok E" "\<forall>tx. be_open E tx" "list_all is_request ms"
  shows "\<exists>b' sent. listen_for_broker_msgs E ms b = (Inr (), b') \<and> wf_broker b' \<and>
    absb b' = fold ps_step ms (absb b) \<and> b_out b' = b_out b @ sent \<and> mset sent = ps_run (absb b) ms"
  using assms(1,4)
proof (induction ms arbitrary: b)
  case (Cons m ms)
  then obtain b1 s1 where turn: "broker_turn E m b = (Inr (), b1)" "wf_broker b1"
      "absb b1 = ps_step m (absb b)" "b_out b1 = b_out b @ s1" "mset s1 = ps_deliveries (absb b) m"
    using broker_turn_refines [of b E m] assms(2,3) by auto
  moreover obtain b2 s2 where "listen_for_broker_msgs E ms b1 = (Inr (), b2)" "wf_broker b2"
      "absb b2 = fold ps_step ms (absb b1)" "b_out b2 = b_out b1 @ s2" "mset s2 = ps_run (absb b1) ms"
    using Cons.IH [OF turn(2)] Cons.prems by auto
  ultimately show ?case
    by (intro exI [of _ b2] exI [of _ "s1 @ s2"]) (simp add: listen_for_broker_msgs_def)
qed (simp add: listen_for_broker_msgs_def)

text \<open>C8: while every handler holds its receiver, the broker task implements the abstract
  publish/subscribe server: from its initial state, any list of requests is served without
  error, the state it reaches abstracts to the server's state, and the messages it has sent
  are exactly the server's deliveries, one for each recipient of each publish.\<close>

theorem broker_refines_pubsub:
  assumes "env_ok E" "\<forall>tx. be_open E tx" "list_all is_request ms"
  shows "\<exists>b. listen_for_broker_msgs E ms (broker_new config) = (Inr (), b) \<and>
    absb b = fold ps_step ms ps_init \<and> mset (b_out b) = ps_run ps_init ms"
  using broker_run_refines [OF wf_broker_new assms, of config] by auto

theorem broker_refines_pubsub_witness:
  "\<exists>b. listen_for_broker_msgs (sample_env\<lparr>be_open := \<lambda>_. True\<rparr>)
      (sample_msgs @ [BM_Publish ''a'' sample_message]) (broker_new sample_config) = (Inr (), b) \<and>
    mset (b_out b) = {#(2, BM_Publish ''a'' sample_message)#}"
proof -
  have "ps_run ps_init (sample_msgs @ [BM_Publish ''a'' sample_message])
      = {#(2, BM_Publish ''a'' sample_message)#}"
    by (simp add: sample_msgs_def sample_message_def ps_init_def ps_recipients_def sub_paths_def
        conj_commute cong: conj_cong)
  then show ?thesis
    using broker_refines_pubsub [of "sample_env\<lparr>be_open := \<lambda>_. True\<rparr>"
        "sample_msgs @ [BM_Publish ''a'' sample_message]" sample_config]
    by (auto simp: sample_msgs_def)
qed

text \<open>C18: the routing of the broker is decided by the history of the messages it has served: a client
  is subscribed to a topic exactly when one of its subscribe requests named the topic and no
  unsubscribe request of the client named it since, whatever connections and disconnections
  happened, and the channel of a client is the one of its last \<open>ClientConnected\<close> with no
  \<open>ClientDisconnected\<close> of the same identifier since.\<close>

theorem broker_history:
  assumes "env_ok E" "listen_for_broker_msgs E ms (broker_new config) = (Inr (), b)"
  shows "(c \<in> members b t \<longleftrightarrow> last_word (asks c t) (cancels c t) ms) \<and>
    (address b c = Some tx \<longleftrightarrow> last_word (\<lambda>m. m = ClientConnected c tx) (moves c) ms)"
proof -
  have b: "b = fold (\<lambda>m b. snd (broker_turn E m b)) ms (broker_new config)"
    using assms(2) for_each_Inr by (simp add: listen_for_broker_msgs_def)
  have inv: "env_ok E \<and> wf_broker (broker_new config)" using assms(1) by simp
  have new: "c \<notin> members (broker_new config) t" "address (broker_new config) c = None"
    by (simp_all add: members_def address_def broker_new_def)
  show ?thesis
    using server.mem_history [OF inv new(1), of ms] server.adr_history [OF inv new(2), of ms tx] b by simp
qed

theorem broker_history_witness:
  "\<exists>b. listen_for_broker_msgs sample_env sample_msgs (broker_new sample_config) = (Inr (), b) \<and>
     ''b'' \<in> members b ''t'' \<and> ''a'' \<notin> members b ''t'' \<and> address b ''b'' = Some 2"
proof -
  obtain b where b: "listen_for_broker_msgs sample_env sample_msgs (broker_new sample_config) = (Inr (), b)"
    by (simp add: listen_for_broker_msgs_def sample_msgs_def broker_client_connected_def
        broker_subscribe_run)
  have s: "sample_msgs = (([] @ [ClientConnected ''a'' 1]) @ [ClientConnected ''b'' 2]) @
      [BM_Subscribe ''b'' \<lparr>sub_pid = Pid 1, sub_topics = [\<lparr>mst_topic_path = ''t'', mst_qos = AtMostOnce\<rparr>]\<rparr>]"
    by (simp add: sample_msgs_def)
  have "last_word (asks ''b'' ''t'') (cancels ''b'' ''t'') sample_msgs"
    "\<not> last_word (asks ''a'' ''t'') (cancels ''a'' ''t'') sample_msgs"
    "last_word (\<lambda>m. m = ClientConnected ''b'' 2) (moves ''b'') sample_msgs"
    unfolding s last_word_snoc by (simp_all add: asks_def moves_def sub_paths_def)
  then show ?thesis
    using broker_history [OF sample_env_ok(1) b, of "''b''" "''t''" 2]
      broker_history [OF sample_env_ok(1) b, of "''a''" "''t''" 2] b by blast
qed

text \<open>A publish is served without error exactly when every recipient's handler still holds its
  receiver. Otherwise the broker's loop ends with \<open>BrokerMsgSendFailure\<close> at that message:
  the publish has reached at most the other recipients, and none of the messages behind it is
  ever served.\<close>

theorem publish_to_closed_handler_ends_broker:
  assumes "env_ok E" "wf_broker b"
  shows "(fst (broker_turn E (BM_Publish client k) b) = Inr () \<longleftrightarrow>
      (\<forall>c \<in> recipients b client (pub_topic_name k). be_open E (the (address b c)))) \<and>
    (fst (broker_turn E (BM_Publish client k) b) \<noteq> Inr () \<longrightarrow>
      (\<exists>b' sent. (\<forall>ms. listen_for_broker_msgs E (BM_Publish client k # ms) b
           = (Inl BrokerMsgSendFailure, b')) \<and>
         absb b' = absb b \<and> b_out b' = b_out b @ sent \<and>
         set_mset (mset sent) \<subset> set_mset (ps_deliveries (absb b) (BM_Publish client k))))"
proof -
  define ts where "ts = targets b client (be_iter E (members b (pub_topic_name k)))"
  let ?m = "BM_Publish client k"
  have ts: "set ts = recipients b client (pub_topic_name k)"
    using targets_recipients(1) [OF assms] by (simp add: ts_def)
  have fin: "finite (recipients b client (pub_topic_name k))" using ts by (metis finite_set)
  obtain b' where run: "broker_turn E ?m b
      = (if list_all (reachable_at E b) ts then Inr () else Inl BrokerMsgSendFailure, b')"
    and out: "b_out b' = b_out b @ map (deliver b ?m) (takeWhile (reachable_at E b) ts)"
    and obs: "absb b' = absb b"
    using broker_publish_run [OF ts_def] by (auto simp: absb_def)
  have sub: "set (map (deliver b ?m) (takeWhile (reachable_at E b) ts))
      \<subset> set_mset (ps_deliveries (absb b) ?m)" if bad: "\<not> list_all (reachable_at E b) ts"
  proof (rule psubsetI)
    show "set (map (deliver b ?m) (takeWhile (reachable_at E b) ts))
      \<subseteq> set_mset (ps_deliveries (absb b) ?m)"
      using ts fin by (auto simp: deliver_def dest!: set_takeWhileD)
    obtain c where c: "c \<in> set ts" "\<not> reachable_at E b c" using bad by (auto simp: list_all_iff)
    then have "deliver b ?m c \<in> set_mset (ps_deliveries (absb b) ?m)"
      using ts fin by (auto simp: deliver_def)
    moreover have "deliver b ?m c \<notin> set (map (deliver b ?m) (takeWhile (reachable_at E b) ts))"
      using c(2) by (auto simp: deliver_def reachable_at_def dest!: set_takeWhileD)
    ultimately show "set (map (deliver b ?m) (takeWhile (reachable_at E b) ts))
      \<noteq> set_mset (ps_deliveries (absb b) ?m)" by metis
  qed
  have "list_all (reachable_at E b) ts \<longleftrightarrow>
      (\<forall>c \<in> recipients b client (pub_topic_name k). be_open E (the (address b c)))"
    by (simp add: list_all_iff ts reachable_at_def)
  then show ?thesis
    using run out obs sub by (auto simp: listen_for_broker_msgs_def simp del: broker_turn.simps)
qed

definition sample_broker :: Broker where
  "sample_broker =
     \<lparr>b_config = config_new ''0.0.0.0'' 1883 3 20 30,
      b_clients = [''a'' \<mapsto> \<lparr>ci_client_tx = 1, ci_topics = {}\<rparr>, ''b'' \<mapsto> \<lparr>ci_client_tx = 7, ci_topics = {}\<rparr>],
      b_subscriptions = [''t'' \<mapsto> {''b''}], b_out = []\<rparr>"

lemma sample_broker_obs [simp]:
  "wf_broker sample_broker" "members sample_broker ''t'' = {''b''}" "address sample_broker ''b'' = Some 7"
  by (auto simp: sample_broker_def wf_broker_def members_def address_def split: if_splits)

theorem publish_to_closed_handler_ends_broker_witness:
  "\<exists>b'. \<forall>ms. listen_for_broker_msgs sample_env (BM_Publish ''a'' sample_message # ms) sample_broker
     = (Inl BrokerMsgSendFailure, b')"
proof -
  have "\<not> (\<forall>c \<in> recipients sample_broker ''a'' (pub_topic_name sample_message).
      be_open sample_env (the (address sample_broker c)))"
    by (simp add: recipients_def sample_message_def sample_env_def)
  then show ?thesis
    using publish_to_closed_handler_ends_broker [OF sample_env_ok(1) sample_broker_obs(1),
        of "''a''" sample_message] by blast
qed

text \<open>A disconnection removes the client's entry but none of its subscriptions: a client that
  connects again under the same identifier, on a new channel, receives what is published to
  the topics of the earlier connection without having subscribed.\<close>

theorem reconnection_inherits_subscriptions:
  assumes "env_ok E" "wf_broker b" "\<forall>tx. be_open E tx"
    and "c \<in> members b (pub_topic_name k)" "client \<noteq> c"
  shows "\<exists>b' sent.
    listen_for_broker_msgs E [ClientDisconnected c, ClientConnected c tx, BM_Publish client k] b
      = (Inr (), b') \<and>
    b_out b' = b_out b @ sent \<and> (tx, BM_Publish client k) \<in> set sent"
proof -
  define p where "p = ps_step (ClientConnected c tx) (ps_step (ClientDisconnected c) (absb b))"
  obtain b' sent where run: "listen_for_broker_msgs E
        [ClientDisconnected c, ClientConnected c tx, BM_Publish client k] b = (Inr (), b')"
    and out: "b_out b' = b_out b @ sent" "mset sent = ps_deliveries p (BM_Publish client k)"
    using broker_run_refines [OF assms(2,1,3), of "[ClientDisconnected c, ClientConnected c tx,
        BM_Publish client k]"] by (auto simp: p_def)
  have "ps_recipients p client (pub_topic_name k) \<subseteq> members b (pub_topic_name k)"
    by (auto simp: p_def ps_recipients_def)
  then have "finite (ps_recipients p client (pub_topic_name k))"
    using assms(2) finite_members finite_subset by blast
  moreover have "c \<in> ps_recipients p client (pub_topic_name k)" "ps_address p c = Some tx"
    using assms(4,5) by (simp_all add: p_def ps_recipients_def)
  ultimately have "(tx, BM_Publish client k) \<in> set_mset (mset sent)"
    unfolding out by force
  then show ?thesis using run out(1) by auto
qed

theorem reconnection_inherits_subscriptions_witness:
  "\<exists>b' sent.
    listen_for_broker_msgs (sample_env\<lparr>be_open := \<lambda>_. True\<rparr>)
      [ClientDisconnected ''b'', ClientConnected ''b'' 8, BM_Publish ''a'' sample_message] sample_broker
      = (Inr (), b') \<and>
    b_out b' = b_out sample_broker @ sent \<and> (8, BM_Publish ''a'' sample_message) \<in> set sent"
  by (rule reconnection_inherits_subscriptions) (simp_all add: sample_message_def)

end
