(* ===== verification/Broker_System.thy ===== *)
theory Broker_System
  imports Client_Handler Broker_State
begin

section \<open>The broker process\<close>

text \<open>
  \<open>Broker::run\<close> starts the accept loop and the broker task; the accept loop starts one client
  handler task per connection; sessions start retry tasks. This theory puts the tasks of
  \<open>Client_Handler\<close> and \<open>Broker_State\<close> together, with the channels between them. An \<open>action\<close>
  is one step of one task:
  \<^item> \<open>Accept\<close>: \<open>listen_for_new_connections\<close> accepts a connection and spawns a handler;
  \<^item> \<open>Net i e\<close>, \<open>Inbox i\<close>: handler \<open>i\<close> takes an event of its TCP stream, or the first message of
    its channel, and runs one turn of its loop;
  \<^item> \<open>Forward i\<close>: the next message that handler \<open>i\<close> sends enters the channel of the broker. A
    handler waits until its messages are in the channel before it takes another event, or
    drops its receiver at the end of \<open>run\<close>;
  \<^item> \<open>Serve\<close>: the broker task takes the first message of its channel and serves it; \<open>Deliver\<close>: it makes
    the next of the sends that serving the message asks for;
  \<^item> \<open>Retry i k\<close>, \<open>Timeout i\<close>: a timer of a retry task, or of \<open>execute_after_delay\<close>, runs out, and
    the task sends its message.
  All channels are bounded. A send into a full channel waits, so the step that makes it is not
  possible until there is room.
\<close>

record platform =
  pf_mqttrs :: mqttrs_api
  pf_info :: bool
  pf_iter :: "string set \<Rightarrow> string list"
  pf_iter_topics :: "SubscribeTopic set \<Rightarrow> SubscribeTopic list"

definition platform_ok :: "platform \<Rightarrow> bool" where
  "platform_ok P \<longleftrightarrow> iterates (pf_iter P) \<and> iterates (pf_iter_topics P)"

text \<open>The capacities of the broker's channel and of the channel of a handler.\<close>

definition BROKER_MSG_CHANNEL_CAPACITY :: nat where
  "BROKER_MSG_CHANNEL_CAPACITY = 100"

definition BROKER_MSG_CAPACITY :: nat where
  "BROKER_MSG_CAPACITY = 100"

text \<open>Why the process has stopped: the broker task has returned an error, so \<open>Broker::run\<close> returns,
  or a task has overflowed its stack.\<close>

datatype halt = BrokerError error | Aborted

text \<open>\<open>y_pending\<close> are the sends that the broker task has still to make for the message it serves. The task
  owns the maps, so nothing changes between them. \<open>y_trace\<close> is not part of the program: it records
  who has put what into the channel of the broker since the start.\<close>

record system =
  y_broker :: Broker
  y_queue :: "BrokerMsg list"
  y_pending :: "(sender \<times> BrokerMsg) list"
  y_handlers :: "sender \<rightharpoonup> ClientHandler"
  y_running :: "sender set"
  y_leaving :: "sender set"
  y_inbox :: "sender \<Rightarrow> BrokerMsg list"
  y_sent :: "sender \<Rightarrow> nat"
  y_next :: sender
  y_halted :: "halt option"
  y_trace :: "(sender \<times> BrokerMsg) list"

definition broker_run :: "Config \<Rightarrow> system" where
  "broker_run config =
     \<lparr>y_broker = broker_new config, y_queue = [], y_pending = [], y_handlers = Map.empty,
      y_running = {}, y_leaving = {}, y_inbox = (\<lambda>_. []), y_sent = (\<lambda>_. 0), y_next = 0, y_halted = None, y_trace = []\<rparr>"

datatype action =
  Accept string | Net sender event "nat \<Rightarrow> bool" | Inbox sender "nat \<Rightarrow> bool" | Forward sender
| Serve | Deliver | Retry sender nat | Timeout sender

subsection \<open>The steps\<close>

definition spawn_handler :: "string \<Rightarrow> system \<Rightarrow> system" where
  "spawn_handler addr y =
     y\<lparr>y_handlers := (y_handlers y)(y_next y \<mapsto> handler_new (b_config (y_broker y)) addr (y_next y)),
       y_running := insert (y_next y) (y_running y), y_next := Suc (y_next y)\<rparr>"

text \<open>All messages of the handler have reached the channel of the broker.\<close>

definition flushed :: "system \<Rightarrow> sender \<Rightarrow> bool" where
  "flushed y i \<longleftrightarrow>
     (case y_handlers y i of None \<Rightarrow> True | Some h \<Rightarrow> length (h_broker_tx h) \<le> y_sent y i)"

text \<open>\<open>broker_rx\<close> belongs to \<open>listen_for_messages\<close>. A handler whose stream was closed says goodbye to
  the broker inside that function, so it holds its receiver until the last message is in the
  channel; one that fails says goodbye after the function has returned.\<close>

definition receiver_open :: "system \<Rightarrow> sender \<Rightarrow> bool" where
  "receiver_open y i \<longleftrightarrow> i \<in> y_running y \<or> i \<in> y_leaving y \<and> \<not> flushed y i"

text \<open>One turn of a handler that is waiting in its loop. A task that ends is no longer running; its
  error is only logged. The broker holds its receiver as long as the process lives, so a
  send to it succeeds.\<close>

definition handler_turn ::
    "platform \<Rightarrow> sender \<Rightarrow> event \<Rightarrow> (nat \<Rightarrow> bool) \<Rightarrow> system \<Rightarrow> system option" where
  "handler_turn P i e tcp y =
     (case y_handlers y i of
        None \<Rightarrow> None
      | Some h \<Rightarrow>
          if i \<notin> y_running y \<or> \<not> flushed y i then None
          else
            (case handler_run \<lparr>w_mqttrs = pf_mqttrs P, w_tcp_ok = tcp, w_broker_ok = (\<lambda>_. True),
                    w_info = pf_info P\<rparr> [e] h of
               (Inr True, h') \<Rightarrow> Some (y\<lparr>y_handlers := (y_handlers y)(i \<mapsto> h')\<rparr>)
             | (Inl StackOverflow, _) \<Rightarrow> Some (y\<lparr>y_halted := Some Aborted\<rparr>)
             | (r, h') \<Rightarrow>
                 Some (y\<lparr>y_handlers := (y_handlers y)(i \<mapsto> h'), y_running := y_running y - {i},
                   y_leaving := (if r = Inr False then insert i (y_leaving y) else y_leaving y)\<rparr>)))"

definition post :: "(sender \<times> BrokerMsg) list \<Rightarrow> (sender \<Rightarrow> BrokerMsg list) \<Rightarrow> (sender \<Rightarrow> BrokerMsg list)" where
  "post out inbox = (\<lambda>i. inbox i @ map snd (filter (\<lambda>(tx, m). tx = i) out))"

text \<open>The sends are collected as if every receiver were there; \<open>Deliver\<close> finds out whether it is.\<close>

definition env_of :: "platform \<Rightarrow> broker_env" where
  "env_of P = \<lparr>be_iter = pf_iter P, be_iter_topics = pf_iter_topics P, be_open = (\<lambda>_. True)\<rparr>"

definition serve_turn :: "platform \<Rightarrow> system \<Rightarrow> system option" where
  "serve_turn P y =
     (if y_pending y \<noteq> [] then None
      else
        (case y_queue y of
           [] \<Rightarrow> None
         | m # q \<Rightarrow>
             (case broker_turn (env_of P) m (y_broker y) of
                (r, b') \<Rightarrow>
                  Some (y\<lparr>y_broker := b', y_queue := q,
                    y_pending := drop (length (b_out (y_broker y))) (b_out b'),
                    y_halted := (case r of Inl e \<Rightarrow> Some (BrokerError e) | Inr _ \<Rightarrow> None)\<rparr>))))"

definition deliver_turn :: "system \<Rightarrow> system option" where
  "deliver_turn y =
     (case y_pending y of
        [] \<Rightarrow> None
      | (client_tx, msg) # out \<Rightarrow>
          if \<not> receiver_open y client_tx then Some (y\<lparr>y_halted := Some (BrokerError BrokerMsgSendFailure)\<rparr>)
          else if length (y_inbox y client_tx) < BROKER_MSG_CAPACITY then
            Some (y\<lparr>y_pending := out, y_inbox := post [(client_tx, msg)] (y_inbox y)\<rparr>)
          else None)"

fun act :: "platform \<Rightarrow> action \<Rightarrow> system \<Rightarrow> system option" where
  "act P (Accept addr) y = Some (spawn_handler addr y)"
| "act P (Net i e tcp) y =
     (case e of FromBroker _ \<Rightarrow> None | ChannelClosed \<Rightarrow> None | _ \<Rightarrow> handler_turn P i e tcp y)"
| "act P (Inbox i tcp) y =
     (case y_inbox y i of
        [] \<Rightarrow> None
      | m # ms \<Rightarrow>
          map_option (\<lambda>y'. y'\<lparr>y_inbox := (y_inbox y')(i := ms)\<rparr>) (handler_turn P i (FromBroker m) tcp y))"
| "act P (Forward i) y =
     (case y_handlers y i of
        None \<Rightarrow> None
      | Some h \<Rightarrow>
          if flushed y i \<or> length (y_queue y) \<ge> BROKER_MSG_CHANNEL_CAPACITY then None
          else
            (let m = h_broker_tx h ! y_sent y i
             in Some (y\<lparr>y_queue := y_queue y @ [m], y_sent := (y_sent y)(i := Suc (y_sent y i)),
                  y_trace := y_trace y @ [(i, m)]\<rparr>)))"
| "act P Serve y = serve_turn P y"
| "act P Deliver y = deliver_turn y"
| "act P (Retry i k) y =
     (case y_handlers y i of
        None \<Rightarrow> None
      | Some h \<Rightarrow>
          if i \<notin> y_running y then None
          else
            (case pool_tick k (h_tasks h) of
               (out, tasks) \<Rightarrow>
                 if (case out of None \<Rightarrow> False | Some (tx, _) \<Rightarrow> length (y_inbox y tx) \<ge> BROKER_MSG_CAPACITY)
                 then None
                 else
                   Some (y\<lparr>y_handlers := (y_handlers y)(i \<mapsto> h\<lparr>h_tasks := tasks\<rparr>),
                     y_inbox := post (case out of None \<Rightarrow> [] | Some o1 \<Rightarrow> [o1]) (y_inbox y)\<rparr>)))"
| "act P (Timeout i) y =
     (case y_handlers y i of
        None \<Rightarrow> None
      | Some h \<Rightarrow>
          if i \<in> y_running y \<and> h_connect_timeout h \<and> length (y_inbox y i) < BROKER_MSG_CAPACITY then
            Some (y\<lparr>y_handlers := (y_handlers y)(i \<mapsto> h\<lparr>h_connect_timeout := False\<rparr>),
              y_inbox := post [(i, ClientConnectionTimeout)] (y_inbox y)\<rparr>)
          else None)"

text \<open>The states the process can reach: any task that can step may be next, until the process halts.\<close>

inductive reach :: "platform \<Rightarrow> Config \<Rightarrow> system \<Rightarrow> bool" for P config where
  reach_init: "reach P config (broker_run config)"
| reach_step: "reach P config y \<Longrightarrow> y_halted y = None \<Longrightarrow> act P a y = Some y' \<Longrightarrow> reach P config y'"

fun acts :: "platform \<Rightarrow> action list \<Rightarrow> system \<Rightarrow> system option" where
  "acts P [] y = Some y"
| "acts P (a # as) y =
     (if y_halted y = None then Option.bind (act P a y) (acts P as) else None)"

lemma acts_append: "acts P (as @ bs) y = Option.bind (acts P as y) (acts P bs)"
proof (induction as arbitrary: y)
  case (Cons a as)
  then show ?case by (cases "act P a y") simp_all
qed simp

lemma reach_acts: "reach P config y \<Longrightarrow> acts P as y = Some y' \<Longrightarrow> reach P config y'"
proof (induction as arbitrary: y)
  case (Cons a as)
  then obtain y1 where "y_halted y = None" "act P a y = Some y1" "acts P as y1 = Some y'"
    by (auto split: if_splits simp: bind_eq_Some_conv)
  then show ?case using Cons.IH reach_step [OF Cons.prems(1)] by blast
qed simp

subsection \<open>Handlers only add to what they have sent\<close>

definition extends :: "BrokerMsg list \<Rightarrow> ClientHandler \<Rightarrow> bool" where
  "extends l h \<longleftrightarrow> (\<exists>ext. h_broker_tx h = l @ ext)"

lemma extends_refl [simp]: "extends (h_broker_tx h) h"
  by (simp add: extends_def)

lemma extends_send_broker [keeps]: "keeps (extends l) (\<lambda>_. True) (send_broker W m)"
  by (rule keepsI) (auto simp: send_broker_def extends_def split: if_splits)

lemma extends_send_client [keeps]: "keeps (extends l) (\<lambda>_. True) (send_client W k)"
  by (rule keepsI) (auto simp: send_client_def extends_def split: prod.splits)

lemma extends_print_self [keeps]: "keeps (extends l) (\<lambda>_. True) print_self"
  by (rule keepsI) (auto simp: print_self_def split: option.splits)

lemma extends_get_session [keeps]: "keeps (extends l) (\<lambda>_. True) get_session"
  by (rule keepsI)
    (auto simp: get_session_def print_self_def split: ClientState.splits option.splits)

lemma extends_session_update_qos [keeps]: "keeps (extends l) (\<lambda>_. True) (session_update_qos p k)"
  by (rule keepsI)
    (auto simp: session_update_qos_def extends_def split: ClientState.splits prod.splits)

lemma extends_violation [keeps]: "keeps (extends l) (\<lambda>_. True) violation_by_self"
  unfolding violation_by_self_def by (intro keeps) simp

lemma extends_handle_packet [keeps]: "keeps (extends l) (\<lambda>_. True) (handle_packet W pkt)"
  by (cases pkt)
    (auto simp: packet_handler_defs handle_disconnect_def extends_def Let_def split: QosPid.splits
      intro!: keeps keeps_modify)

lemma extends_update_state [keeps]: "keeps (extends l) (\<lambda>_. True) (update_state W pkt)"
proof (rule keepsI)
  fix h r t
  assume "extends l h" "update_state W pkt h = (r, t)"
  then show "extends l t \<and> (\<forall>e. r = Inl e \<longrightarrow> True)"
    by (cases "h_state h"; cases pkt)
      (auto simp: update_state_def Let_def andthen_def bnd_def send_broker_def extends_def split: if_splits)
qed

lemma extends_on_client_disconnect [keeps]: "keeps (extends l) (\<lambda>_. True) (on_client_disconnect W)"
proof (rule keepsI)
  fix h r t
  assume "extends l h" "on_client_disconnect W h = (r, t)"
  then show "extends l t \<and> (\<forall>e. r = Inl e \<longrightarrow> True)"
    by (cases "h_state h")
      (auto simp: on_client_disconnect_def andthen_def bnd_def send_broker_def extends_def
        split: if_splits option.splits)
qed

lemma extends_decode_broker_msg [keeps]: "keeps (extends l) (\<lambda>_. True) (decode_broker_msg W m)"
proof (cases m)
  case ClientConnectionTimeout
  then show ?thesis
    by (auto simp: decode_broker_msg_def handle_connection_timeout_def intro!: keepsI
        split: ClientState.splits)
qed (auto simp: decode_broker_msg_def handle_broker_qos_retry_def split: QosPid.splits intro!: keeps)

lemma extends_listen_turn [keeps]: "keeps (extends l) (\<lambda>_. True) (listen_turn W e)"
  by (cases e) (auto split: sum.splits option.splits intro!: keeps)

lemma extends_listen [keeps]: "keeps (extends l) (\<lambda>_. True) (listen_for_messages W es)"
proof (induction es)
  case Nil
  show ?case unfolding listen_for_messages.simps by (rule keeps_ok)
next
  case (Cons e es)
  then show ?case
    unfolding listen_for_messages.simps by (intro keeps_bnd extends_listen_turn keeps_if keeps_ok)
qed

lemma handler_run_extends:
  assumes "handler_run W es h = (r, t)"
  shows "\<exists>ext. h_broker_tx t = h_broker_tx h @ ext"
proof -
  obtain r1 h1 where l: "listen_for_messages W es h = (r1, h1)" by fastforce
  have e1: "extends (h_broker_tx h) h1"
    using keeps_run [OF extends_listen extends_refl l] .
  have "extends (h_broker_tx h) t"
  proof (cases "\<exists>e. r1 = Inl (Err e)")
    case True
    then obtain e where run: "andthen (on_client_disconnect W) (fail (Err e)) h1 = (r, t)"
      using assms l by (auto simp: handler_run_def)
    have "keeps (extends (h_broker_tx h)) (\<lambda>_. True)
        (andthen (on_client_disconnect W) (fail (Err e)))"
      by (auto intro!: keeps)
    from keeps_run [OF this e1 run] show ?thesis .
  next
    case False
    then consider "r1 = Inl StackOverflow" | x where "r1 = Inr x"
      by (metis failure.exhaust sum.exhaust)
    then have "t = h1" by cases (use assms l in \<open>auto simp: handler_run_def\<close>)
    then show ?thesis using e1 by simp
  qed
  then show ?thesis by (simp add: extends_def)
qed

text \<open>A handler overflows its stack only when a client that never connected closes its stream and
  \<open>info!\<close> messages are enabled, or when an idle handler is sent something other than the
  connection timeout.\<close>

lemma handler_run_overflow:
  assumes "wf_handler i h" "\<And>n. w_broker_ok W n" "handler_run W [e] h = (Inl StackOverflow, t)"
    and "e \<noteq> ChannelClosed"
  shows "h_broker_tx h = [] \<and> (e = StreamClosed \<and> w_info W \<or> (\<exists>m. e = FromBroker m \<and> m \<noteq> ClientConnectionTimeout))"
proof -
  have run: "listen_turn W e h = (Inl StackOverflow, t)"
  proof -
    obtain r1 h1 where turn: "listen_turn W e h = (r1, h1)" by fastforce
    consider (err) x where "r1 = Inl (Err x)" | (over) "r1 = Inl StackOverflow" | (fine) x where "r1 = Inr x"
      by (metis failure.exhaust sum.exhaust)
    then show ?thesis
    proof cases
      case err
      then have "listen_for_messages W [e] h = (Inl (Err x), h1)" using listen_Cons [OF turn] by simp
      then show ?thesis
        using assms(3) on_client_disconnect_farewell [OF assms(2), of h1]
        by (simp add: handler_run_def)
    next
      case over
      then have "listen_for_messages W [e] h = (Inl StackOverflow, h1)" using listen_Cons [OF turn] by simp
      then show ?thesis using assms(3) turn over by (simp add: handler_run_def)
    next
      case fine
      then have "listen_for_messages W [e] h = (Inr x, h1)" using listen_Cons [OF turn] by simp
      then show ?thesis using assms(3) by (simp add: handler_run_def)
    qed
  qed
  have idle: "idle i h"
  proof (rule ccontr)
    assume "\<not> idle i h"
    with assms(1) obtain cid where c: "conn cid i h" by (auto simp: wf_handler_def)
    show False
    proof (cases "e = StreamClosed")
      case True
      with run have "listen_turn W StreamClosed h = (Inl StackOverflow, t)" by simp
      with c show False using on_client_disconnect_farewell [OF assms(2), of h]
        by (auto simp: conn_def)
    next
      case False
      with keeps_error [OF turn_conn [OF False] c run] show False by simp
    qed
  qed
  show ?thesis
  proof (cases e)
    case (Frame bs)
    with run turn_idle_frame [OF idle, of W bs] show ?thesis by auto
  next
    case StreamClosed
    then show ?thesis
      using run idle on_client_disconnect_farewell [OF assms(2), of h]
      by (cases "w_info W") (auto simp: idle_def)
  next
    case (FromBroker m)
    then show ?thesis
      using run idle by (auto simp: idle_def decode_broker_msg_def handle_connection_timeout_def)
  qed (use run assms(4) in auto)
qed

subsection \<open>The invariant of the process\<close>

text \<open>What handler \<open>i\<close> has sent so far, and what is in the channel of the broker or was served.\<close>

definition log_of :: "system \<Rightarrow> sender \<Rightarrow> BrokerMsg list" where
  "log_of y i = (case y_handlers y i of None \<Rightarrow> [] | Some h \<Rightarrow> h_broker_tx h)"

definition arrived :: "system \<Rightarrow> BrokerMsg list" where
  "arrived y = map snd (y_trace y)"

definition handlers_ok :: "system \<Rightarrow> bool" where
  "handlers_ok y \<longleftrightarrow> (\<forall>i. case y_handlers y i of
      None \<Rightarrow> y_sent y i = 0 \<and> i \<notin> y_running y \<and> y_inbox y i = []
    | Some h \<Rightarrow> i < y_next y \<and> y_sent y i \<le> length (h_broker_tx h) \<and>
        (if i \<in> y_running y then wf_handler i h else closed_log i (h_broker_tx h)))"

text \<open>The channel of the broker keeps the order of each sender, and the broker has served a prefix.\<close>

definition trace_ok :: "system \<Rightarrow> bool" where
  "trace_ok y \<longleftrightarrow>
     (\<forall>i. map snd (filter (\<lambda>(j, m). j = i) (y_trace y)) = take (y_sent y i) (log_of y i)) \<and>
     wf_broker (y_broker y) \<and>
     (\<exists>served. arrived y = served @ y_queue y \<and> absb (y_broker y) = fold ps_step served ps_init)"

text \<open>What may be in the channel of a handler, given the messages it has sent and those that have
  arrived at the broker.\<close>

fun inbox_msg :: "BrokerMsg set \<Rightarrow> BrokerMsg set \<Rightarrow> sender \<Rightarrow> BrokerMsg \<Rightarrow> bool" where
  "inbox_msg own arr i ClientConnectionTimeout \<longleftrightarrow> True"
| "inbox_msg own arr i (QoSRetry c k) \<longleftrightarrow> ClientConnected c i \<in> own"
| "inbox_msg own arr i (BM_Publish client k) \<longleftrightarrow>
     (\<exists>c. ClientConnected c i \<in> own \<and> c \<noteq> client \<and> BM_Publish client k \<in> arr \<and>
        (\<exists>m \<in> arr. asks c (pub_topic_name k) m))"
| "inbox_msg own arr i _ \<longleftrightarrow> False"

definition inbox_ok :: "system \<Rightarrow> bool" where
  "inbox_ok y \<longleftrightarrow>
     (\<forall>i. \<forall>m \<in> set (y_inbox y i). inbox_msg (set (log_of y i)) (set (arrived y)) i m) \<and>
     (\<forall>(i, m) \<in> set (y_pending y).
        m \<noteq> ClientConnectionTimeout \<and> inbox_msg (set (log_of y i)) (set (arrived y)) i m)"

lemma inbox_okD:
  assumes "inbox_ok y"
  shows "m \<in> set (y_inbox y i) \<Longrightarrow> inbox_msg (set (log_of y i)) (set (arrived y)) i m"
    "(i, m) \<in> set (y_pending y) \<Longrightarrow> m \<noteq> ClientConnectionTimeout \<and> inbox_msg (set (log_of y i)) (set (arrived y)) i m"
  using assms by (auto simp: inbox_ok_def)

fun halt_ok :: "platform \<Rightarrow> halt option \<Rightarrow> bool" where
  "halt_ok P None \<longleftrightarrow> True"
| "halt_ok P (Some (BrokerError e)) \<longleftrightarrow> e = BrokerMsgSendFailure"
| "halt_ok P (Some Aborted) \<longleftrightarrow> pf_info P"

definition system_ok :: "platform \<Rightarrow> system \<Rightarrow> bool" where
  "system_ok P y \<longleftrightarrow> handlers_ok y \<and> trace_ok y \<and> inbox_ok y \<and> halt_ok P (y_halted y) \<and>
     (\<forall>i \<ge> y_next y. y_handlers y i = None)"

lemma inbox_msg_mono:
  "inbox_msg own arr i m \<Longrightarrow> own \<subseteq> own' \<Longrightarrow> arr \<subseteq> arr' \<Longrightarrow> inbox_msg own' arr' i m"
  by (cases m) auto

lemma inbox_msg_idle: "inbox_msg {} arr i m \<Longrightarrow> m = ClientConnectionTimeout"
  by (cases m) auto

lemma in_selected: "(i, m) \<in> set out \<Longrightarrow> m \<in> set (map snd (filter (\<lambda>(tx, m). tx = i) out))"
  by force

lemma in_post: "m \<in> set (post out inbox i) \<longleftrightarrow> m \<in> set (inbox i) \<or> (i, m) \<in> set out"
  by (auto simp: post_def image_iff)

lemma handlers_okD:
  assumes "handlers_ok y"
  shows "y_handlers y i = Some h \<Longrightarrow> i < y_next y" "y_handlers y i = Some h \<Longrightarrow> y_sent y i \<le> length (h_broker_tx h)"
    "y_handlers y i = Some h \<Longrightarrow> i \<in> y_running y \<Longrightarrow> wf_handler i h"
    "y_handlers y i = Some h \<Longrightarrow> i \<notin> y_running y \<Longrightarrow> closed_log i (h_broker_tx h)"
    "y_handlers y i = None \<Longrightarrow> y_sent y i = 0 \<and> i \<notin> y_running y \<and> y_inbox y i = []"
  using assms [unfolded handlers_ok_def, rule_format, of i] by (auto split: if_splits)

lemma system_ok_init: "system_ok P (broker_run config)"
  by (auto simp: system_ok_def broker_run_def handlers_ok_def trace_ok_def inbox_ok_def log_of_def
      arrived_def)

text \<open>A message that registers a channel can only come from the handler that owns it.\<close>

lemma requests_no_connect [simp]:
  "list_all (request_of cid) reqs \<Longrightarrow> ClientConnected c tx \<notin> set reqs"
  by (induction reqs) auto

lemma wf_handler_connected:
  "wf_handler i h \<Longrightarrow> ClientConnected c tx \<in> set (h_broker_tx h) \<Longrightarrow> tx = i"
  by (auto simp: wf_handler_def idle_def conn_def elim!: conversationE)

lemma closed_log_connected: "closed_log i l \<Longrightarrow> ClientConnected c tx \<in> set l \<Longrightarrow> tx = i"
  by (auto simp: closed_log_def)

lemma log_requests:
  assumes "handlers_ok y" "m \<in> set (log_of y i)"
  shows "is_request m" "\<And>c tx. m = ClientConnected c tx \<Longrightarrow> tx = i"
proof -
  obtain h where h: "y_handlers y i = Some h" "m \<in> set (h_broker_tx h)"
    using assms(2) by (cases "y_handlers y i") (auto simp: log_of_def)
  have req: "request_of c x \<Longrightarrow> is_request x" for c x by (cases x) auto
  show "is_request m"
    using h handlers_okD(3,4) [OF assms(1) h(1)] req
    by (cases "i \<in> y_running y")
      (fastforce simp: wf_handler_def idle_def conn_def closed_log_def list_all_iff elim!: conversationE)+
  show "tx = i" if "m = ClientConnected c tx" for c tx
    using that h handlers_okD(3,4) [OF assms(1) h(1)] wf_handler_connected closed_log_connected
    by (cases "i \<in> y_running y") blast+
qed

text \<open>A handler's first message registers its client, and all later ones name that client.\<close>

lemma log_opens:
  assumes "handlers_ok y" "log_of y i \<noteq> []"
  obtains c rest where "log_of y i = ClientConnected c i # rest"
    "\<And>m. m \<in> set rest \<Longrightarrow> request_of c m \<or> m = ClientDisconnected c"
proof -
  obtain h where h: "y_handlers y i = Some h" "log_of y i = h_broker_tx h" "h_broker_tx h \<noteq> []"
    using assms(2) by (cases "y_handlers y i") (auto simp: log_of_def)
  have "(\<exists>c. conversation c i (h_broker_tx h)) \<or> closed_log i (h_broker_tx h)"
    using handlers_okD(3,4) [OF assms(1) h(1)] h(3)
    by (cases "i \<in> y_running y") (auto simp: wf_handler_def idle_def conn_def)
  then show thesis
    using h(2,3) that by (fastforce simp: closed_log_def list_all_iff elim!: conversationE)
qed

lemma request_owner:
  assumes "handlers_ok y" "request_of c m" "m \<in> set (log_of y i)"
  shows "\<exists>rest. log_of y i = ClientConnected c i # rest \<and> m \<in> set rest"
proof -
  obtain c' rest where log: "log_of y i = ClientConnected c' i # rest"
      "\<And>x. x \<in> set rest \<Longrightarrow> request_of c' x \<or> x = ClientDisconnected c'"
    using log_opens [OF assms(1), of i] assms(3) by (metis empty_iff empty_set)
  have "m \<in> set rest" using assms(2,3) log(1) by auto
  moreover from log(2) [OF this] assms(2) have "c' = c" by (cases m) auto
  ultimately show ?thesis using log(1) by simp
qed

subsection \<open>Every step keeps the invariant\<close>

lemma log_ofs [simp]:
  "y_handlers y i = Some h \<Longrightarrow> log_of y i = h_broker_tx h" "y_handlers y i = None \<Longrightarrow> log_of y i = []"
  by (simp_all add: log_of_def)

lemma halted_irrelevant [simp]:
  "handlers_ok (y\<lparr>y_halted := x\<rparr>) = handlers_ok y" "trace_ok (y\<lparr>y_halted := x\<rparr>) = trace_ok y"
  "inbox_ok (y\<lparr>y_halted := x\<rparr>) = inbox_ok y"
  by (simp_all add: handlers_ok_def trace_ok_def inbox_ok_def log_of_def arrived_def cong: option.case_cong)

text \<open>Steps that change neither the broker nor its channel.\<close>

lemma trace_ok_grow:
  assumes "trace_ok y" "handlers_ok y"
    and "y_trace y' = y_trace y" "y_sent y' = y_sent y" "y_broker y' = y_broker y" "y_queue y' = y_queue y"
    and "\<And>i. \<exists>ext. log_of y' i = log_of y i @ ext"
  shows "trace_ok y'"
proof -
  have "y_sent y i \<le> length (log_of y i)" for i
    using handlers_okD(2,5) [OF assms(2), of i] by (cases "y_handlers y i") auto
  then have "take (y_sent y i) (log_of y' i) = take (y_sent y i) (log_of y i)" for i
    using assms(7) [of i] by auto
  with assms show ?thesis by (simp add: trace_ok_def arrived_def)
qed

lemma inbox_ok_grow:
  assumes "inbox_ok y" "set (arrived y) \<subseteq> set (arrived y')"
    and "\<And>i. set (log_of y i) \<subseteq> set (log_of y' i)"
    and "\<And>i m. m \<in> set (y_inbox y' i) \<Longrightarrow> m \<in> set (y_inbox y i) \<or>
      inbox_msg (set (log_of y' i)) (set (arrived y')) i m"
    and "\<And>i m. (i, m) \<in> set (y_pending y') \<Longrightarrow> (i, m) \<in> set (y_pending y) \<or>
      m \<noteq> ClientConnectionTimeout \<and> inbox_msg (set (log_of y' i)) (set (arrived y')) i m"
  shows "inbox_ok y'"
proof -
  note old = inbox_okD [OF assms(1)] and grow = inbox_msg_mono [OF _ assms(3,2)]
  have "inbox_msg (set (log_of y' i)) (set (arrived y')) i m" if "m \<in> set (y_inbox y' i)" for i m
    using assms(4) [OF that] old(1) grow by blast
  moreover have "m \<noteq> ClientConnectionTimeout \<and> inbox_msg (set (log_of y' i)) (set (arrived y')) i m"
    if "(i, m) \<in> set (y_pending y')" for i m
    using assms(5) [OF that] old(2) grow by blast
  ultimately show ?thesis unfolding inbox_ok_def by blast
qed

text \<open>Replacing the state of one handler by one that has sent the same and more.\<close>

lemma system_ok_handler:
  assumes ok: "system_ok P y" and h: "y_handlers y i = Some h" and h': "h_broker_tx h' = h_broker_tx h @ ext"
    and run: "i \<in> run' \<Longrightarrow> wf_handler i h'" "i \<notin> run' \<Longrightarrow> closed_log i (h_broker_tx h')"
    and others: "\<And>j. j \<noteq> i \<Longrightarrow> j \<in> run' \<longleftrightarrow> j \<in> y_running y"
    and inbox: "\<And>j m. m \<in> set (inbox' j) \<Longrightarrow> m \<in> set (y_inbox y j) \<or>
      j = i \<and> inbox_msg (set (h_broker_tx h')) (set (arrived y)) i m"
  shows "system_ok P (y\<lparr>y_handlers := (y_handlers y)(i \<mapsto> h'), y_running := run', y_leaving := leaving',
    y_inbox := inbox'\<rparr>)"
    (is "system_ok P ?y")
proof -
  have parts: "handlers_ok y" "trace_ok y" "inbox_ok y" "halt_ok P (y_halted y)"
      "\<forall>i \<ge> y_next y. y_handlers y i = None"
    using ok by (auto simp: system_ok_def)
  have log: "log_of ?y j = (if j = i then h_broker_tx h' else log_of y j)" for j
    by (simp add: log_of_def)
  have "handlers_ok ?y"
    unfolding handlers_ok_def
  proof
    fix j
    have "inbox' j = []" if "y_inbox y j = []" "j \<noteq> i"
      using inbox [of _ j] that by (metis equals0D list.set_intros(1) neq_Nil_conv set_empty)
    then show "case y_handlers ?y j of
        None \<Rightarrow> y_sent ?y j = 0 \<and> j \<notin> y_running ?y \<and> y_inbox ?y j = []
      | Some h \<Rightarrow> j < y_next ?y \<and> y_sent ?y j \<le> length (h_broker_tx h) \<and>
          (if j \<in> y_running ?y then wf_handler j h else closed_log j (h_broker_tx h))"
      using handlers_okD [OF parts(1), of j] run others [of j] h h'
      by (cases "j = i"; cases "y_handlers y j") (auto split: if_splits)
  qed
  moreover have "trace_ok ?y"
    by (rule trace_ok_grow [OF parts(2,1)]) (use h h' log in auto)
  moreover have "inbox_ok ?y"
    by (rule inbox_ok_grow [OF parts(3)]) (use h h' log inbox in \<open>auto simp: arrived_def\<close>)
  moreover have "i < y_next y" using handlers_okD(1) [OF parts(1) h] .
  ultimately show ?thesis using parts by (auto simp: system_ok_def)
qed

lemma spawn_ok:
  assumes "system_ok P y"
  shows "system_ok P (spawn_handler addr y)"
proof -
  have parts: "handlers_ok y" "trace_ok y" "inbox_ok y" "halt_ok P (y_halted y)"
      "\<forall>i \<ge> y_next y. y_handlers y i = None"
    using assms by (auto simp: system_ok_def)
  let ?n = "y_next y" and ?y = "spawn_handler addr y"
  have fresh: "y_handlers y ?n = None" using parts(5) by simp
  note empty = handlers_okD(5) [OF parts(1) fresh]
  have log: "log_of ?y j = log_of y j" for j
    using fresh by (simp add: log_of_def spawn_handler_def handler_new_def)
  have "handlers_ok ?y"
    unfolding handlers_ok_def
  proof
    fix j
    show "case y_handlers ?y j of
        None \<Rightarrow> y_sent ?y j = 0 \<and> j \<notin> y_running ?y \<and> y_inbox ?y j = []
      | Some h \<Rightarrow> j < y_next ?y \<and> y_sent ?y j \<le> length (h_broker_tx h) \<and>
          (if j \<in> y_running ?y then wf_handler j h else closed_log j (h_broker_tx h))"
      using handlers_okD [OF parts(1), of j] empty wf_handler_new [of ?n "b_config (y_broker y)" addr]
      by (cases "j = ?n"; cases "y_handlers y j") (auto simp: spawn_handler_def less_Suc_eq)
  qed
  moreover have "trace_ok ?y"
    by (rule trace_ok_grow [OF parts(2,1)]) (simp_all add: log, simp_all add: spawn_handler_def)
  moreover have "inbox_ok ?y"
    by (rule inbox_ok_grow [OF parts(3)]) (simp_all add: log, simp_all add: spawn_handler_def arrived_def)
  ultimately show ?thesis using parts(4,5) by (auto simp: system_ok_def spawn_handler_def)
qed

text \<open>One turn of a handler; \<open>post_turn\<close> takes the message it was run on out of its inbox.\<close>

definition post_turn :: "sender \<Rightarrow> event \<Rightarrow> system \<Rightarrow> system" where
  "post_turn i e y = (case e of FromBroker _ \<Rightarrow> y\<lparr>y_inbox := (y_inbox y)(i := tl (y_inbox y i))\<rparr> | _ \<Rightarrow> y)"

lemma handler_turn_cases:
  assumes "handler_turn P i e tcp y = Some y'"
  obtains h r h' W where "y_handlers y i = Some h" "i \<in> y_running y"
    "W = \<lparr>w_mqttrs = pf_mqttrs P, w_tcp_ok = tcp, w_broker_ok = (\<lambda>_. True), w_info = pf_info P\<rparr>"
    "handler_run W [e] h = (r, h')"
    "y' = (if r = Inl StackOverflow then y\<lparr>y_halted := Some Aborted\<rparr>
      else if r = Inr True then y\<lparr>y_handlers := (y_handlers y)(i \<mapsto> h')\<rparr>
      else y\<lparr>y_handlers := (y_handlers y)(i \<mapsto> h'), y_running := y_running y - {i},
             y_leaving := (if r = Inr False then insert i (y_leaving y) else y_leaving y)\<rparr>)"
proof -
  obtain h where h: "y_handlers y i = Some h" "i \<in> y_running y"
    using assms by (auto simp: handler_turn_def split: option.splits if_splits)
  let ?W = "\<lparr>w_mqttrs = pf_mqttrs P, w_tcp_ok = tcp, w_broker_ok = (\<lambda>_. True), w_info = pf_info P\<rparr>"
  obtain r h' where run: "handler_run ?W [e] h = (r, h')" by fastforce
  show ?thesis
    by (rule that [OF h refl run])
      (use assms h run in \<open>auto simp: handler_turn_def split: sum.splits failure.splits bool.splits if_splits\<close>)
qed

lemma handler_turn_ok:
  assumes ok: "system_ok P y" and turn: "handler_turn P i e tcp y = Some y'"
    and e: "e \<noteq> ChannelClosed" and msg: "\<And>m. e = FromBroker m \<Longrightarrow> m \<in> set (y_inbox y i)"
  shows "system_ok P (post_turn i e y')"
  using turn
proof (rule handler_turn_cases)
  fix h r h' W
  assume h: "y_handlers y i = Some h" "i \<in> y_running y"
    and W: "W = \<lparr>w_mqttrs = pf_mqttrs P, w_tcp_ok = tcp, w_broker_ok = (\<lambda>_. True), w_info = pf_info P\<rparr>"
    and run: "handler_run W [e] h = (r, h')"
    and y': "y' = (if r = Inl StackOverflow then y\<lparr>y_halted := Some Aborted\<rparr>
      else if r = Inr True then y\<lparr>y_handlers := (y_handlers y)(i \<mapsto> h')\<rparr>
      else y\<lparr>y_handlers := (y_handlers y)(i \<mapsto> h'), y_running := y_running y - {i},
             y_leaving := (if r = Inr False then insert i (y_leaving y) else y_leaving y)\<rparr>)"
  have parts: "handlers_ok y" "inbox_ok y" using ok by (auto simp: system_ok_def)
  have wf: "wf_handler i h" using handlers_okD(3) [OF parts(1) h] .
  obtain ext where ext: "h_broker_tx h' = h_broker_tx h @ ext"
    using handler_run_extends [OF run] by blast
  have bok: "\<And>n. w_broker_ok W n" by (simp add: W)
  have ends: "(r = Inr True \<and> wf_handler i h') \<or> (r = Inl StackOverflow \<and> idle i h') \<or>
      ((r = Inr False \<or> (\<exists>e. r = Inl (Err e) \<and> handler_error (Err e))) \<and> closed_log i (h_broker_tx h'))"
    using run_ends [OF bok wf _ run] e by simp
  have tl: "m \<in> set (tl xs) \<Longrightarrow> m \<in> set xs" for m and xs :: "BrokerMsg list" by (cases xs) auto
  define inbox' where "inbox' = y_inbox (post_turn i e y)"
  have inbox: "m \<in> set (inbox' j) \<Longrightarrow> m \<in> set (y_inbox y j)" for j m
    by (auto simp: inbox'_def post_turn_def dest: tl split: event.splits if_splits)
  show "system_ok P (post_turn i e y')"
  proof (cases "r = Inl StackOverflow")
    case True
    with handler_run_overflow [OF wf bok] run e
    have o: "h_broker_tx h = [] \<and> (e = StreamClosed \<and> w_info W \<or>
        (\<exists>m. e = FromBroker m \<and> m \<noteq> ClientConnectionTimeout))" by blast
    have "e = StreamClosed \<and> w_info W"
    proof (rule ccontr)
      assume "\<not> ?thesis"
      with o obtain m where m: "e = FromBroker m" "m \<noteq> ClientConnectionTimeout" by blast
      with msg parts(2) have "inbox_msg (set (log_of y i)) (set (arrived y)) i m"
        using inbox_okD(1) by blast
      with m(2) o h show False using inbox_msg_idle by simp
    qed
    with ok y' True W show ?thesis by (simp add: system_ok_def post_turn_def)
  next
    case False
    define run' leaving' where "run' = y_running y'" and "leaving' = y_leaving y'"
    have "post_turn i e y' = y\<lparr>y_handlers := (y_handlers y)(i \<mapsto> h'), y_running := run',
        y_leaving := leaving', y_inbox := inbox'\<rparr>"
      using False by (cases e) (simp_all add: y' run'_def leaving'_def inbox'_def post_turn_def)
    moreover have "system_ok P \<dots>"
      by (rule system_ok_handler [OF ok h(1) ext])
        (use False ends h(2) inbox in \<open>auto simp: run'_def y' split: if_splits\<close>)
    ultimately show ?thesis by simp
  qed
qed

lemma retry_ok:
  assumes ok: "system_ok P y" and step: "act P (Retry i k) y = Some y'"
  shows "system_ok P y'"
proof -
  obtain h where h: "y_handlers y i = Some h" "i \<in> y_running y"
    using step by (auto split: option.splits if_splits)
  obtain out tasks where tick: "pool_tick k (h_tasks h) = (out, tasks)" by fastforce
  define inbox' where "inbox' = post (case out of None \<Rightarrow> [] | Some o1 \<Rightarrow> [o1]) (y_inbox y)"
  let ?h = "h\<lparr>h_tasks := tasks\<rparr>"
  have y': "y' = y\<lparr>y_handlers := (y_handlers y)(i \<mapsto> ?h), y_running := y_running y,
      y_leaving := y_leaving y, y_inbox := inbox'\<rparr>"
    using step h tick by (simp add: inbox'_def split: if_splits)
  have "wf_handler i h" using ok handlers_okD(3) [OF _ h] by (simp add: system_ok_def)
  then have wf: "wf_handler i ?h \<and> (\<forall>tx m. out = Some (tx, m) \<longrightarrow> tx = i \<and>
      inbox_msg (set (h_broker_tx h)) (set (arrived y)) i m)"
  proof (cases "idle i h")
    case True
    then have "out = None \<and> ?h = h" using tick by (auto simp: idle_def pool_tick_def empty_pool_def)
    then show ?thesis using \<open>wf_handler i h\<close> by simp
  next
    case False
    with \<open>wf_handler i h\<close> obtain c s where c: "conn c i h" "h_state h = Connected s" "s_id s = c"
        "wf_store (s, h_tasks h)" "s_client_tx s = i" "conversation c i (h_broker_tx h)"
      by (auto simp: wf_handler_def conn_def)
    have "conn c i ?h"
      using c(1) c(2) wf_pool_tick [OF c(4), of k] tick by (auto simp: conn_def)
    moreover have "ClientConnected c i \<in> set (h_broker_tx h)"
      using c(6) by (auto elim: conversationE)
    moreover have "tx = i \<and> inbox_msg (set (h_broker_tx h)) (set (arrived y)) i m"
      if "out = Some (tx, m)" for tx m
      using pool_tick_sends [OF c(4)] tick that c(3,5) calculation(2) by fastforce
    ultimately show ?thesis by (auto simp: wf_handler_def)
  qed
  show ?thesis
    unfolding y'
    by (rule system_ok_handler [OF ok h(1), of _ "[]"])
      (use h(2) wf in \<open>auto simp: inbox'_def in_post split: option.splits\<close>)
qed

lemma timeout_ok:
  assumes ok: "system_ok P y" and step: "act P (Timeout i) y = Some y'"
  shows "system_ok P y'"
proof -
  obtain h where h: "y_handlers y i = Some h" "i \<in> y_running y" "h_connect_timeout h"
    using step by (auto split: option.splits if_splits)
  have y': "y' = y\<lparr>y_handlers := (y_handlers y)(i \<mapsto> h\<lparr>h_connect_timeout := False\<rparr>),
      y_running := y_running y, y_leaving := y_leaving y,
      y_inbox := post [(i, ClientConnectionTimeout)] (y_inbox y)\<rparr>"
    using step h by (simp split: if_splits)
  have "wf_handler i h" using ok handlers_okD(3) [OF _ h(1,2)] by (simp add: system_ok_def)
  then have wf: "wf_handler i (h\<lparr>h_connect_timeout := False\<rparr>)"
    using h(3) by (auto simp: wf_handler_def idle_def conn_def)
  show ?thesis
    unfolding y'
    by (rule system_ok_handler [OF ok h(1), of _ "[]"]) (use h(2) wf in \<open>auto simp: in_post\<close>)
qed

lemma arrived_logged:
  assumes "trace_ok y" "m \<in> set (arrived y)"
  shows "\<exists>i. m \<in> set (log_of y i)"
proof -
  obtain i where "(i, m) \<in> set (y_trace y)" using assms(2) by (auto simp: arrived_def)
  then have "m \<in> set (map snd (filter (\<lambda>(j, m). j = i) (y_trace y)))" by force
  then have "m \<in> set (take (y_sent y i) (log_of y i))"
    using assms(1) unfolding trace_ok_def by metis
  then show ?thesis by (meson in_set_takeD)
qed

lemma forward_ok:
  assumes ok: "system_ok P y" and step: "act P (Forward i) y = Some y'"
  shows "system_ok P y'"
proof -
  have parts: "handlers_ok y" "trace_ok y" "inbox_ok y" "halt_ok P (y_halted y)"
      "\<forall>i \<ge> y_next y. y_handlers y i = None"
    using ok by (auto simp: system_ok_def)
  obtain h where h: "y_handlers y i = Some h" "y_sent y i < length (h_broker_tx h)"
    using step by (auto simp: flushed_def not_le split: option.splits if_splits)
  let ?m = "h_broker_tx h ! y_sent y i"
  have y': "y' = y\<lparr>y_queue := y_queue y @ [?m], y_sent := (y_sent y)(i := Suc (y_sent y i)),
      y_trace := y_trace y @ [(i, ?m)]\<rparr>"
    using step h by (simp add: flushed_def Let_def split: if_splits)
  have log: "log_of y' = log_of y" by (simp add: y' log_of_def fun_eq_iff)
  have "handlers_ok y'"
    unfolding handlers_ok_def
  proof
    fix j
    show "case y_handlers y' j of
        None \<Rightarrow> y_sent y' j = 0 \<and> j \<notin> y_running y' \<and> y_inbox y' j = []
      | Some h \<Rightarrow> j < y_next y' \<and> y_sent y' j \<le> length (h_broker_tx h) \<and>
          (if j \<in> y_running y' then wf_handler j h else closed_log j (h_broker_tx h))"
      using handlers_okD [OF parts(1), of j] h by (cases "j = i"; cases "y_handlers y j") (auto simp: y')
  qed
  moreover have "trace_ok y'"
    using parts(2) h log by (auto simp: trace_ok_def y' arrived_def take_Suc_conv_app_nth)
  moreover have "inbox_ok y'"
    by (rule inbox_ok_grow [OF parts(3)]) (auto simp: log, auto simp: y' arrived_def)
  ultimately show ?thesis using parts(4,5) by (simp add: system_ok_def y')
qed

lemma serve_ok:
  assumes P: "platform_ok P" and ok: "system_ok P y" and step: "serve_turn P y = Some y'"
  shows "system_ok P y'"
proof -
  have parts: "handlers_ok y" "trace_ok y" "inbox_ok y" "\<forall>i \<ge> y_next y. y_handlers y i = None"
    using ok by (auto simp: system_ok_def)
  obtain m q where q: "y_queue y = m # q" "y_pending y = []"
    using step by (auto simp: serve_turn_def split: list.splits if_splits)
  obtain served where served: "arrived y = served @ m # q" "absb (y_broker y) = fold ps_step served ps_init"
    and wf: "wf_broker (y_broker y)"
    using parts(2) q by (auto simp: trace_ok_def)
  let ?E = "env_of P"
  have E: "env_ok ?E" using P by (simp add: env_of_def env_ok_def platform_ok_def)
  obtain r b' where turn: "broker_turn ?E m (y_broker y) = (r, b')" by fastforce
  obtain sent where sent: "b_out b' = b_out (y_broker y) @ sent"
    "\<And>tx x. (tx, x) \<in> set sent \<Longrightarrow> \<exists>client k c. m = BM_Publish client k \<and> x = m \<and>
       c \<in> recipients (y_broker y) client (pub_topic_name k) \<and> address (y_broker y) c = Some tx"
    using broker_turn_sends [OF wf E turn] by metis
  have y': "y' = y\<lparr>y_broker := b', y_queue := q, y_pending := sent,
      y_halted := (case r of Inl e \<Rightarrow> Some (BrokerError e) | Inr _ \<Rightarrow> None)\<rparr>"
    using step q turn sent(1) by (simp add: serve_turn_def)
  have logged: "ClientConnected c tx \<in> set (log_of y tx)" if "ClientConnected c tx \<in> set (arrived y)" for c tx
    using arrived_logged [OF parts(2) that] log_requests(2) [OF parts(1)] by blast
  have new: "x \<noteq> ClientConnectionTimeout \<and> inbox_msg (set (log_of y i)) (set (arrived y)) i x"
    if "(i, x) \<in> set sent" for i x
  proof -
    obtain client k c where c: "m = BM_Publish client k" "x = m"
        "c \<in> recipients (y_broker y) client (pub_topic_name k)" "address (y_broker y) c = Some i"
      using sent(2) [OF \<open>(i, x) \<in> set sent\<close>] by blast
    from served_recipient [OF served(2) c(3,4)] c(1,2) logged show ?thesis
      using served(1) by auto
  qed
  have log: "log_of y' = log_of y" "arrived y' = arrived y" by (simp_all add: y' log_of_def arrived_def fun_eq_iff)
  have "handlers_ok y'" using parts(1) by (simp add: handlers_ok_def y' cong: option.case_cong)
  moreover have "trace_ok y'"
  proof -
    have "absb b' = fold ps_step (served @ [m]) ps_init"
      using broker_turn_absb [OF wf E, of m] turn served(2) by simp
    moreover have "arrived y' = (served @ [m]) @ y_queue y'" using log(2) served(1) by (simp add: y')
    moreover have "wf_broker b'" using broker_turn_wf [OF wf E turn] .
    ultimately show ?thesis
      using parts(2) log(1) unfolding trace_ok_def by (auto simp: y')
  qed
  moreover have "inbox_ok y'"
    by (rule inbox_ok_grow [OF parts(3)]) (use log new in \<open>auto simp: y'\<close>)
  moreover have "halt_ok P (y_halted y')"
  proof (cases r)
    case (Inl e)
    have "is_request m"
      using arrived_logged [OF parts(2), of m] served(1) log_requests(1) [OF parts(1)] by auto
    from broker_turn_error [OF wf E this] turn Inl show ?thesis by (simp add: y')
  qed (simp add: y')
  ultimately show ?thesis using parts(4) by (simp add: system_ok_def y')
qed

lemma deliver_ok:
  assumes ok: "system_ok P y" and step: "deliver_turn y = Some y'"
  shows "system_ok P y'"
proof -
  have parts: "handlers_ok y" "trace_ok y" "inbox_ok y" "halt_ok P (y_halted y)"
      "\<forall>i \<ge> y_next y. y_handlers y i = None"
    using ok by (auto simp: system_ok_def)
  obtain i m out where out: "y_pending y = (i, m) # out"
    using step by (auto simp: deliver_turn_def split: list.splits)
  note msg = inbox_okD(2) [OF parts(3), of i m, unfolded out]
  show ?thesis
  proof (cases "receiver_open y i")
    case False
    then have "y' = y\<lparr>y_halted := Some (BrokerError BrokerMsgSendFailure)\<rparr>"
      using step out by (simp add: deliver_turn_def)
    then show ?thesis using parts by (simp add: system_ok_def)
  next
    case True
    then have y': "y' = y\<lparr>y_pending := out, y_inbox := post [(i, m)] (y_inbox y)\<rparr>"
      using step out by (simp add: deliver_turn_def split: if_splits)
    have same: "log_of y' = log_of y" "arrived y' = arrived y"
      by (simp_all add: y' log_of_def arrived_def fun_eq_iff)
    have "y_handlers y i \<noteq> None" using msg inbox_msg_idle [of "set (arrived y)" i m] by (cases "y_handlers y i") auto
    then have "handlers_ok y'"
      unfolding handlers_ok_def using handlers_okD [OF parts(1)]
      by (auto simp: y' post_def split: option.splits)
    moreover have "trace_ok y'"
      by (rule trace_ok_grow [OF parts(2,1)]) (simp_all add: same, simp_all add: y')
    moreover have "inbox_ok y'"
      by (rule inbox_ok_grow [OF parts(3)]) (use same msg out in \<open>auto simp: y' in_post\<close>)
    ultimately show ?thesis using parts(4,5) by (simp add: system_ok_def y')
  qed
qed

lemma act_ok:
  assumes P: "platform_ok P" and ok: "system_ok P y" and step: "act P a y = Some y'"
  shows "system_ok P y'"
proof (cases a)
  case (Net i e tcp)
  then have "handler_turn P i e tcp y = Some y'" "e \<noteq> ChannelClosed" "\<And>m. e \<noteq> FromBroker m"
    using step by (auto split: event.splits)
  from handler_turn_ok [OF ok this(1,2)] this(3) show ?thesis
    by (cases e) (auto simp: post_turn_def)
next
  case (Inbox i tcp)
  then obtain m ms y1 where m: "y_inbox y i = m # ms" "handler_turn P i (FromBroker m) tcp y = Some y1"
      "y' = y1\<lparr>y_inbox := (y_inbox y1)(i := ms)\<rparr>"
    using step by (auto split: list.splits)
  have "y_inbox y1 = y_inbox y"
    using m(2) by (rule handler_turn_cases) auto
  then have "y' = post_turn i (FromBroker m) y1" using m by (simp add: post_turn_def)
  then show ?thesis using handler_turn_ok [OF ok m(2)] m(1) by simp
next
  case (Accept addr)
  then show ?thesis using step spawn_ok [OF ok] by auto
next
  case (Forward i)
  then show ?thesis using step forward_ok [OF ok] by simp
next
  case Serve
  then show ?thesis using step serve_ok [OF P ok] by simp
next
  case Deliver
  then show ?thesis using step deliver_ok [OF ok] by simp
next
  case (Retry i k)
  then show ?thesis using step retry_ok [OF ok] by simp
next
  case (Timeout i)
  then show ?thesis using step timeout_ok [OF ok] by simp
qed

text \<open>Every reachable state satisfies the invariant, by induction on the steps.\<close>

lemma reach_ok: "reach P config y \<Longrightarrow> platform_ok P \<Longrightarrow> system_ok P y"
  by (induction rule: reach.induct) (auto intro: system_ok_init act_ok)

lemma acts_ok: "platform_ok P \<Longrightarrow> system_ok P y \<Longrightarrow> acts P as y = Some y' \<Longrightarrow> system_ok P y'"
  by (induction as arbitrary: y) (auto simp: bind_eq_Some_conv split: if_splits dest: act_ok)

lemma receiver_open_channels [simp]:
  "receiver_open (y\<lparr>y_pending := out, y_inbox := inbox\<rparr>) = receiver_open y"
  by (simp add: fun_eq_iff receiver_open_def flushed_def cong: option.case_cong)

text \<open>The sends for one message, when every receiver is there and has room.\<close>

lemma deliver_all:
  assumes "y_pending y = out" "y_halted y = None" "\<forall>(i, m) \<in> set out. receiver_open y i"
    and "\<forall>i. length (y_inbox y i) + length out \<le> BROKER_MSG_CAPACITY"
  shows "acts P (replicate (length out) Deliver) y = Some (y\<lparr>y_pending := [], y_inbox := post out (y_inbox y)\<rparr>)"
  using assms
proof (induction out arbitrary: y)
  case Nil
  then show ?case by (simp add: post_def)
next
  case (Cons x out)
  obtain i m where x: "x = (i, m)" by fastforce
  let ?y = "y\<lparr>y_pending := out, y_inbox := post [(i, m)] (y_inbox y)\<rparr>"
  have "length (y_inbox y i) < BROKER_MSG_CAPACITY" using Cons.prems(4) [rule_format, of i] by simp
  then have step: "deliver_turn y = Some ?y" using Cons.prems(1,3) by (simp add: deliver_turn_def x)
  have "\<forall>(j, k) \<in> set out. receiver_open ?y j" using Cons.prems(3) by auto
  moreover have "\<forall>j. length (y_inbox ?y j) + length out \<le> BROKER_MSG_CAPACITY"
    using Cons.prems(4) by (auto simp: post_def intro: Suc_leD)
  ultimately have "acts P (replicate (length out) Deliver) ?y = Some (?y\<lparr>y_pending := [], y_inbox := post out (y_inbox ?y)\<rparr>)"
    using Cons.prems(2) by (intro Cons.IH) simp_all
  moreover have "post out (post [x] (y_inbox y)) = post (x # out) (y_inbox y)" by (simp add: post_def fun_eq_iff)
  ultimately show ?case using step Cons.prems(2) by (simp add: x)
qed

end
