(* ===== verification/Handler_Properties.thy ===== *)
theory Handler_Properties
  imports Client_Handler
begin

section \<open>What a client handler guarantees\<close>

text \<open>
  The properties of \<open>mqttrs-1/src/broker/client_handler.rs\<close>, over the definitions and the
  invariants of \<open>Client_Handler\<close>. Each property with hypotheses is followed by a witness
  in a sample world, whose stand-in codec knows six packets and always finds room.
\<close>

subsection \<open>A sample world\<close>

definition sample_connect :: mqttrs_Connect where
  "sample_connect =
     \<lparr>mcon_protocol = MQTT311, mcon_keep_alive = 0, mcon_client_id = ''c'', mcon_clean_session = True,
      mcon_last_will = Some \<lparr>mlw_topic = ''t'', mlw_message = [1], mlw_qos = AtMostOnce, mlw_retain = False\<rparr>,
      mcon_username = None, mcon_password = None\<rparr>"

definition sample_publish :: mqttrs_Publish where
  "sample_publish =
     \<lparr>mpub_dup = False, mpub_qospid = QP_ExactlyOnce (Pid 1), mpub_retain = False,
      mpub_topic_name = ''t'', mpub_payload = [1]\<rparr>"

definition sample_subscribe :: Subscribe where
  "sample_subscribe =
     \<lparr>sub_pid = Pid 2, sub_topics = [\<lparr>mst_topic_path = ''t'', mst_qos = ExactlyOnce\<rparr>]\<rparr>"

definition sample_api :: mqttrs_api where
  "sample_api =
     \<lparr>encode_slice = (\<lambda>p buf. Inr (0, buf)),
      decode_slice = (\<lambda>b.
        if b = [1] then Inr (Some (M_Connect sample_connect))
        else if b = [2] then Inr (Some M_Pingreq)
        else if b = [3] then Inr (Some (M_Publish sample_publish))
        else if b = [4] then Inr (Some (M_Pubrel (Pid 1)))
        else if b = [5] then Inr (Some (M_Subscribe sample_subscribe))
        else if b = [6] then Inr (Some (M_Connect (sample_connect\<lparr>mcon_protocol := MQIsdp\<rparr>)))
        else Inr None),
      pid_new = Pid 1, size_of = (\<lambda>_. 0)\<rparr>"

definition sample_world :: world where
  "sample_world =
     \<lparr>w_mqttrs = sample_api, w_tcp_ok = (\<lambda>_. True), w_broker_ok = (\<lambda>_. True), w_info = False\<rparr>"

definition sample_handler :: ClientHandler where
  "sample_handler = handler_new (config_new ''0.0.0.0'' 1883 3 20 30) ''addr'' 9"

definition sample_connected :: ClientHandler where
  "sample_connected = snd (listen_turn sample_world (Frame [1]) sample_handler)"

lemma sample_world_simps [simp]:
  "w_mqttrs sample_world = sample_api" "w_tcp_ok sample_world n" "w_broker_ok sample_world n"
  "w_info sample_world = False"
  by (simp_all add: sample_world_def)

lemma sample_encode [simp]:
  "encode sample_api p = Inr (replicate (encode_size sample_api (packet_into p)) 0)"
  by (simp add: encode_def sample_api_def)

lemma sample_decode [simp]:
  "decode sample_api [1] = Inr (Some (packet_from (M_Connect sample_connect)))"
  "decode sample_api [2] = Inr (Some P_Pingreq)"
  "decode sample_api [3] = Inr (Some (packet_from (M_Publish sample_publish)))"
  "decode sample_api [4] = Inr (Some (P_Pubrel (Pid 1)))"
  "decode sample_api [5] = Inr (Some (P_Subscribe sample_subscribe))"
  "decode sample_api [6]
     = Inr (Some (packet_from (M_Connect (sample_connect\<lparr>mcon_protocol := MQIsdp\<rparr>))))"
  by (simp_all add: decode_def sample_api_def)

lemma sample_idle [simp]: "idle 9 sample_handler"
  by (simp add: idle_def sample_handler_def handler_new_def)

lemma sample_conn: "conn ''c'' 9 sample_connected"
proof -
  obtain c where c: "packet_from (M_Connect sample_connect) = P_Connect c" "con_client_id c = ''c''"
    by (simp add: sample_connect_def)
  obtain h1 where u: "update_state sample_world (P_Connect c) sample_handler = (Inr (), h1)"
    using update_state_connect [OF sample_idle, of sample_world c] by simp
  then have "conn ''c'' 9 h1"
    using update_state_connect_conn [OF sample_idle u] c(2) by simp
  moreover have "sample_connected = snd (andthen (handle_packet sample_world (P_Connect c)) (ok True) h1)"
    using u c(1) by (simp add: sample_connected_def del: packet_from.simps)
  ultimately show ?thesis
    using keeps_run [OF keeps_andthen [OF keeps_handle_packet keeps_ok]] by (metis prod.collapse)
qed

subsection \<open>One conversation with the broker\<close>

text \<open>C9: whatever arrives on a connection, what its handler tells the broker is one conversation:
  nothing, or \<open>ClientConnected\<close>, then publish, subscribe and unsubscribe requests of that
  same client. When the task ends, by the client closing the stream or by any error, the
  conversation is closed by \<open>ClientDisconnected\<close>; the error is one of six kinds; only a
  handler that never saw a \<open>Connect\<close> packet can overflow its stack.\<close>

theorem handler_conversation:
  assumes "\<forall>n. w_broker_ok W n" "ChannelClosed \<notin> set es"
    and "handler_run W es (handler_new config addr tx) = (r, h)"
  shows "(r = Inr True \<and> wf_handler tx h) \<or> (r = Inl StackOverflow \<and> h_broker_tx h = []) \<or>
    ((r = Inr False \<or> (\<exists>e. r = Inl (Err e) \<and> handler_error (Err e))) \<and> closed_log tx (h_broker_tx h))"
  using run_ends [OF _ wf_handler_new assms(2,3)] assms(1) by (auto simp: idle_def)

theorem handler_conversation_witness:
  "let (r, h) = handler_run sample_world [Frame [1], Frame [1]] sample_handler
   in r = Inl (Err MQTTProtocolViolation) \<and> closed_log 9 (h_broker_tx h)"
proof -
  obtain r h where run: "handler_run sample_world [Frame [1], Frame [1]] sample_handler = (r, h)"
    by fastforce
  have r: "r = Inl (Err MQTTProtocolViolation)"
    using run
    by (simp add: handler_run_def sample_handler_def handler_new_def sample_connect_def
        update_state_def send_broker_def send_client_def mqtt_send_def handle_connect_def
        session_new_def on_client_disconnect_def andthen_def bnd_def Let_def)
  then show ?thesis
    using run handler_conversation [of sample_world "[Frame [1], Frame [1]]"
        "config_new ''0.0.0.0'' 1883 3 20 30" "''addr''" 9 r h]
    by (simp add: sample_handler_def)
qed

subsection \<open>Connecting\<close>

text \<open>A first packet other than \<open>Connect\<close> ends the handler with a protocol violation, with
  nothing written to the client and nothing sent to the broker.\<close>

theorem first_packet_must_be_connect:
  assumes "idle tx h" "decode (w_mqttrs W) bytes = Inr (Some pkt)" "\<forall>c. pkt \<noteq> P_Connect c"
  shows "handler_run W (Frame bytes # es) h = (Inl (Err MQTTProtocolViolation), h)"
proof -
  have "update_state W pkt h = (Inl (Err MQTTProtocolViolation), h)"
    using assms(1,3) by (cases pkt) (auto simp: update_state_def idle_def)
  then show ?thesis
    using assms(1,2) by (simp add: handler_run_def on_client_disconnect_def idle_def)
qed

theorem first_packet_must_be_connect_witness:
  "handler_run sample_world [Frame [2], Frame [1]] sample_handler
     = (Inl (Err MQTTProtocolViolation), sample_handler)"
  by (rule first_packet_must_be_connect [OF sample_idle, of _ _ P_Pingreq]) simp_all

text \<open>A \<open>Connect\<close> packet on a fresh connection registers the client with the broker, cancels the
  connection timeout, answers with \<open>Connack\<close> and leaves the handler connected with a new
  session. The code is \<open>Accepted\<close> for MQTT 3.1.1 and \<open>RefusedProtocolVersion\<close> otherwise;
  a refused client is registered and connected all the same.\<close>

theorem connect_handshake:
  assumes "idle tx h" "decode (w_mqttrs W) bytes = Inr (Some (P_Connect c))" "w_broker_ok W 0"
    and "encode (w_mqttrs W) (P_Connack \<lparr>ca_session_present = False, ca_code =
       (if con_protocol c = MQTT311 then Accepted else RefusedProtocolVersion)\<rparr>) = Inr buf"
    and "w_tcp_ok W (length (h_framed h))"
  shows "listen_turn W (Frame bytes) h = (Inr True,
    h\<lparr>h_framed := h_framed h @ [buf], h_broker_tx := [ClientConnected (con_client_id c) tx],
      h_connect_timeout := False,
      h_state := Connected (session_new (con_client_id c) (h_config h) (con_last_will c) tx)\<rparr>)"
proof -
  let ?h = "h\<lparr>h_broker_tx := [ClientConnected (con_client_id c) tx], h_connect_timeout := False,
      h_state := Connected (session_new (con_client_id c) (h_config h) (con_last_will c) tx)\<rparr>"
  have "handle_packet W (P_Connect c) ?h = (Inr (), ?h\<lparr>h_framed := h_framed ?h @ [buf]\<rparr>)"
    using assms(4,5) by (cases "con_protocol c") (simp_all add: handle_connect_def send_client_ok)
  then show ?thesis
    using update_state_connect [OF assms(1,3), of c] assms(2) by simp
qed

theorem connect_handshake_witness:
  "\<exists>buf. let (r, h) = listen_turn sample_world (Frame [6]) sample_handler
   in r = Inr True \<and> h_framed h = [buf] \<and> h_broker_tx h = [ClientConnected ''c'' 9] \<and>
      encode sample_api (P_Connack \<lparr>ca_session_present = False, ca_code = RefusedProtocolVersion\<rparr>)
        = Inr buf"
proof -
  let ?c = "\<lparr>con_protocol = MQIsdp, con_keep_alive = 0, con_client_id = ''c'', con_clean_session = True,
      con_last_will = Some \<lparr>lw_topic = ''t'', lw_message = [1], lw_qos = AtMostOnce, lw_retain = False\<rparr>,
      con_username = None, con_password = None\<rparr>"
  have "decode (w_mqttrs sample_world) [6] = Inr (Some (P_Connect ?c))"
    by (simp add: sample_connect_def last_will_from_def)
  from connect_handshake [OF sample_idle this] show ?thesis
    by (simp add: sample_handler_def handler_new_def)
qed

text \<open>A second \<open>Connect\<close> packet ends a connected handler with a protocol violation, after its last
  will (unless the client has sent \<open>Disconnect\<close>) and its \<open>ClientDisconnected\<close> have gone to
  the broker.\<close>

theorem second_connect_closes:
  assumes "conn cid tx h" "decode (w_mqttrs W) bytes = Inr (Some (P_Connect c))" "\<forall>n. w_broker_ok W n"
  shows "handler_run W (Frame bytes # es) h
    = (Inl (Err MQTTProtocolViolation), h\<lparr>h_broker_tx := h_broker_tx h @ farewell W h\<rparr>)"
proof -
  have "update_state W (P_Connect c) h = (Inl (Err MQTTProtocolViolation), h)"
    using assms(1) by (auto simp: update_state_def conn_def)
  then show ?thesis
    using assms(2) on_client_disconnect_farewell [of W h] assms(3) by (simp add: handler_run_def)
qed

theorem second_connect_closes_witness:
  "fst (handler_run sample_world [Frame [1]] sample_connected) = Inl (Err MQTTProtocolViolation)"
  using second_connect_closes [OF sample_conn, of sample_world "[1]"]
  by (simp add: sample_connect_def)

text \<open>Printing a handler that has not seen a \<open>Connect\<close> packet never returns, so when such a client
  closes its TCP connection while \<open>info!\<close> messages are enabled, the handler overflows its
  stack; with these messages off, the same close ends the handler normally.\<close>

theorem close_before_connect:
  assumes "idle tx h"
  shows "handler_fmt h = None \<and>
    handler_run W (StreamClosed # es) h
      = (if w_info W then (Inl StackOverflow, h) else (Inr False, h))"
  using assms
  by (simp add: handler_run_def on_client_disconnect_def idle_def)

theorem close_before_connect_witness:
  "handler_run (sample_world\<lparr>w_info := True\<rparr>) [StreamClosed] sample_handler
     = (Inl StackOverflow, sample_handler)"
  using close_before_connect [OF sample_idle, of "sample_world\<lparr>w_info := True\<rparr>" "[]"] by simp

text \<open>The connection timeout closes a connection on which no \<open>Connect\<close> packet has arrived, and is
  ignored by a connected handler.\<close>

theorem connection_timeout:
  assumes "wf_handler tx h"
  shows "handler_run W [FromBroker ClientConnectionTimeout] h
    = (if h_state h = Initialized then (Inl (Err MQTTProtocolViolation), h) else (Inr True, h))"
  using assms
  by (auto simp: wf_handler_def idle_def conn_def handler_run_def decode_broker_msg_def
      handle_connection_timeout_def on_client_disconnect_def)

theorem connection_timeout_witness:
  "handler_run sample_world [FromBroker ClientConnectionTimeout] sample_connected
     = (Inr True, sample_connected)"
  using connection_timeout [of 9 sample_connected sample_world] sample_conn
  by (auto simp: wf_handler_def conn_def)

subsection \<open>Publishing\<close>

text \<open>The acknowledgement a publish packet asks for, and what it does to the transactions.\<close>

fun ack_of :: "QosPid \<Rightarrow> Packet option" where
  "ack_of QP_AtMostOnce = None"
| "ack_of (QP_AtLeastOnce p) = Some (P_Puback p)"
| "ack_of (QP_ExactlyOnce p) = Some (P_Pubrec p)"

fun after_publish :: "QosPid \<Rightarrow> store \<Rightarrow> store" where
  "after_publish (QP_ExactlyOnce p) st = txn_update p (P_Pubrec p) st"
| "after_publish _ st = st"

definition with_store :: "store \<Rightarrow> ClientHandler \<Rightarrow> ClientHandler" where
  "with_store st h = h\<lparr>h_state := Connected (fst st), h_tasks := snd st\<rparr>"

lemma with_store_same:
  "h_state h = Connected s \<Longrightarrow> with_store (s, h_tasks h) h = h"
  by (simp add: with_store_def)

lemma publish_turn:
  assumes s: "h_state h = Connected s"
    and dec: "decode (w_mqttrs W) bytes = Inr (Some (P_Publish m))"
    and ack: "\<And>k. ack_of (pub_qospid m) = Some k \<Longrightarrow>
      w_tcp_ok W (length (h_framed h)) \<and> encode (w_mqttrs W) k = Inr buf"
    and brk: "w_broker_ok W (length (h_broker_tx h))"
  shows "listen_turn W (Frame bytes) h = (Inr True,
    (with_store (after_publish (pub_qospid m) (s, h_tasks h)) h)
      \<lparr>h_framed := h_framed h @ (if ack_of (pub_qospid m) = None then [] else [buf]),
       h_broker_tx := h_broker_tx h @ [BM_Publish (s_id s) m]\<rparr>)"
proof -
  have us: "update_state W (P_Publish m) h = (Inr (), h)"
    using s by (simp add: update_state_def)
  show ?thesis
  proof (cases "pub_qospid m")
    case QP_AtMostOnce
    with us dec s brk show ?thesis
      by (simp add: handle_publish_def send_broker_ok with_store_def)
  next
    case (QP_AtLeastOnce p)
    with us dec s brk ack show ?thesis
      by (simp add: handle_publish_def send_broker_ok send_client_ok with_store_def)
  next
    case (QP_ExactlyOnce p)
    with us dec s brk ack show ?thesis
      by (simp add: handle_publish_def send_broker_ok send_client_ok with_store_def
          session_update_qos_Connected)
  qed
qed

lemma publish_frame:
  assumes "conn cid tx h" "decode (w_mqttrs W) bytes = Inr (Some (P_Publish m))"
    and "\<forall>k. ack_of (pub_qospid m) = Some k \<longrightarrow>
      w_tcp_ok W (length (h_framed h)) \<and> encode (w_mqttrs W) k = Inr buf"
    and "w_broker_ok W (length (h_broker_tx h))"
  shows "\<exists>h'. listen_turn W (Frame bytes) h = (Inr True, h') \<and> conn cid tx h' \<and>
    h_broker_tx h' = h_broker_tx h @ [BM_Publish cid m] \<and>
    h_framed h' = h_framed h @ (if ack_of (pub_qospid m) = None then [] else [buf]) \<and>
    (\<exists>s. h_state h = Connected s \<and> (\<exists>s'. h_state h' = Connected s' \<and>
       (s', h_tasks h') = after_publish (pub_qospid m) (s, h_tasks h)))"
proof -
  obtain s where s: "h_state h = Connected s" "s_id s = cid"
    using assms(1) by (auto simp: conn_def)
  let ?h = "(with_store (after_publish (pub_qospid m) (s, h_tasks h)) h)
      \<lparr>h_framed := h_framed h @ (if ack_of (pub_qospid m) = None then [] else [buf]),
       h_broker_tx := h_broker_tx h @ [BM_Publish cid m]\<rparr>"
  have turn: "listen_turn W (Frame bytes) h = (Inr True, ?h)"
    using publish_turn [OF s(1) assms(2), of buf] assms(3,4) s(2) by blast
  moreover have "conn cid tx ?h"
    using keeps_run [OF turn_conn assms(1) turn] by simp
  ultimately show ?thesis
    using s(1) by (intro exI [of _ ?h] conjI exI [of _ s] exI [of _ "fst (after_publish (pub_qospid m)
      (s, h_tasks h))"]) (simp_all add: with_store_def)
qed

subsection \<open>The reaction to every packet\<close>

text \<open>What a connected handler writes to its client, what it asks of the broker and what it tells its store of
  transactions when a packet arrives, and which packets it accepts.\<close>

fun replies :: "Packet \<Rightarrow> Packet list" where
  "replies (P_Publish m) = (case ack_of (pub_qospid m) of None \<Rightarrow> [] | Some a \<Rightarrow> [a])"
| "replies (P_Pubrec p) = [P_Pubrel p]"
| "replies (P_Pubrel p) = [P_Pubcomp p]"
| "replies (P_Subscribe s) =
     [P_Suback \<lparr>sa_pid = sub_pid s, sa_return_codes = replicate (length (sub_topics s)) (Success AtMostOnce)\<rparr>]"
| "replies (P_Unsubscribe u) = [P_Unsuback (unsub_pid u)]"
| "replies P_Pingreq = [P_Pingresp]"
| "replies _ = []"

fun requests :: "string \<Rightarrow> Packet \<Rightarrow> BrokerMsg list" where
  "requests cid (P_Publish m) = [BM_Publish cid m]"
| "requests cid (P_Subscribe s) = [BM_Subscribe cid s]"
| "requests cid (P_Unsubscribe u) = [BM_Unsubscribe cid u]"
| "requests cid _ = []"

fun txn_steps :: "Packet \<Rightarrow> Packet list" where
  "txn_steps (P_Publish m) = (case pub_qospid m of QP_ExactlyOnce p \<Rightarrow> [P_Pubrec p] | _ \<Rightarrow> [])"
| "txn_steps (P_Puback p) = [P_Puback p]"
| "txn_steps (P_Pubrec p) = [P_Pubrec p, P_Pubrel p]"
| "txn_steps (P_Pubrel p) = [P_Pubrel p, P_Pubcomp p]"
| "txn_steps (P_Pubcomp p) = [P_Pubcomp p]"
| "txn_steps _ = []"

fun acceptable :: "Packet \<Rightarrow> bool" where
  "acceptable (P_Subscribe s) \<longleftrightarrow> sub_topics s \<noteq> []"
| "acceptable (P_Unsubscribe u) \<longleftrightarrow> unsub_topics u \<noteq> []"
| "acceptable k \<longleftrightarrow> (case k of P_Connect _ \<Rightarrow> False | P_Connack _ \<Rightarrow> False | P_Suback _ \<Rightarrow> False | P_Unsuback _ \<Rightarrow> False
     | P_Pingresp \<Rightarrow> False | _ \<Rightarrow> True)"

definition store_steps :: "Packet list \<Rightarrow> store \<Rightarrow> store" where
  "store_steps ks = fold (\<lambda>k. txn_update (the (pkt_pid k)) k) ks"

definition frame_of :: "mqttrs_api \<Rightarrow> Packet \<Rightarrow> bytes" where
  "frame_of X k = (case encode X k of Inr b \<Rightarrow> b | Inl _ \<Rightarrow> [])"

definition sendable :: "mqttrs_api \<Rightarrow> Packet list \<Rightarrow> bool" where
  "sendable X ks \<longleftrightarrow> list_all (\<lambda>k. encode X k = Inr (frame_of X k)) ks"

lemma sendable_iff: "sendable X ks \<longleftrightarrow> (\<forall>k \<in> set ks. \<exists>b. encode X k = Inr b)"
  by (auto simp: sendable_def frame_of_def list_all_iff)

definition links_up :: "world \<Rightarrow> bool" where
  "links_up W \<longleftrightarrow> (\<forall>n. w_tcp_ok W n) \<and> (\<forall>n. w_broker_ok W n)"

definition reacted :: "world \<Rightarrow> Packet \<Rightarrow> Session \<Rightarrow> ClientHandler \<Rightarrow> ClientHandler" where
  "reacted W k s h =
     (with_store (store_steps (txn_steps k) (s, h_tasks h)) h)
       \<lparr>h_framed := h_framed h @ map (frame_of (w_mqttrs W)) (replies k),
        h_broker_tx := h_broker_tx h @ requests (s_id s) k,
        h_disconnect_pkt_seen := h_disconnect_pkt_seen h \<or> k = P_Disconnect\<rparr>"

lemma send_client_sendable:
  "links_up W \<Longrightarrow> sendable (w_mqttrs W) [k] \<Longrightarrow>
    send_client W k h = (Inr (), h\<lparr>h_framed := h_framed h @ [frame_of (w_mqttrs W) k]\<rparr>)"
  by (simp add: send_client_ok links_up_def sendable_def)

lemma send_broker_up: "links_up W \<Longrightarrow> send_broker W m h = (Inr (), h\<lparr>h_broker_tx := h_broker_tx h @ [m]\<rparr>)"
  by (simp add: send_broker_ok links_up_def)

lemmas reaction_simps = packet_handler_defs handle_disconnect_def send_client_sendable send_broker_up
  session_update_qos_Connected reacted_def with_store_def store_steps_def

lemma handle_acceptable:
  assumes "h_state h = Connected s" "acceptable k" "links_up W" "sendable (w_mqttrs W) (replies k)"
  shows "handle_packet W k h = (Inr (), reacted W k s h)"
proof (cases k)
  case (P_Publish m)
  with assms show ?thesis by (cases "pub_qospid m") (simp_all add: reaction_simps)
next
  case (P_Subscribe s)
  with assms show ?thesis by (simp add: reaction_simps Let_def map_replicate_const)
qed (use assms in \<open>simp_all add: reaction_simps\<close>)

lemma handle_unacceptable:
  assumes "h_state h = Connected s" "\<not> acceptable k" "\<forall>c. k \<noteq> P_Connect c"
  shows "handle_packet W k h = (Inl (Err MQTTProtocolViolation), h)"
  using assms by (cases k) (simp_all add: packet_handler_defs)

lemma packet_turn:
  assumes "h_state h = Connected s" "decode (w_mqttrs W) bytes = Inr (Some k)" "links_up W"
    "sendable (w_mqttrs W) (replies k)"
  shows "listen_turn W (Frame bytes) h =
    (if acceptable k then (Inr True, reacted W k s h) else (Inl (Err MQTTProtocolViolation), h))"
proof (cases "\<exists>c. k = P_Connect c")
  case True
  with assms(1,2) show ?thesis by (auto simp: update_state_def)
next
  case False
  then have "update_state W k h = (Inr (), h)" using assms(1) by (cases k) (auto simp: update_state_def)
  with assms False handle_acceptable [OF assms(1) _ assms(3,4)] handle_unacceptable [OF assms(1), of k W]
  show ?thesis by (cases "acceptable k") simp_all
qed

lemma react_turn:
  assumes "conn cid tx h" "decode (w_mqttrs W) bytes = Inr (Some k)" "acceptable k" "links_up W"
    "sendable (w_mqttrs W) (replies k)"
  obtains s where "h_state h = Connected s" "s_id s = cid" "listen_turn W (Frame bytes) h = (Inr True, reacted W k s h)"
    "conn cid tx (reacted W k s h)"
proof -
  obtain s where s: "h_state h = Connected s" "s_id s = cid" using assms(1) by (auto simp: conn_def)
  have turn: "listen_turn W (Frame bytes) h = (Inr True, reacted W k s h)"
    using packet_turn [OF s(1) assms(2,4,5)] assms(3) by simp
  with keeps_run [OF turn_conn assms(1) turn] s that show thesis by simp
qed

lemma reacted_simps [simp]:
  "h_framed (reacted W k s h) = h_framed h @ map (frame_of (w_mqttrs W)) (replies k)"
  "h_broker_tx (reacted W k s h) = h_broker_tx h @ requests (s_id s) k"
  "h_state (reacted W k s h) = Connected (fst (store_steps (txn_steps k) (s, h_tasks h)))"
  "h_tasks (reacted W k s h) = snd (store_steps (txn_steps k) (s, h_tasks h))"
  by (simp_all add: reacted_def with_store_def)

text \<open>C10: how a connected handler reacts to every packet of its client. A packet that a client may send is answered as the
  protocol asks (\<open>Puback\<close> or \<open>Pubrec\<close>, \<open>Pubrel\<close>, \<open>Pubcomp\<close>, \<open>Suback\<close> with one code for each topic, \<open>Unsuback\<close>,
  \<open>Pingresp\<close>), publishes, subscriptions and their ends are passed on to the broker under the client's own
  identifier, the store of transactions takes the steps of the packet, and the handler stays connected. Any
  other packet is a protocol violation that changes nothing. A subscription is always answered with quality of service 0,
  whatever was asked for.\<close>

theorem handler_reacts:
  assumes "conn cid tx h" "decode (w_mqttrs W) bytes = Inr (Some k)" "links_up W" "sendable (w_mqttrs W) (replies k)"
  shows "if acceptable k then
      \<exists>s h' s'. listen_turn W (Frame bytes) h = (Inr True, h') \<and> conn cid tx h' \<and>
        h_framed h' = h_framed h @ map (frame_of (w_mqttrs W)) (replies k) \<and>
        h_broker_tx h' = h_broker_tx h @ requests cid k \<and>
        h_state h = Connected s \<and> h_state h' = Connected s' \<and>
        (s', h_tasks h') = store_steps (txn_steps k) (s, h_tasks h)
    else listen_turn W (Frame bytes) h = (Inl (Err MQTTProtocolViolation), h)"
proof (cases "acceptable k")
  case True
  then show ?thesis by (auto elim: react_turn [OF assms(1,2) _ assms(3,4)])
next
  case False
  obtain s where "h_state h = Connected s" using assms(1) by (auto simp: conn_def)
  with packet_turn [OF this assms(2-4)] False show ?thesis by simp
qed

theorem handler_reacts_witness:
  "\<exists>h. listen_turn sample_world (Frame [5]) sample_connected = (Inr True, h) \<and>
     h_framed h = h_framed sample_connected @ [frame_of sample_api
       (P_Suback \<lparr>sa_pid = Pid 2, sa_return_codes = [Success AtMostOnce]\<rparr>)] \<and>
     h_broker_tx h = h_broker_tx sample_connected @ [BM_Subscribe ''c'' sample_subscribe]"
proof -
  have "sendable (w_mqttrs sample_world) (replies (P_Subscribe sample_subscribe))" "links_up sample_world"
    by (simp_all add: sendable_iff links_up_def)
  from handler_reacts [OF sample_conn, of sample_world "[5]", OF _ this(2,1)] show ?thesis
    by (auto simp: sample_subscribe_def)
qed

text \<open>A QoS 2 publish that the client sends twice with the same packet identifier, as it does when
  it retransmits, is forwarded to the broker twice: the open transaction does not stop the
  second copy, whose only effect on the transaction is that its retry task is cancelled.\<close>

theorem duplicate_publish_forwarded_twice:
  assumes "conn cid tx h" "decode (w_mqttrs W) bytes = Inr (Some (P_Publish m))"
    and "pub_qospid m = QP_ExactlyOnce p" "h_state h = Connected s" "phase (s, h_tasks h) p = None"
    and "\<forall>n. w_tcp_ok W n" "\<forall>n. w_broker_ok W n" "encode (w_mqttrs W) (P_Pubrec p) = Inr buf"
  shows "\<exists>h' s'. listen_for_messages W [Frame bytes, Frame bytes] h = (Inr True, h') \<and>
    h_broker_tx h' = h_broker_tx h @ [BM_Publish cid m, BM_Publish cid m] \<and>
    h_state h' = Connected s' \<and> phase (s', h_tasks h') p = Some (P_Pubrec p) \<and>
    armed (s', h_tasks h') p = None"
proof -
  obtain h1 s1 where t1: "listen_turn W (Frame bytes) h = (Inr True, h1)" and c1: "conn cid tx h1"
    and b1: "h_broker_tx h1 = h_broker_tx h @ [BM_Publish cid m]"
    and s1: "h_state h1 = Connected s1" "(s1, h_tasks h1) = txn_update p (P_Pubrec p) (s, h_tasks h)"
    using publish_frame [OF assms(1,2), of buf] assms(3-8) by auto
  obtain h2 s2 where t2: "listen_turn W (Frame bytes) h1 = (Inr True, h2)"
    and b2: "h_broker_tx h2 = h_broker_tx h1 @ [BM_Publish cid m]"
    and s2: "h_state h2 = Connected s2" "(s2, h_tasks h2) = txn_update p (P_Pubrec p) (s1, h_tasks h1)"
    using publish_frame [OF c1 assms(2), of buf] assms(3,6-8) s1(1) by auto
  have "phase (s1, h_tasks h1) p = Some (P_Pubrec p)"
    using txns.qos2_receiver_completes(1) [OF assms(5)] s1(2) by simp
  then have "phase (s2, h_tasks h2) p = Some (P_Pubrec p)" "armed (s2, h_tasks h2) p = None"
    using txns.stray [of "(s1, h_tasks h1)" p "P_Pubrec p" "P_Pubrec p"] s2(2) by simp_all
  then show ?thesis
    using listen_Cons [OF t1] listen_Cons [OF t2] b1 b2 s2(1) by auto
qed

lemma sample_connected_state:
  "\<exists>s. h_state sample_connected = Connected s \<and> phase (s, h_tasks sample_connected) p = None"
  by (simp add: sample_connected_def sample_connect_def sample_handler_def handler_new_def
      update_state_def session_new_def send_broker_def handle_connect_def send_client_def
      mqtt_send_def phase_def andthen_def bnd_apply)

theorem duplicate_publish_forwarded_twice_witness:
  "\<exists>h m. listen_for_messages sample_world [Frame [3], Frame [3]] sample_connected = (Inr True, h) \<and>
     h_broker_tx h = h_broker_tx sample_connected @ [BM_Publish ''c'' m, BM_Publish ''c'' m]"
proof -
  obtain s where s: "h_state sample_connected = Connected s"
    "phase (s, h_tasks sample_connected) (Pid 1) = None"
    using sample_connected_state by blast
  let ?m = "\<lparr>pub_dup = False, pub_qospid = QP_ExactlyOnce (Pid 1), pub_retain = False,
      pub_topic_name = ''t'', pub_payload = [1]\<rparr>"
  show ?thesis
    using duplicate_publish_forwarded_twice [OF sample_conn, of sample_world "[3]" ?m, OF _ _ s]
    by (auto simp: sample_publish_def)
qed

end
