(* ===== verification/System_Properties.thy ===== *)
theory System_Properties
  imports Broker_System Handler_Properties
begin

section \<open>What the broker process guarantees\<close>

text \<open>
  The properties of the whole process, for every state that any interleaving of its tasks can
  reach, and two interleavings of well-behaved clients that end badly.
\<close>

subsection \<open>A sample platform with two clients\<close>

definition duo_connect :: "string \<Rightarrow> mqttrs_Connect" where
  "duo_connect cid =
     \<lparr>mcon_protocol = MQTT311, mcon_keep_alive = 0, mcon_client_id = cid, mcon_clean_session = True,
      mcon_last_will = None, mcon_username = None, mcon_password = None\<rparr>"

definition duo_publish :: mqttrs_Publish where
  "duo_publish =
     \<lparr>mpub_dup = False, mpub_qospid = QP_AtMostOnce, mpub_retain = False, mpub_topic_name = ''t'',
      mpub_payload = [1]\<rparr>"

definition duo_api :: mqttrs_api where
  "duo_api =
     \<lparr>encode_slice = (\<lambda>p buf. Inr (0, buf)),
      decode_slice = (\<lambda>b.
        if b = [1] then Inr (Some (M_Connect (duo_connect ''c'')))
        else if b = [2] then Inr (Some (M_Connect (duo_connect ''d'')))
        else if b = [3] then Inr (Some (M_Subscribe sample_subscribe))
        else if b = [4] then Inr (Some (M_Publish duo_publish))
        else Inr None),
      pid_new = Pid 1, size_of = (\<lambda>_. 0)\<rparr>"

definition duo_platform :: platform where
  "duo_platform =
     \<lparr>pf_mqttrs = duo_api, pf_info = False, pf_iter = sorted_list_of_set, pf_iter_topics = topic_order\<rparr>"

lemma duo_platform_ok [simp]: "platform_ok duo_platform"
  by (simp add: platform_ok_def duo_platform_def iterates_topic_order) (simp add: iterates_def)

definition up :: "nat \<Rightarrow> bool" where
  "up n = True"

text \<open>Client \<open>c\<close> subscribes to \<open>t\<close>; client \<open>d\<close> connects.\<close>

definition duo_setup :: "action list" where
  "duo_setup =
     [Accept ''x'', Accept ''y'', Net 0 (Frame [1]) up, Forward 0, Serve, Net 0 (Frame [3]) up,
      Forward 0, Serve, Net 1 (Frame [2]) up, Forward 1, Serve]"

definition duo_config :: Config where
  "duo_config = config_new ''0.0.0.0'' 1883 3 20 30"

definition duo_state :: system where
  "duo_state = the (acts duo_platform duo_setup (broker_run duo_config))"

lemma duo_state_acts: "acts duo_platform duo_setup (broker_run duo_config) = Some duo_state"
proof -
  have "acts duo_platform duo_setup (broker_run duo_config) \<noteq> None" by code_simp
  then show ?thesis by (auto simp: duo_state_def)
qed

lemma duo_reach: "reach duo_platform duo_config duo_state"
  using reach_acts [OF reach_init duo_state_acts] .

definition duo_message :: Publish where
  "duo_message =
     \<lparr>pub_dup = False, pub_qospid = QP_AtMostOnce, pub_retain = False, pub_topic_name = ''t'', pub_payload = [1]\<rparr>"

lemma duo_decode: "decode (pf_mqttrs duo_platform) [4] = Inr (Some (P_Publish duo_message))"
  by (simp add: decode_def duo_platform_def duo_api_def duo_publish_def duo_message_def)

lemma duo_state_facts:
  "y_halted duo_state = None" "y_queue duo_state = []" "y_pending duo_state = []"
  "0 \<in> y_running duo_state" "1 \<in> y_running duo_state" "flushed duo_state 0" "flushed duo_state 1"
  "members (y_broker duo_state) ''t'' = {''c''}" "address (y_broker duo_state) ''c'' = Some 0"
  by code_simp+

lemma duo_inbox: "y_inbox duo_state i = []"
proof (cases "i < y_next duo_state")
  case True
  moreover have "y_next duo_state = 2" "y_inbox duo_state 0 = []" "y_inbox duo_state 1 = []" by code_simp+
  ultimately show ?thesis by (auto simp: less_2_cases_iff)
next
  case False
  then show ?thesis using reach_ok [OF duo_reach duo_platform_ok] handlers_okD(5) by (auto simp: system_ok_def)
qed

lemma duo_handlers:
  "\<exists>h. y_handlers duo_state 0 = Some h \<and> conn ''c'' 0 h" "\<exists>h. y_handlers duo_state 1 = Some h \<and> conn ''d'' 1 h"
proof -
  have ok: "handlers_ok duo_state" using reach_ok [OF duo_reach duo_platform_ok] by (simp add: system_ok_def)
  have log: "log_of duo_state 0 = [ClientConnected ''c'' 0, BM_Subscribe ''c'' sample_subscribe]"
    "log_of duo_state 1 = [ClientConnected ''d'' 1]" by code_simp+
  then show "\<exists>h. y_handlers duo_state 0 = Some h \<and> conn ''c'' 0 h" "\<exists>h. y_handlers duo_state 1 = Some h \<and> conn ''d'' 1 h"
    using handlers_okD(3) [OF ok _ duo_state_facts(4)] handlers_okD(3) [OF ok _ duo_state_facts(5)]
    by (cases "y_handlers duo_state 0"; cases "y_handlers duo_state 1";
        auto simp: wf_handler_def idle_def conn_def conversation_def)+
qed

text \<open>From there: \<open>d\<close> publishes to \<open>t\<close>, and \<open>c\<close> leaves before the broker serves the publish.\<close>

definition duo_race :: "action list" where
  "duo_race =
     [Net 1 (Frame [4]) up, Forward 1, Net 0 StreamClosed up, Forward 0, Serve, Deliver]"

text \<open>Two connections of the same client \<open>c\<close>; the first is closed; then the second subscribes and a
  client \<open>d\<close> connects and publishes.\<close>

definition duo_twice :: "action list" where
  "duo_twice =
     [Accept ''x'', Accept ''y'', Accept ''z'', Net 0 (Frame [1]) up, Forward 0, Serve,
      Net 1 (Frame [1]) up, Forward 1, Serve]"

definition duo_close :: "action list" where
  "duo_close = [Net 0 StreamClosed up, Forward 0, Serve]"

definition duo_after :: "action list" where
  "duo_after =
     [Net 1 (Frame [3]) up, Forward 1, Serve, Net 2 (Frame [2]) up, Forward 2, Serve,
      Net 2 (Frame [4]) up, Forward 2, Serve]"

definition duo_both :: system where
  "duo_both = the (acts duo_platform duo_twice (broker_run duo_config))"

definition duo_taken :: system where
  "duo_taken = the (acts duo_platform duo_close duo_both)"

lemma duo_both_acts: "acts duo_platform duo_twice (broker_run duo_config) = Some duo_both"
proof -
  have "acts duo_platform duo_twice (broker_run duo_config) \<noteq> None" by code_simp
  then show ?thesis by (auto simp: duo_both_def)
qed

lemma duo_taken_acts: "acts duo_platform duo_close duo_both = Some duo_taken"
proof -
  have "acts duo_platform duo_close duo_both \<noteq> None" by code_simp
  then show ?thesis by (auto simp: duo_taken_def)
qed

subsection \<open>Safety of every reachable state\<close>

lemma request_came_from:
  assumes "handlers_ok y" "trace_ok y" "request_of c m" "m \<in> set (arrived y)"
  shows "\<exists>j rest. log_of y j = ClientConnected c j # rest \<and> m \<in> set rest \<and> (j, m) \<in> set (y_trace y)"
proof -
  obtain j where j: "(j, m) \<in> set (y_trace y)" using assms(4) by (auto simp: arrived_def)
  then have "m \<in> set (log_of y j)"
    using assms(2) unfolding trace_ok_def by (metis in_selected in_set_takeD)
  with request_owner [OF assms(1,3)] j show ?thesis by blast
qed

text \<open>C1: whatever the clients, the network and the scheduler do, the state of the broker is that of the
  abstract publish/subscribe server after the messages served so far, and these are an
  interleaving of the handlers' conversations: the messages of one handler arrive in the
  order it sent them, and a handler that is gone has said goodbye.\<close>

theorem process_refines_pubsub:
  assumes "platform_ok P" "reach P config y"
  shows "(\<exists>served. map snd (y_trace y) = served @ y_queue y \<and>
      absb (y_broker y) = fold ps_step served ps_init) \<and>
    (\<forall>i. map snd (filter (\<lambda>(j, m). j = i) (y_trace y)) = take (y_sent y i) (log_of y i)) \<and>
    (\<forall>i h. y_handlers y i = Some h \<longrightarrow>
      (if i \<in> y_running y then wf_handler i h else closed_log i (h_broker_tx h)))"
proof -
  have ok: "handlers_ok y" "trace_ok y" using reach_ok [OF assms(2,1)] by (auto simp: system_ok_def)
  then show ?thesis
    using handlers_okD(3,4) [OF ok(1)] unfolding trace_ok_def arrived_def by (auto split: if_splits)
qed

theorem process_refines_pubsub_witness:
  "\<exists>served. map snd (y_trace duo_state) = served @ y_queue duo_state \<and> length served = 3 \<and>
     absb (y_broker duo_state) = fold ps_step served ps_init"
proof -
  have "length (y_trace duo_state) = 3 \<and> y_queue duo_state = []" by code_simp
  then show ?thesis
    using process_refines_pubsub [OF duo_platform_ok duo_reach] by (metis append_Nil2 length_map)
qed

text \<open>C3: the broker task can end only because a client handler it publishes to has gone
  (\<open>BrokerMsgSendFailure\<close>): it never receives a message it does not expect. A stack overflow
  can end the process only when \<open>info!\<close> messages are enabled.\<close>

theorem process_ends_only_by_send_failure:
  assumes "platform_ok P" "reach P config y" "y_halted y = Some why"
  shows "why = BrokerError BrokerMsgSendFailure \<or> why = Aborted \<and> pf_info P"
proof -
  have "halt_ok P (Some why)" using reach_ok [OF assms(2,1)] assms(3) by (auto simp: system_ok_def)
  then show ?thesis by (cases why) auto
qed

theorem process_ends_only_by_send_failure_witness:
  "\<exists>y why. acts duo_platform (duo_setup @ duo_race) (broker_run duo_config) = Some y \<and>
     y_halted y = Some why \<and> (why = BrokerError BrokerMsgSendFailure \<or> why = Aborted \<and> pf_info duo_platform)"
proof -
  have "map_option y_halted (acts duo_platform (duo_setup @ duo_race) (broker_run duo_config))
      = Some (Some (BrokerError BrokerMsgSendFailure))"
    by code_simp
  then obtain y where y: "acts duo_platform (duo_setup @ duo_race) (broker_run duo_config) = Some y"
      "y_halted y = Some (BrokerError BrokerMsgSendFailure)" by auto
  from process_ends_only_by_send_failure [OF duo_platform_ok reach_acts [OF reach_init y(1)] y(2)] y
  show ?thesis by blast
qed

text \<open>C5: nobody receives what nobody sent or asked for: a publish in the channel of a handler has
  arrived at the broker from a handler that had registered the named client with its first
  message, the receiving handler had registered some other client identifier, and a handler
  that registered this identifier had sent a subscribe request for the topic of the publish.
  A handler that has not seen a \<open>Connect\<close> packet is sent nothing but the connection
  timeout.\<close>

theorem deliveries_were_asked_for:
  assumes "platform_ok P" "reach P config y"
  shows "(BM_Publish client k \<in> set (y_inbox y i) \<longrightarrow>
      (\<exists>j rest. log_of y j = ClientConnected client j # rest \<and> BM_Publish client k \<in> set rest \<and>
         (j, BM_Publish client k) \<in> set (y_trace y)) \<and>
      (\<exists>c. ClientConnected c i \<in> set (log_of y i) \<and> c \<noteq> client \<and>
         (\<exists>sub j rest. log_of y j = ClientConnected c j # rest \<and> BM_Subscribe c sub \<in> set rest \<and>
            (j, BM_Subscribe c sub) \<in> set (y_trace y) \<and> pub_topic_name k \<in> set (sub_paths sub)))) \<and>
    (\<forall>h. y_handlers y i = Some h \<and> i \<in> y_running y \<and> h_state h = Initialized \<longrightarrow>
      set (y_inbox y i) \<subseteq> {ClientConnectionTimeout})"
proof (intro conjI impI allI)
  have ok: "handlers_ok y" "trace_ok y" "inbox_ok y"
    using reach_ok [OF assms(2,1)] by (auto simp: system_ok_def)
  {
    assume "BM_Publish client k \<in> set (y_inbox y i)"
    with ok(3) have "inbox_msg (set (log_of y i)) (set (arrived y)) i (BM_Publish client k)"
      by (rule inbox_okD(1))
    then obtain c sub where c: "ClientConnected c i \<in> set (log_of y i)" "c \<noteq> client"
        "BM_Publish client k \<in> set (arrived y)" "BM_Subscribe c sub \<in> set (arrived y)"
        "pub_topic_name k \<in> set (sub_paths sub)"
      by (auto simp: asks_def)
    show "\<exists>j rest. log_of y j = ClientConnected client j # rest \<and> BM_Publish client k \<in> set rest \<and>
        (j, BM_Publish client k) \<in> set (y_trace y)"
      using request_came_from [OF ok(1,2) _ c(3)] by simp
    show "\<exists>c. ClientConnected c i \<in> set (log_of y i) \<and> c \<noteq> client \<and>
        (\<exists>sub j rest. log_of y j = ClientConnected c j # rest \<and> BM_Subscribe c sub \<in> set rest \<and>
           (j, BM_Subscribe c sub) \<in> set (y_trace y) \<and> pub_topic_name k \<in> set (sub_paths sub))"
      using c(1,2,5) request_came_from [OF ok(1,2) _ c(4)] by fastforce
  }
  fix h
  assume h: "y_handlers y i = Some h \<and> i \<in> y_running y \<and> h_state h = Initialized"
  then have "wf_handler i h" using handlers_okD(3) [OF ok(1)] by blast
  with h have "log_of y i = []" by (auto simp: wf_handler_def idle_def conn_def)
  with ok(3) have "\<forall>m \<in> set (y_inbox y i). inbox_msg {} (set (arrived y)) i m"
    using inbox_okD(1) by (metis empty_set)
  then show "set (y_inbox y i) \<subseteq> {ClientConnectionTimeout}"
    using inbox_msg_idle by blast
qed

theorem deliveries_were_asked_for_witness:
  "\<exists>y. acts duo_platform (duo_setup @ [Net 1 (Frame [4]) up, Forward 1, Serve, Deliver]) (broker_run duo_config) = Some y \<and>
     (\<exists>k sub j. y_inbox y 0 = [BM_Publish ''d'' k] \<and> BM_Subscribe ''c'' sub \<in> set (log_of y j))"
proof -
  let ?k = "\<lparr>pub_dup = False, pub_qospid = QP_AtMostOnce, pub_retain = False, pub_topic_name = ''t'',
      pub_payload = [1]\<rparr>"
  have "map_option (\<lambda>y. (y_inbox y 0, log_of y 0))
      (acts duo_platform (duo_setup @ [Net 1 (Frame [4]) up, Forward 1, Serve, Deliver]) (broker_run duo_config))
      = Some ([BM_Publish ''d'' ?k], [ClientConnected ''c'' 0, BM_Subscribe ''c'' sample_subscribe])"
    by code_simp
  then obtain y where y: "acts duo_platform (duo_setup @ [Net 1 (Frame [4]) up, Forward 1, Serve, Deliver])
        (broker_run duo_config) = Some y" "y_inbox y 0 = [BM_Publish ''d'' ?k]"
        "log_of y 0 = [ClientConnected ''c'' 0, BM_Subscribe ''c'' sample_subscribe]"
    by auto
  have "BM_Publish ''d'' ?k \<in> set (y_inbox y 0)" using y(2) by simp
  then obtain c sub j rest where "ClientConnected c 0 \<in> set (log_of y 0)"
      "log_of y j = ClientConnected c j # rest" "BM_Subscribe c sub \<in> set rest"
    using deliveries_were_asked_for [OF duo_platform_ok reach_acts [OF reach_init y(1)], of "''d''" ?k 0]
    by meson
  then have "BM_Subscribe ''c'' sub \<in> set (log_of y j)" using y(3) by auto
  then show ?thesis using y(1,2) by blast
qed

subsection \<open>Delivery\<close>

text \<open>The acknowledgement that a publish packet asks for can be sent, and what it looks like on the stream.\<close>

definition ack_ok :: "platform \<Rightarrow> (nat \<Rightarrow> bool) \<Rightarrow> QosPid \<Rightarrow> bool" where
  "ack_ok P tcp q \<longleftrightarrow>
     (\<forall>a. ack_of q = Some a \<longrightarrow> (\<forall>n. tcp n) \<and> (\<exists>buf. encode (pf_mqttrs P) a = Inr buf))"

definition ack_frames :: "platform \<Rightarrow> QosPid \<Rightarrow> framed" where
  "ack_frames P q =
     (case ack_of q of
        None \<Rightarrow> []
      | Some a \<Rightarrow> (case encode (pf_mqttrs P) a of Inl _ \<Rightarrow> [] | Inr buf \<Rightarrow> [buf]))"

lemma ack_ok_qos0 [simp]: "ack_ok P tcp QP_AtMostOnce"
  by (simp add: ack_ok_def)

text \<open>The turn of a handler on a publish packet.\<close>

lemma publish_net:
  assumes h: "y_handlers y j = Some h" "j \<in> y_running y" "conn c j h" "flushed y j"
    and k: "decode (pf_mqttrs P) bytes = Inr (Some (P_Publish k))" "ack_ok P tcp (pub_qospid k)"
  shows "\<exists>h'. act P (Net j (Frame bytes) tcp) y = Some (y\<lparr>y_handlers := (y_handlers y)(j \<mapsto> h')\<rparr>) \<and>
    conn c j h' \<and> h_broker_tx h' = h_broker_tx h @ [BM_Publish c k] \<and>
    h_framed h' = h_framed h @ ack_frames P (pub_qospid k)"
proof -
  let ?W = "\<lparr>w_mqttrs = pf_mqttrs P, w_tcp_ok = tcp, w_broker_ok = (\<lambda>_. True), w_info = pf_info P\<rparr>"
  obtain buf where buf: "\<forall>a. ack_of (pub_qospid k) = Some a \<longrightarrow> encode (pf_mqttrs P) a = Inr buf"
    using k(2) unfolding ack_ok_def by (metis option.sel)
  obtain h' where turn: "listen_turn ?W (Frame bytes) h = (Inr True, h')"
    and out: "h_broker_tx h' = h_broker_tx h @ [BM_Publish c k]" "conn c j h'"
      "h_framed h' = h_framed h @ (if ack_of (pub_qospid k) = None then [] else [buf])"
    using publish_frame [OF h(3), of ?W bytes k buf] k buf unfolding ack_ok_def by auto
  then have framed: "h_framed h' = h_framed h @ ack_frames P (pub_qospid k)"
    using buf by (auto simp: ack_frames_def split: option.splits)
  have "listen_for_messages ?W [Frame bytes] h = (Inr True, h')" unfolding listen_Cons [OF turn] by simp
  then have run: "handler_run ?W [Frame bytes] h = (Inr True, h')" by (simp add: handler_run_def)
  show ?thesis using h run out(1,2) framed by (intro exI [of _ h']) (simp add: handler_turn_def)
qed

lemma publish_turn_system:
  assumes ok: "system_ok P y" and h: "y_handlers y j = Some h" "j \<in> y_running y" "conn c j h" "flushed y j"
    and k: "decode (pf_mqttrs P) bytes = Inr (Some (P_Publish k))" "ack_ok P tcp (pub_qospid k)"
    and free: "y_halted y = None" "length (y_queue y) < BROKER_MSG_CHANNEL_CAPACITY"
  shows "\<exists>h'. acts P [Net j (Frame bytes) tcp, Forward j] y = Some (y\<lparr>y_handlers := (y_handlers y)(j \<mapsto> h'),
      y_queue := y_queue y @ [BM_Publish c k], y_sent := (y_sent y)(j := Suc (y_sent y j)),
      y_trace := y_trace y @ [(j, BM_Publish c k)]\<rparr>) \<and>
    conn c j h' \<and> length (h_broker_tx h') = Suc (y_sent y j) \<and>
    h_framed h' = h_framed h @ ack_frames P (pub_qospid k)"
proof -
  obtain h' where net: "act P (Net j (Frame bytes) tcp) y = Some (y\<lparr>y_handlers := (y_handlers y)(j \<mapsto> h')\<rparr>)"
    "conn c j h'" "h_broker_tx h' = h_broker_tx h @ [BM_Publish c k]"
    "h_framed h' = h_framed h @ ack_frames P (pub_qospid k)"
    using publish_net [OF h k] by blast
  have sent: "y_sent y j = length (h_broker_tx h)"
    using ok h(1,4) handlers_okD(2) [OF _ h(1)] by (auto simp: system_ok_def flushed_def)
  show ?thesis
    using free sent net by (intro exI [of _ h']) (simp add: flushed_def Let_def del: act.simps(2))
qed

text \<open>Serving a publish leaves one send for each recipient to be made.\<close>

lemma serve_publish:
  assumes P: "platform_ok P" and ok: "system_ok P y"
    and q: "y_queue y = BM_Publish c k # q" "y_pending y = []" "y_halted y = None"
  shows "\<exists>b' out. serve_turn P y = Some (y\<lparr>y_broker := b', y_queue := q, y_pending := out\<rparr>) \<and>
    absb b' = absb (y_broker y) \<and>
    mset out = image_mset (deliver (y_broker y) (BM_Publish c k))
      (mset_set (recipients (y_broker y) c (pub_topic_name k)))"
proof -
  let ?b = "y_broker y" and ?m = "BM_Publish c k"
  have E: "env_ok (env_of P)" using P by (simp add: env_of_def env_ok_def platform_ok_def)
  have wf: "wf_broker ?b" using ok by (simp add: system_ok_def trace_ok_def)
  define ts where "ts = targets ?b c (be_iter (env_of P) (members ?b (pub_topic_name k)))"
  have ts: "mset ts = mset_set (recipients ?b c (pub_topic_name k))"
    using targets_recipients [OF E wf] mset_set_set unfolding ts_def by metis
  have up: "list_all (reachable_at (env_of P) ?b) ts" by (simp add: list_all_iff reachable_at_def env_of_def)
  then have tw: "takeWhile (reachable_at (env_of P) ?b) ts = ts" by (simp add: list_all_iff)
  obtain b' where serve: "broker_publish (env_of P) c k ?b = (Inr (), b')"
      "b_out b' = b_out ?b @ map (deliver ?b ?m) ts" "members b' = members ?b" "address b' = address ?b"
    using broker_publish_run [OF ts_def] up tw by auto
  have "serve_turn P y = Some (y\<lparr>y_broker := b', y_queue := q, y_pending := map (deliver ?b ?m) ts\<rparr>)"
    using serve q by (simp add: serve_turn_def)
  moreover have "absb b' = absb ?b" using serve by (simp add: absb_def)
  moreover have "mset (map (deliver ?b ?m) ts) =
      image_mset (deliver ?b ?m) (mset_set (recipients ?b c (pub_topic_name k)))" using ts by simp
  ultimately show ?thesis by blast
qed

text \<open>The whole way of a publish, when all recipients' handlers are there and have room for it.\<close>

lemma publish_round:
  assumes P: "platform_ok P" and ok: "system_ok P y" and free: "y_halted y = None" "y_queue y = []" "y_pending y = []"
    and h: "y_handlers y j = Some h" "j \<in> y_running y" "conn c j h" "flushed y j"
    and k: "decode (pf_mqttrs P) bytes = Inr (Some (P_Publish k))" "ack_ok P tcp (pub_qospid k)"
    and R: "R = recipients (y_broker y) c (pub_topic_name k)" "\<forall>d \<in> R. receiver_open y (the (address (y_broker y) d))"
    and room: "\<forall>i. length (y_inbox y i) + card R \<le> BROKER_MSG_CAPACITY"
  shows "\<exists>h' b' out. acts P ([Net j (Frame bytes) tcp, Forward j, Serve] @ replicate (card R) Deliver) y
    = Some (y\<lparr>y_handlers := (y_handlers y)(j \<mapsto> h'), y_sent := (y_sent y)(j := Suc (y_sent y j)),
        y_trace := y_trace y @ [(j, BM_Publish c k)], y_broker := b', y_queue := [], y_pending := [],
        y_inbox := post out (y_inbox y)\<rparr>) \<and>
    conn c j h' \<and> length (h_broker_tx h') = Suc (y_sent y j) \<and>
    h_framed h' = h_framed h @ ack_frames P (pub_qospid k) \<and> absb b' = absb (y_broker y) \<and>
    mset out = image_mset (deliver (y_broker y) (BM_Publish c k)) (mset_set R)"
proof -
  let ?m = "BM_Publish c k"
  obtain h' where steps: "acts P [Net j (Frame bytes) tcp, Forward j] y = Some (y\<lparr>y_handlers := (y_handlers y)(j \<mapsto> h'),
      y_queue := [?m], y_sent := (y_sent y)(j := Suc (y_sent y j)), y_trace := y_trace y @ [(j, ?m)]\<rparr>)"
    and h': "conn c j h'" "length (h_broker_tx h') = Suc (y_sent y j)"
      "h_framed h' = h_framed h @ ack_frames P (pub_qospid k)"
    using publish_turn_system [OF ok h k free(1)] free(2) by (auto simp: BROKER_MSG_CHANNEL_CAPACITY_def)
  define y2 where "y2 = y\<lparr>y_handlers := (y_handlers y)(j \<mapsto> h'), y_queue := [?m],
      y_sent := (y_sent y)(j := Suc (y_sent y j)), y_trace := y_trace y @ [(j, ?m)]\<rparr>"
  have ok2: "system_ok P y2"
    using acts_ok [OF P ok] steps unfolding y2_def by blast
  have y2: "y_queue y2 = [?m]" "y_broker y2 = y_broker y" "y_halted y2 = None" "y_inbox y2 = y_inbox y" "y_pending y2 = []"
    using free by (simp_all add: y2_def)
  obtain b' out where serve: "serve_turn P y2 = Some (y2\<lparr>y_broker := b', y_queue := [], y_pending := out\<rparr>)"
    and out: "absb b' = absb (y_broker y)" "mset out = image_mset (deliver (y_broker y) ?m) (mset_set R)"
    using serve_publish [OF P ok2 y2(1,5,3)] unfolding y2(2) R(1) [symmetric] by auto
  let ?y3 = "y2\<lparr>y_broker := b', y_queue := [], y_pending := out\<rparr>"
  have fin: "finite R" using ok by (auto simp: R(1) system_ok_def trace_ok_def recipients_def)
  have len: "length out = card R" using arg_cong [OF out(2), of size] by (simp add: fin)
  have "receiver_open y2 = receiver_open y"
    using h(2) by (auto simp: fun_eq_iff receiver_open_def flushed_def y2_def cong: option.case_cong)
  then have "receiver_open ?y3 = receiver_open y"
    by (simp add: fun_eq_iff receiver_open_def flushed_def cong: option.case_cong)
  moreover have "receiver_open y i" if "(i, x) \<in> set out" for i x
  proof -
    from that have "(i, x) \<in># image_mset (deliver (y_broker y) ?m) (mset_set R)" using out(2) by (metis set_mset_mset)
    then show ?thesis using R(2) fin by (auto simp: deliver_def)
  qed
  ultimately have "acts P (replicate (length out) Deliver) ?y3 = Some (?y3\<lparr>y_pending := [], y_inbox := post out (y_inbox ?y3)\<rparr>)"
    using room y2 len by (intro deliver_all) auto
  moreover have "acts P ([Net j (Frame bytes) tcp, Forward j] @ Serve # replicate (card R) Deliver) y =
      acts P (replicate (length out) Deliver) ?y3"
    unfolding acts_append steps using serve y2(3) len by (simp add: y2_def)
  ultimately show ?thesis using h' out by (intro exI [of _ h'] exI [of _ b'] exI [of _ out]) (simp add: y2_def)
qed

text \<open>C27: a message published by a connected client, with any quality of service, reaches every connected subscriber of its
  topic: when the publisher's packet is handled, forwarded, served and sent to each of them, and
  all recipients' handlers are there and have room in their channels, the broker goes
  on, the publisher has been sent the acknowledgement it waits for, and the message has been added to the
  channel of each recipient's handler.\<close>

theorem published_message_is_delivered:
  assumes "platform_ok P" "reach P config y" "y_halted y = None" "y_queue y = []" "y_pending y = []"
    and "y_handlers y j = Some h" "j \<in> y_running y" "conn c j h" "flushed y j"
    and "decode (pf_mqttrs P) bytes = Inr (Some (P_Publish k))" "ack_ok P tcp (pub_qospid k)"
    and "\<forall>d \<in> recipients (y_broker y) c (pub_topic_name k). receiver_open y (the (address (y_broker y) d))"
    and "\<forall>i. length (y_inbox y i) + card (recipients (y_broker y) c (pub_topic_name k)) \<le> BROKER_MSG_CAPACITY"
    and "d \<in> recipients (y_broker y) c (pub_topic_name k)" "address (y_broker y) d = Some i"
  shows "\<exists>y' ms. acts P ([Net j (Frame bytes) tcp, Forward j, Serve] @
      replicate (card (recipients (y_broker y) c (pub_topic_name k))) Deliver) y = Some y' \<and>
    y_halted y' = None \<and> y_queue y' = [] \<and> y_pending y' = [] \<and>
    (\<exists>h'. y_handlers y' j = Some h' \<and> h_framed h' = h_framed h @ ack_frames P (pub_qospid k)) \<and>
    y_inbox y' i = y_inbox y i @ ms \<and> BM_Publish c k \<in> set ms"
proof -
  have ok: "system_ok P y" using reach_ok [OF assms(2,1)] .
  let ?R = "recipients (y_broker y) c (pub_topic_name k)" and ?m = "BM_Publish c k"
  obtain h' b' out where steps: "acts P ([Net j (Frame bytes) tcp, Forward j, Serve] @ replicate (card ?R) Deliver) y
    = Some (y\<lparr>y_handlers := (y_handlers y)(j \<mapsto> h'), y_sent := (y_sent y)(j := Suc (y_sent y j)),
        y_trace := y_trace y @ [(j, ?m)], y_broker := b', y_queue := [], y_pending := [],
        y_inbox := post out (y_inbox y)\<rparr>)"
    and out: "mset out = image_mset (deliver (y_broker y) ?m) (mset_set ?R)"
    and h': "h_framed h' = h_framed h @ ack_frames P (pub_qospid k)"
    using publish_round [OF assms(1) ok assms(3-11) refl assms(12,13)] by blast
  have "finite ?R" using ok by (auto simp: system_ok_def trace_ok_def recipients_def)
  then have "(i, ?m) \<in># mset out"
    unfolding out using assms(14,15) by (auto simp: deliver_def image_iff intro!: bexI [of _ d])
  then have "?m \<in> set (map snd (filter (\<lambda>(tx, m). tx = i) out))" by (intro in_selected) simp
  then show ?thesis unfolding steps using assms(3-5) h' by (auto simp: post_def)
qed

theorem published_message_is_delivered_witness:
  "\<exists>y ms k. acts duo_platform [Net 1 (Frame [4]) up, Forward 1, Serve, Deliver] duo_state = Some y \<and>
     y_halted y = None \<and> y_inbox y 0 = y_inbox duo_state 0 @ ms \<and> BM_Publish ''d'' k \<in> set ms"
proof -
  note s = duo_state_facts
  obtain h where h: "y_handlers duo_state 1 = Some h" "conn ''d'' 1 h" using duo_handlers by blast
  have r: "recipients (y_broker duo_state) ''d'' (pub_topic_name duo_message) = {''c''}"
    using s(8,9) by (auto simp: recipients_def duo_message_def)
  have "\<exists>y ms. acts duo_platform ([Net 1 (Frame [4]) up, Forward 1, Serve] @
      replicate (card (recipients (y_broker duo_state) ''d'' (pub_topic_name duo_message))) Deliver) duo_state = Some y \<and>
     y_halted y = None \<and> y_queue y = [] \<and> y_pending y = [] \<and>
     (\<exists>h'. y_handlers y 1 = Some h' \<and> h_framed h' = h_framed h @ ack_frames duo_platform (pub_qospid duo_message)) \<and>
     y_inbox y 0 = y_inbox duo_state 0 @ ms \<and> BM_Publish ''d'' duo_message \<in> set ms"
    by (rule published_message_is_delivered [OF duo_platform_ok duo_reach s(1,2,3) h(1) s(5) h(2) s(7) duo_decode _ _ _ _ s(9)])
      (unfold r, simp_all add: s(4,9) duo_inbox receiver_open_def duo_message_def BROKER_MSG_CAPACITY_def)
  moreover have "[Net 1 (Frame [4]) up, Forward 1, Serve] @ replicate (card {''c''}) Deliver
      = [Net 1 (Frame [4]) up, Forward 1, Serve, Deliver]" by simp
  ultimately show ?thesis unfolding r by metis
qed

subsection \<open>Interleavings that end badly\<close>

text \<open>C19: a well-behaved subscriber that closes its connection while a publish for it waits in the
  channel of the broker ends the broker: its handler says \<open>ClientDisconnected\<close> and drops its
  receiver, the publish in front of that message cannot be delivered, and \<open>Broker::run\<close>
  returns \<open>BrokerMsgSendFailure\<close> for all clients.\<close>

theorem leaving_subscriber_ends_broker:
  "\<exists>y y'. reach duo_platform duo_config y \<and> y_halted y = None \<and>
     acts duo_platform duo_race y = Some y' \<and> y_halted y' = Some (BrokerError BrokerMsgSendFailure) \<and>
     ClientDisconnected ''c'' \<in> set (y_queue y') \<and> 1 \<in> y_running y'"
proof -
  have "y_halted duo_state = None" by code_simp
  moreover have "map_option (\<lambda>y. (y_halted y, y_queue y, 1 \<in> y_running y)) (acts duo_platform duo_race duo_state)
      = Some (Some (BrokerError BrokerMsgSendFailure), [ClientDisconnected ''c''], True)"
    by code_simp
  ultimately show ?thesis using duo_reach by auto
qed

text \<open>
  A handler is forgotten when it has sent its registration, which is served, and the broker has
  no entry with its channel: no message is on its way to it, nor is one to come.
\<close>

definition forgotten :: "sender \<Rightarrow> system \<Rightarrow> bool" where
  "forgotten i y \<longleftrightarrow>
     0 < y_sent y i \<and> (\<forall>c. ClientConnected c i \<notin> set (y_queue y)) \<and>
     (\<forall>c. address (y_broker y) c \<noteq> Some i) \<and> (\<forall>m. (i, m) \<notin> set (y_pending y)) \<and>
     (\<forall>client k. BM_Publish client k \<notin> set (y_inbox y i))"

lemma registers_once:
  assumes "handlers_ok y" "y_handlers y j = Some h" "y_sent y j < length (h_broker_tx h)"
    and "h_broker_tx h ! y_sent y j = ClientConnected c i"
  shows "j = i \<and> y_sent y i = 0"
proof -
  have m: "ClientConnected c i \<in> set (log_of y j)" using assms(2-4) by (metis log_ofs(1) nth_mem)
  then have "i = j" using log_requests(2) [OF assms(1)] by blast
  obtain c' rest where log: "log_of y j = ClientConnected c' j # rest"
      "\<And>x. x \<in> set rest \<Longrightarrow> request_of c' x \<or> x = ClientDisconnected c'"
    using log_opens [OF assms(1), of j] m by (metis empty_iff empty_set)
  have "y_sent y j = 0"
  proof (rule ccontr)
    assume "y_sent y j \<noteq> 0"
    then obtain n where n: "y_sent y j = Suc n" using not0_implies_Suc by blast
    with assms(2,3,4) log(1) have "ClientConnected c i = rest ! n" "n < length rest" by simp_all
    then have "ClientConnected c i \<in> set rest" by (metis nth_mem)
    from log(2) [OF this] show False by simp
  qed
  with \<open>i = j\<close> show ?thesis by simp
qed

lemma forgotten_retry:
  assumes "system_ok P y" "forgotten i y" "act P (Retry j k) y = Some y'"
  shows "forgotten i y'"
proof -
  obtain h where h: "y_handlers y j = Some h" "j \<in> y_running y"
    using assms(3) by (auto split: option.splits if_splits)
  obtain out tasks where tick: "pool_tick k (h_tasks h) = (out, tasks)" by fastforce
  have wf: "wf_handler j h" using assms(1) handlers_okD(3) [OF _ h] by (simp add: system_ok_def)
  have no: "out \<noteq> Some (tx, BM_Publish client p)" for tx client p
  proof (cases "idle j h")
    case True
    then show ?thesis using tick by (auto simp: idle_def pool_tick_def empty_pool_def)
  next
    case False
    with wf obtain s where "wf_store (s, h_tasks h)" by (auto simp: wf_handler_def conn_def)
    then show ?thesis using pool_tick_sends [of s "h_tasks h" k] tick by fastforce
  qed
  have "BM_Publish client p \<notin> set (y_inbox y' i)" for client p
    using assms(2,3) h tick no [of i client p]
    by (auto simp: forgotten_def in_post split: option.splits if_splits)
  then show ?thesis using assms(2,3) h tick by (auto simp: forgotten_def split: if_splits)
qed

lemma forgotten_serve:
  assumes P: "platform_ok P" and ok: "system_ok P y" and gone: "forgotten i y"
    and step: "serve_turn P y = Some y'"
  shows "forgotten i y'"
proof -
  let ?E = "env_of P"
  have E: "env_ok ?E" using P by (simp add: env_of_def env_ok_def platform_ok_def)
  have wf: "wf_broker (y_broker y)" using ok by (simp add: system_ok_def trace_ok_def)
  obtain m q where q: "y_queue y = m # q" using step by (auto simp: serve_turn_def split: list.splits if_splits)
  obtain r b' where turn: "broker_turn ?E m (y_broker y) = (r, b')" by fastforce
  obtain sent where sent: "b_out b' = b_out (y_broker y) @ sent"
    "\<And>tx x. (tx, x) \<in> set sent \<Longrightarrow> \<exists>c. address (y_broker y) c = Some tx"
    using broker_turn_sends [OF wf E turn] by metis
  have y': "y_broker y' = b'" "y_queue y' = q" "y_pending y' = sent" "y_inbox y' = y_inbox y"
      "y_sent y' = y_sent y"
    using step q turn sent(1) by (auto simp: serve_turn_def split: if_splits)
  have "address b' = ps_address (ps_step m (absb (y_broker y)))"
    using broker_turn_absb [OF wf E, of m] turn by (metis absb_simps(1) snd_conv)
  moreover have "m \<noteq> ClientConnected c i" for c using gone q by (auto simp: forgotten_def)
  ultimately have "address b' c \<noteq> Some i" for c
    using gone by (cases m) (auto simp: forgotten_def)
  moreover have "(i, x) \<notin> set sent" for x using sent(2) gone unfolding forgotten_def by metis
  ultimately show ?thesis using gone q by (simp add: forgotten_def y')
qed

lemma forgotten_act:
  assumes P: "platform_ok P" and ok: "system_ok P y" and gone: "forgotten i y"
    and step: "act P a y = Some y'"
  shows "forgotten i y'"
proof (cases a)
  case (Net j e tcp)
  then have "handler_turn P j e tcp y = Some y'" using step by (auto split: event.splits)
  then show ?thesis by (rule handler_turn_cases) (use gone in \<open>auto simp: forgotten_def\<close>)
next
  case (Inbox j tcp)
  then obtain m ms y1 where m: "y_inbox y j = m # ms" "handler_turn P j (FromBroker m) tcp y = Some y1"
      "y' = y1\<lparr>y_inbox := (y_inbox y1)(j := ms)\<rparr>"
    using step by (auto split: list.splits)
  from m(2) show ?thesis by (rule handler_turn_cases) (use gone m in \<open>auto simp: forgotten_def\<close>)
next
  case (Forward j)
  then obtain h where h: "y_handlers y j = Some h" "y_sent y j < length (h_broker_tx h)"
      "y' = y\<lparr>y_queue := y_queue y @ [h_broker_tx h ! y_sent y j],
        y_sent := (y_sent y)(j := Suc (y_sent y j)),
        y_trace := y_trace y @ [(j, h_broker_tx h ! y_sent y j)]\<rparr>"
    using step by (auto simp: flushed_def not_le Let_def split: option.splits if_splits)
  have "h_broker_tx h ! y_sent y j \<noteq> ClientConnected c i" for c
    using registers_once [OF _ h(1,2)] gone ok by (auto simp: forgotten_def system_ok_def)
  then have "ClientConnected c i \<notin> set (y_queue y @ [h_broker_tx h ! y_sent y j])" for c
    using gone by (simp add: forgotten_def not_sym)
  then show ?thesis using gone unfolding forgotten_def h(3) by simp
next
  case Serve
  then show ?thesis using forgotten_serve [OF P ok gone] step by simp
next
  case Deliver
  then have "deliver_turn y = Some y'" using step by simp
  then show ?thesis
    using gone by (auto simp: deliver_turn_def forgotten_def in_post split: list.splits if_splits)
next
  case (Retry j k)
  then show ?thesis using forgotten_retry [OF ok gone] step by blast
next
  case (Timeout j)
  then show ?thesis
    using gone step by (auto simp: forgotten_def in_post split: option.splits if_splits)
qed (use gone step in \<open>auto simp: forgotten_def spawn_handler_def\<close>)

text \<open>Once forgotten, a handler is sent no publish ever after.\<close>

lemma forgotten_for_ever:
  assumes "platform_ok P" "system_ok P y" "forgotten i y" "acts P as y = Some y'"
  shows "forgotten i y'"
  using assms(2-4)
proof (induction as arbitrary: y)
  case (Cons a as)
  then obtain y1 where "act P a y = Some y1" "acts P as y1 = Some y'"
    by (auto split: if_splits simp: bind_eq_Some_conv)
  then show ?case using Cons.IH act_ok forgotten_act assms(1) Cons.prems(1,2) by blast
qed simp

lemma running_conn:
  assumes "system_ok P y" "i \<in> y_running y" "log_of y i = ClientConnected c i # rest"
  shows "\<exists>h. y_handlers y i = Some h \<and> conn c i h"
proof -
  obtain h where h: "y_handlers y i = Some h" using assms(3) by (cases "y_handlers y i") auto
  then have "wf_handler i h"
    using assms(1,2) handlers_okD(3) [OF _ h] by (simp add: system_ok_def)
  then show ?thesis
    using h assms(3) by (auto simp: wf_handler_def idle_def conn_def conversation_def)
qed

lemma duo_both_ok: "system_ok duo_platform duo_both"
  using reach_ok [OF reach_acts [OF reach_init duo_both_acts] duo_platform_ok] .

lemma duo_taken_ok: "system_ok duo_platform duo_taken"
  using acts_ok [OF duo_platform_ok duo_both_ok duo_taken_acts] .

lemma duo_both_facts:
  "y_halted duo_both = None" "0 \<in> y_running duo_both" "1 \<in> y_running duo_both"
  "flushed duo_both 0" "flushed duo_both 1" "y_queue duo_both = []" "y_pending duo_both = []"
  "log_of duo_both 0 = [ClientConnected ''c'' 0]" "log_of duo_both 1 = [ClientConnected ''c'' 1]"
  "address (y_broker duo_both) ''c'' = Some 1"
  by code_simp+

lemma duo_taken_facts:
  "y_halted duo_taken = None" "1 \<in> y_running duo_taken" "flushed duo_taken 1" "y_queue duo_taken = []"
  "y_pending duo_taken = []" "log_of duo_taken 1 = [ClientConnected ''c'' 1]"
  "map snd (y_trace duo_taken) = [ClientConnected ''c'' 0, ClientConnected ''c'' 1, ClientDisconnected ''c'']"
  "address (y_broker duo_taken) ''c'' = None" "y_sent duo_taken 1 = 1" "y_inbox duo_taken 1 = []"
  by code_simp+

lemma duo_taken_forgotten: "forgotten 1 duo_taken"
proof -
  have "absb (y_broker duo_taken) = fold ps_step (map snd (y_trace duo_taken)) ps_init"
    using duo_taken_ok duo_taken_facts(4) by (auto simp: system_ok_def trace_ok_def arrived_def)
  then have "address (y_broker duo_taken) = Map.empty"
    unfolding duo_taken_facts(7) by (auto simp: ps_init_def absb_def fun_eq_iff)
  then show ?thesis using duo_taken_facts by (simp add: forgotten_def)
qed

text \<open>C20: a session takeover loses the client. Client \<open>c\<close> connects twice, and both handlers run, have
  registered it and have had all they sent served, so that the broker's channel for \<open>c\<close> is
  the second one's; then the first connection is closed. Now the broker, which is idle, has no
  channel for \<open>c\<close>, though the second handler goes on as connected as before; and in no
  continuation, whatever is sent over whichever connection, does a publish ever enter its
  channel again: for instance it subscribes to the topic that another client then
  publishes to, both requests are served, and it is sent nothing.\<close>

theorem takeover_loses_client:
  "acts duo_platform duo_twice (broker_run duo_config) = Some duo_both \<and>
   y_halted duo_both = None \<and> y_queue duo_both = [] \<and> y_pending duo_both = [] \<and>
   (\<forall>i \<in> {0, 1}. i \<in> y_running duo_both \<and> flushed duo_both i \<and>
      (\<exists>h. y_handlers duo_both i = Some h \<and> conn ''c'' i h)) \<and>
   address (y_broker duo_both) ''c'' = Some 1 \<and>
   acts duo_platform [Net 0 StreamClosed up, Forward 0, Serve] duo_both = Some duo_taken \<and>
   y_halted duo_taken = None \<and> y_queue duo_taken = [] \<and> y_pending duo_taken = [] \<and>
   1 \<in> y_running duo_taken \<and> flushed duo_taken 1 \<and>
   (\<exists>h. y_handlers duo_taken 1 = Some h \<and> conn ''c'' 1 h) \<and>
   map snd (y_trace duo_taken)
     = [ClientConnected ''c'' 0, ClientConnected ''c'' 1, ClientDisconnected ''c''] \<and>
   address (y_broker duo_taken) ''c'' = None \<and>
   (\<forall>as y client k. acts duo_platform as duo_taken = Some y \<longrightarrow>
      BM_Publish client k \<notin> set (y_inbox y 1)) \<and>
   (\<exists>y. acts duo_platform duo_after duo_taken = Some y \<and> y_queue y = [] \<and> y_pending y = [] \<and>
      y_halted y = None \<and> 1 \<in> y_running y \<and> flushed y 1 \<and> y_inbox y 1 = [] \<and>
      map snd (y_trace y) = map snd (y_trace duo_taken)
        @ [BM_Subscribe ''c'' sample_subscribe, ClientConnected ''d'' 2, BM_Publish ''d'' duo_message])"
proof -
  have "BM_Publish client k \<notin> set (y_inbox y 1)" if "acts duo_platform as duo_taken = Some y" for as y client k
    using forgotten_for_ever [OF duo_platform_ok duo_taken_ok duo_taken_forgotten that]
    by (simp add: forgotten_def)
  moreover have "\<exists>h. y_handlers duo_both 0 = Some h \<and> conn ''c'' 0 h"
      "\<exists>h. y_handlers duo_both 1 = Some h \<and> conn ''c'' 1 h"
      "\<exists>h. y_handlers duo_taken 1 = Some h \<and> conn ''c'' 1 h"
    by (rule running_conn [OF duo_both_ok duo_both_facts(2,8)]
        running_conn [OF duo_both_ok duo_both_facts(3,9)]
        running_conn [OF duo_taken_ok duo_taken_facts(2,6)])+
  moreover have "map_option (\<lambda>y. (y_queue y, y_pending y, y_halted y, 1 \<in> y_running y, flushed y 1,
        y_inbox y 1, map snd (y_trace y))) (acts duo_platform duo_after duo_taken)
      = Some ([], [], None, True, True, [],
          [ClientConnected ''c'' 0, ClientConnected ''c'' 1, ClientDisconnected ''c'',
           BM_Subscribe ''c'' sample_subscribe, ClientConnected ''d'' 2, BM_Publish ''d'' duo_message])"
    by code_simp
  ultimately show ?thesis
    using duo_both_acts duo_both_facts duo_taken_acts duo_taken_facts unfolding duo_close_def by auto
qed

theorem takeover_loses_client_witness:
  "\<exists>y. acts duo_platform duo_after duo_taken = Some y \<and> BM_Publish ''d'' duo_message \<notin> set (y_inbox y 1)"
proof -
  obtain y where "acts duo_platform duo_after duo_taken = Some y" using takeover_loses_client by blast
  then show ?thesis using takeover_loses_client by blast
qed

end
