(* ===== verification/Broker_Channels.thy ===== *)
theory Broker_Channels
  imports System_Properties
begin

section \<open>Waiting for room in a channel\<close>

text \<open>
  The broker task waits while the channel of a handler is full, and a handler waits while
  the channel of the broker is full. The two can wait for each other. This theory shows that no channel
  ever holds more than its capacity, that this mutual waiting is the only way in which
  the broker can be held up, that it is final, and that it can be reached.
\<close>

text \<open>The broker waits for handler \<open>i\<close> and handler \<open>i\<close> for the broker.\<close>

definition stuck :: "sender \<Rightarrow> system \<Rightarrow> bool" where
  "stuck i y \<longleftrightarrow> (\<exists>m out. y_pending y = (i, m) # out) \<and> receiver_open y i \<and> \<not> flushed y i \<and>
     length (y_inbox y i) \<ge> BROKER_MSG_CAPACITY \<and> length (y_queue y) \<ge> BROKER_MSG_CHANNEL_CAPACITY"

subsection \<open>Capacities\<close>

definition bounded :: "system \<Rightarrow> bool" where
  "bounded y \<longleftrightarrow> length (y_queue y) \<le> BROKER_MSG_CHANNEL_CAPACITY \<and>
     (\<forall>i. length (y_inbox y i) \<le> BROKER_MSG_CAPACITY)"

lemma handler_turn_frame:
  assumes "handler_turn P j e tcp y = Some y'"
  shows "y_queue y' = y_queue y" "y_pending y' = y_pending y" "y_inbox y' = y_inbox y" "y_broker y' = y_broker y"
    "y_trace y' = y_trace y" "y_sent y' = y_sent y" "flushed y j"
    "i \<noteq> j \<Longrightarrow> y_handlers y' i = y_handlers y i" "i \<noteq> j \<Longrightarrow> i \<in> y_running y' \<longleftrightarrow> i \<in> y_running y"
    "i \<noteq> j \<Longrightarrow> i \<in> y_leaving y' \<longleftrightarrow> i \<in> y_leaving y"
  using assms
  by (auto simp: handler_turn_def split: option.splits if_splits prod.splits sum.splits failure.splits bool.splits)

text \<open>What the other steps do to the channels.\<close>

lemma post_length: "length (post out inbox i) = length (inbox i) + length (filter (\<lambda>(tx, m). tx = i) out)"
  by (simp add: post_def)

lemma retry_cases:
  assumes "act P (Retry j k) y = Some y'"
  obtains h tasks out where "y_handlers y j = Some h" "out = [] \<or> (\<exists>tx m. out = [(tx, m)] \<and> length (y_inbox y tx) < BROKER_MSG_CAPACITY)"
    "y' = y\<lparr>y_handlers := (y_handlers y)(j \<mapsto> h\<lparr>h_tasks := tasks\<rparr>), y_inbox := post out (y_inbox y)\<rparr>"
proof -
  obtain h where h: "y_handlers y j = Some h" "j \<in> y_running y"
    using assms by (auto split: option.splits if_splits)
  obtain out tasks where tick: "pool_tick k (h_tasks h) = (out, tasks)" by fastforce
  show ?thesis
    using assms h tick that [of h "case out of None \<Rightarrow> [] | Some o1 \<Rightarrow> [o1]" tasks]
    by (auto split: option.splits if_splits)
qed

lemma act_bounded:
  assumes "bounded y" "act P a y = Some y'"
  shows "bounded y'"
proof (cases a)
  case (Net j e tcp)
  then show ?thesis
    using assms handler_turn_frame(1,3) [of P j e tcp y y'] by (auto simp: bounded_def split: event.splits)
next
  case (Inbox j tcp)
  then show ?thesis
    using assms handler_turn_frame(1,3) [of P j _ tcp y]
    by (auto simp: bounded_def split: list.splits) (metis Suc_leD length_Cons)
next
  case Deliver
  then show ?thesis
    using assms by (auto simp: bounded_def deliver_turn_def post_length split: list.splits if_splits)
next
  case (Retry j k)
  show ?thesis
    using assms(2) unfolding Retry
    by (rule retry_cases) (use assms(1) in \<open>auto simp: bounded_def post_length\<close>)
next
  case (Timeout j)
  then show ?thesis
    using assms by (auto simp: bounded_def post_length split: option.splits if_splits)
qed (use assms in \<open>auto simp: bounded_def spawn_handler_def serve_turn_def Let_def split: option.splits if_splits list.splits prod.splits\<close>)

lemma reach_bounded: "reach P config y \<Longrightarrow> bounded y"
  by (induction rule: reach.induct) (auto intro: act_bounded, simp add: bounded_def broker_run_def)

subsection \<open>Progress\<close>

lemma handler_turn_possible:
  "y_handlers y i = Some h \<Longrightarrow> i \<in> y_running y \<Longrightarrow> flushed y i \<Longrightarrow> handler_turn P i e tcp y \<noteq> None"
  by (auto simp: handler_turn_def split: prod.splits sum.splits failure.splits bool.splits)

lemma progress:
  assumes "platform_ok P" "system_ok P y" "y_queue y \<noteq> [] \<or> y_pending y \<noteq> []"
    and "act P Serve y = None" "act P Deliver y = None" "\<forall>i. act P (Forward i) y = None"
    and "\<forall>i tcp. act P (Inbox i tcp) y = None"
  shows "\<exists>i. stuck i y"
proof -
  obtain i m out where p: "y_pending y = (i, m) # out"
    using assms(3,4) by (cases "y_pending y") (auto simp: serve_turn_def split: list.splits prod.splits)
  then have full: "receiver_open y i" "length (y_inbox y i) \<ge> BROKER_MSG_CAPACITY"
    using assms(5) by (auto simp: deliver_turn_def split: if_splits)
  then obtain x xs where inbox: "y_inbox y i = x # xs"
    by (cases "y_inbox y i") (auto simp: BROKER_MSG_CAPACITY_def)
  obtain h where h: "y_handlers y i = Some h"
    using assms(2) handlers_okD(5) [of y i] inbox by (cases "y_handlers y i") (auto simp: system_ok_def)
  have "handler_turn P i (FromBroker x) up y = None" using assms(7) inbox by (auto split: list.splits)
  with handler_turn_possible [OF h, of P "FromBroker x" up] full(1) have "\<not> flushed y i"
    by (auto simp: receiver_open_def)
  moreover from this have "length (y_queue y) \<ge> BROKER_MSG_CHANNEL_CAPACITY"
    using assms(6) [rule_format, of i] h by (auto simp: Let_def split: if_splits)
  ultimately show ?thesis using p full unfolding stuck_def by blast
qed

text \<open>C6: the broker and the handlers it waits for are held up only by waiting for each other. In every
  reachable state in which the process runs and the broker has something to do, either it can take a
  step, or a handler can pass on a request or take a message from its channel, or there is a
  handler \<open>i\<close> with \<open>stuck i\<close>: its channel is full, the broker waits to send to it, and it waits itself to
  send to the broker, whose channel is full. No channel is ever filled beyond its capacity.\<close>

theorem broker_progress:
  assumes "platform_ok P" "reach P config y" "y_halted y = None" "y_queue y \<noteq> [] \<or> y_pending y \<noteq> []"
  shows "(act P Serve y \<noteq> None \<or> act P Deliver y \<noteq> None \<or> (\<exists>i. act P (Forward i) y \<noteq> None) \<or>
      (\<exists>i tcp. act P (Inbox i tcp) y \<noteq> None) \<or> (\<exists>i. stuck i y)) \<and>
    length (y_queue y) \<le> 100 \<and> (\<forall>i. length (y_inbox y i) \<le> 100)"
proof -
  have "\<exists>i. stuck i y" if "\<not> (act P Serve y \<noteq> None \<or> act P Deliver y \<noteq> None \<or> (\<exists>i. act P (Forward i) y \<noteq> None) \<or>
      (\<exists>i tcp. act P (Inbox i tcp) y \<noteq> None))"
    using progress [OF assms(1) reach_ok [OF assms(2,1)] assms(4)] that by blast
  then show ?thesis
    using reach_bounded [OF assms(2)]
    unfolding bounded_def BROKER_MSG_CHANNEL_CAPACITY_def BROKER_MSG_CAPACITY_def by blast
qed

theorem broker_progress_witness:
  "\<exists>y. acts duo_platform [Net 1 (Frame [4]) up, Forward 1] duo_state = Some y \<and> length (y_queue y) = 1 \<and>
     (act duo_platform Serve y \<noteq> None \<or> act duo_platform Deliver y \<noteq> None \<or>
      (\<exists>i. act duo_platform (Forward i) y \<noteq> None) \<or> (\<exists>i tcp. act duo_platform (Inbox i tcp) y \<noteq> None) \<or> (\<exists>i. stuck i y))"
proof -
  have "map_option (\<lambda>y. (y_halted y, length (y_queue y))) (acts duo_platform [Net 1 (Frame [4]) up, Forward 1] duo_state)
      = Some (None, 1)" by code_simp
  then obtain y where y: "acts duo_platform [Net 1 (Frame [4]) up, Forward 1] duo_state = Some y"
    "y_halted y = None" "length (y_queue y) = 1" by auto
  then have "y_queue y \<noteq> [] \<or> y_pending y \<noteq> []" by auto
  from broker_progress [OF duo_platform_ok reach_acts [OF duo_reach y(1)] y(2) this] y show ?thesis by blast
qed

subsection \<open>Mutual waiting is final\<close>

lemma stuckD:
  assumes "stuck i y"
  shows "y_pending y \<noteq> []" "deliver_turn y = None" "\<not> flushed y i" "act P (Forward j) y = None"
    "act P Serve y = None"
  using assms by (auto simp: stuck_def deliver_turn_def serve_turn_def split: option.splits)

definition same_broker :: "system \<Rightarrow> system \<Rightarrow> bool" where
  "same_broker y y' \<longleftrightarrow> y_queue y' = y_queue y \<and> y_pending y' = y_pending y \<and> y_broker y' = y_broker y \<and>
     y_trace y' = y_trace y"

lemma stuck_keep:
  assumes "stuck i y" "same_broker y y'" "length (y_inbox y' i) \<ge> length (y_inbox y i)" "y_sent y' i = y_sent y i"
    and "map_option h_broker_tx (y_handlers y' i) = map_option h_broker_tx (y_handlers y i)"
    and "i \<in> y_running y' \<longleftrightarrow> i \<in> y_running y" "i \<in> y_leaving y' \<longleftrightarrow> i \<in> y_leaving y"
  shows "stuck i y'"
proof -
  have "flushed y' i = flushed y i"
    using assms(4,5) by (cases "y_handlers y i"; cases "y_handlers y' i") (auto simp: flushed_def)
  then show ?thesis using assms by (auto simp: stuck_def same_broker_def receiver_open_def)
qed

lemma stuck_turn:
  assumes "stuck i y" "handler_turn P j e tcp y = Some y1" "y' = y1\<lparr>y_inbox := inbox\<rparr>" "i \<noteq> j \<Longrightarrow> inbox i = y_inbox y i"
  shows "stuck i y' \<and> same_broker y y'"
proof -
  note f = handler_turn_frame [OF assms(2)]
  have "i \<noteq> j" using f(7) stuckD(3) [OF assms(1)] by blast
  moreover have same: "same_broker y y'" using f(1-6) by (simp add: same_broker_def assms(3))
  ultimately have "stuck i y'"
    using f(6) f(8-10) [of i] assms(4) by (intro stuck_keep [OF assms(1) same]) (simp_all add: assms(3))
  with same show ?thesis by blast
qed

lemma stuck_act:
  assumes ok: "system_ok P y" and i: "stuck i y" and step: "act P a y = Some y'"
  shows "stuck i y' \<and> same_broker y y'"
proof (cases a)
  case (Accept addr)
  obtain h where "y_handlers y i = Some h" using stuckD(3) [OF i] by (auto simp: flushed_def split: option.splits)
  with ok have "i < y_next y" using handlers_okD(1) by (auto simp: system_ok_def)
  moreover have y': "y' = spawn_handler addr y" using step Accept by simp
  moreover have same: "same_broker y y'" by (simp add: same_broker_def y' spawn_handler_def)
  ultimately have "stuck i y'" by (intro stuck_keep [OF i same]) (simp_all add: spawn_handler_def)
  with same show ?thesis by blast
next
  case (Net j e tcp)
  then have "handler_turn P j e tcp y = Some y'" using step by (auto split: event.splits)
  from stuck_turn [OF i this, of y' "y_inbox y'"] handler_turn_frame(3) [OF this] show ?thesis by simp
next
  case (Inbox j tcp)
  then obtain m ms y1 where m: "handler_turn P j (FromBroker m) tcp y = Some y1" "y' = y1\<lparr>y_inbox := (y_inbox y1)(j := ms)\<rparr>"
    using step by (auto split: list.splits)
  from stuck_turn [OF i this] handler_turn_frame(3) [OF m(1)] show ?thesis by simp
next
  case (Retry j k)
  show ?thesis
    using step unfolding Retry
  proof (rule retry_cases)
    fix h tasks out
    assume h: "y_handlers y j = Some h"
      "y' = y\<lparr>y_handlers := (y_handlers y)(j \<mapsto> h\<lparr>h_tasks := tasks\<rparr>), y_inbox := post out (y_inbox y)\<rparr>"
    have same: "same_broker y y'" by (simp add: same_broker_def h(2))
    moreover have "stuck i y'" by (intro stuck_keep [OF i same]) (use h in \<open>auto simp: post_length\<close>)
    ultimately show ?thesis by blast
  qed
next
  case (Timeout j)
  then obtain h where h: "y_handlers y j = Some h" "y' = y\<lparr>y_handlers := (y_handlers y)(j \<mapsto> h\<lparr>h_connect_timeout := False\<rparr>),
      y_inbox := post [(j, ClientConnectionTimeout)] (y_inbox y)\<rparr>"
    using step by (auto split: option.splits if_splits)
  have same: "same_broker y y'" by (simp add: same_broker_def h(2))
  moreover have "stuck i y'" by (intro stuck_keep [OF i same]) (use h in \<open>auto simp: post_length\<close>)
  ultimately show ?thesis by blast
qed (use step stuckD [OF i] in auto)

lemma stuck_acts:
  assumes "platform_ok P" "system_ok P y" "stuck i y" "acts P as y = Some y'"
  shows "stuck i y' \<and> same_broker y y'"
  using assms(2-4)
proof (induction as arbitrary: y)
  case (Cons a as)
  then obtain y1 where y1: "act P a y = Some y1" "acts P as y1 = Some y'"
    by (auto simp: bind_eq_Some_conv split: if_splits)
  have one: "stuck i y1 \<and> same_broker y y1" using stuck_act [OF Cons.prems(1,2) y1(1)] .
  then have "stuck i y' \<and> same_broker y1 y'" using Cons.IH [OF act_ok [OF assms(1) Cons.prems(1) y1(1)] _ y1(2)] by blast
  with one show ?case by (simp add: same_broker_def)
qed (auto simp: same_broker_def)

subsection \<open>Mutual waiting can be reached\<close>

text \<open>Client \<open>d\<close> publishes to \<open>c\<close>, whose handler does not get to read its channel: \<open>n\<close> messages are in the channel of
  \<open>c\<close>'s handler, \<open>q\<close> in that of the broker.\<close>

definition duo_load :: "nat \<Rightarrow> (sender \<times> BrokerMsg) list \<Rightarrow> nat \<Rightarrow> system \<Rightarrow> bool" where
  "duo_load n ps q y \<longleftrightarrow> reach duo_platform duo_config y \<and> y_halted y = None \<and> y_pending y = ps \<and>
     y_queue y = replicate q (BM_Publish ''d'' duo_message) \<and> length (y_inbox y 0) = n \<and> (\<forall>i. i \<noteq> 0 \<longrightarrow> y_inbox y i = []) \<and>
     (\<forall>i \<in> {0, 1}. i \<in> y_running y \<and> flushed y i) \<and>
     (\<exists>h. y_handlers y 0 = Some h \<and> conn ''c'' 0 h) \<and> (\<exists>h. y_handlers y 1 = Some h \<and> conn ''d'' 1 h) \<and>
     absb (y_broker y) = absb (y_broker duo_state)"

lemma duo_load_start: "duo_load 0 [] 0 duo_state"
  using duo_reach duo_state_facts duo_inbox duo_handlers by (simp add: duo_load_def)

lemma duo_load_recipients:
  assumes "duo_load n ps q y"
  shows "recipients (y_broker y) ''d'' ''t'' = {''c''}" "address (y_broker y) ''c'' = Some 0"
proof -
  have "members (y_broker y) = members (y_broker duo_state)" "address (y_broker y) = address (y_broker duo_state)"
    using assms by (auto simp: duo_load_def absb_def)
  then show "recipients (y_broker y) ''d'' ''t'' = {''c''}" "address (y_broker y) ''c'' = Some 0"
    using duo_state_facts by (auto simp: recipients_def)
qed

lemma duo_load_step:
  assumes y: "duo_load n ps q y" and step: "acts duo_platform as y = Some y'"
    and y': "y_halted y' = None" "y_pending y' = ps'" "y_queue y' = replicate q' (BM_Publish ''d'' duo_message)"
      "length (y_inbox y' 0) = n'"
      "\<forall>i. i \<noteq> 0 \<longrightarrow> y_inbox y' i = y_inbox y i" "y_running y' = y_running y" "absb (y_broker y') = absb (y_broker y)"
    and h': "y_handlers y' = (y_handlers y)(1 \<mapsto> h')" "y_sent y' = (y_sent y)(1 := length (h_broker_tx h'))" "conn ''d'' 1 h'"
  shows "duo_load n' ps' q' y'"
proof -
  note d = y [unfolded duo_load_def]
  have "flushed y' 1" "flushed y' 0 = flushed y 0" by (simp_all add: flushed_def h' cong: option.case_cong)
  then show ?thesis using d reach_acts [OF _ step] y' h' by (simp add: duo_load_def)
qed

text \<open>One more message for \<open>c\<close> goes all the way, or waits in the channel of the broker.\<close>

lemma duo_load_round:
  assumes y: "duo_load n [] 0 y" and n: "n < 100"
  shows "\<exists>y'. duo_load (Suc n) [] 0 y'"
proof -
  note d = y [unfolded duo_load_def] and r = duo_load_recipients [OF y]
  obtain h where h: "y_handlers y 1 = Some h" "conn ''d'' 1 h" using d by blast
  let ?m = "BM_Publish ''d'' duo_message"
  let ?as = "[Net 1 (Frame [4]) up, Forward 1, Serve] @ replicate (card {''c''}) Deliver"
  have ok: "system_ok duo_platform y" using reach_ok [OF _ duo_platform_ok] d by blast
  have inbox: "length (y_inbox y i) < 100" for i using d n by (cases "i = 0") auto
  have "\<exists>h' b' out. acts duo_platform ?as y
    = Some (y\<lparr>y_handlers := (y_handlers y)(1 \<mapsto> h'), y_sent := (y_sent y)(1 := Suc (y_sent y 1)),
        y_trace := y_trace y @ [(1, ?m)], y_broker := b', y_queue := [], y_pending := [],
        y_inbox := post out (y_inbox y)\<rparr>) \<and>
    conn ''d'' 1 h' \<and> length (h_broker_tx h') = Suc (y_sent y 1) \<and>
    h_framed h' = h_framed h @ ack_frames duo_platform (pub_qospid duo_message) \<and> absb b' = absb (y_broker y) \<and>
    mset out = image_mset (deliver (y_broker y) ?m) (mset_set {''c''})"
    by (rule publish_round [OF duo_platform_ok ok _ _ _ h(1) _ h(2) _ duo_decode])
      (use d r in \<open>simp_all add: duo_message_def receiver_open_def BROKER_MSG_CAPACITY_def Suc_le_eq inbox\<close>)
  then obtain h' b' out where step: "acts duo_platform ?as y
      = Some (y\<lparr>y_handlers := (y_handlers y)(1 \<mapsto> h'), y_sent := (y_sent y)(1 := Suc (y_sent y 1)),
          y_trace := y_trace y @ [(1, ?m)], y_broker := b', y_queue := [], y_pending := [],
          y_inbox := post out (y_inbox y)\<rparr>)"
    and h': "conn ''d'' 1 h'" "length (h_broker_tx h') = Suc (y_sent y 1)" "absb b' = absb (y_broker y)"
      "mset out = {#deliver (y_broker y) ?m ''c''#}" by auto
  have out: "out = [(0, ?m)]" using h'(4) r(2) by (simp add: deliver_def)
  have "post out (y_inbox y) i = (if i = 0 then y_inbox y 0 @ [?m] else y_inbox y i)" for i
    by (simp add: post_def out)
  then show ?thesis
    by (intro exI) (rule duo_load_step [OF y step, where h' = h'], use d h' in simp_all)
qed

lemma duo_load_queue:
  assumes y: "duo_load n ps q y" and q: "q < 100"
  shows "\<exists>y'. duo_load n ps (Suc q) y'"
proof -
  note d = y [unfolded duo_load_def]
  obtain h where h: "y_handlers y 1 = Some h" "conn ''d'' 1 h" using d by blast
  let ?m = "BM_Publish ''d'' duo_message"
  have ok: "system_ok duo_platform y" using reach_ok [OF _ duo_platform_ok] d by blast
  have "\<exists>h'. acts duo_platform [Net 1 (Frame [4]) up, Forward 1] y = Some (y\<lparr>y_handlers := (y_handlers y)(1 \<mapsto> h'),
      y_queue := y_queue y @ [?m], y_sent := (y_sent y)(1 := Suc (y_sent y 1)), y_trace := y_trace y @ [(1, ?m)]\<rparr>) \<and>
    conn ''d'' 1 h' \<and> length (h_broker_tx h') = Suc (y_sent y 1) \<and>
    h_framed h' = h_framed h @ ack_frames duo_platform (pub_qospid duo_message)"
    by (rule publish_turn_system [OF ok h(1) _ h(2) _ duo_decode])
      (use d q in \<open>auto simp: duo_message_def BROKER_MSG_CHANNEL_CAPACITY_def\<close>)
  then obtain h' where step: "acts duo_platform [Net 1 (Frame [4]) up, Forward 1] y = Some (y\<lparr>y_handlers := (y_handlers y)(1 \<mapsto> h'),
      y_queue := y_queue y @ [?m], y_sent := (y_sent y)(1 := Suc (y_sent y 1)), y_trace := y_trace y @ [(1, ?m)]\<rparr>)"
    and h': "conn ''d'' 1 h'" "length (h_broker_tx h') = Suc (y_sent y 1)" by blast
  show ?thesis
    by (intro exI) (rule duo_load_step [OF y step, where h' = h'], use d h' in \<open>simp_all add: replicate_append_same\<close>)
qed

lemma duo_load_serve:
  assumes y: "duo_load n [] 1 y"
  shows "\<exists>y'. duo_load n [(0, BM_Publish ''d'' duo_message)] 0 y'"
proof -
  note d = y [unfolded duo_load_def] and r = duo_load_recipients [OF y]
  let ?m = "BM_Publish ''d'' duo_message"
  have ok: "system_ok duo_platform y" using reach_ok [OF _ duo_platform_ok] d by blast
  have r': "recipients (y_broker y) ''d'' (pub_topic_name duo_message) = {''c''}" using r by (simp add: duo_message_def)
  have "\<exists>b' out. serve_turn duo_platform y = Some (y\<lparr>y_broker := b', y_queue := [], y_pending := out\<rparr>) \<and>
      absb b' = absb (y_broker y) \<and> mset out = {#deliver (y_broker y) ?m ''c''#}"
    using serve_publish [OF duo_platform_ok ok, of "''d''" duo_message "[]"] d by (simp add: r')
  then obtain b' where serve: "serve_turn duo_platform y = Some (y\<lparr>y_broker := b', y_queue := [], y_pending := [(0, ?m)]\<rparr>)"
      "absb b' = absb (y_broker y)"
    using r(2) by (auto simp: deliver_def)
  have step: "acts duo_platform [Serve] y = Some (y\<lparr>y_broker := b', y_queue := [], y_pending := [(0, ?m)]\<rparr>)"
    using d serve by simp
  obtain h where h: "y_handlers y 1 = Some h" "conn ''d'' 1 h" using d by blast
  have "y_sent y 1 = length (h_broker_tx h)"
    using ok h(1) d handlers_okD(2) [OF _ h(1)] by (auto simp: system_ok_def flushed_def)
  then have "y_handlers y = (y_handlers y)(1 \<mapsto> h)" "y_sent y = (y_sent y)(1 := length (h_broker_tx h))"
    using h(1) by (auto simp: fun_eq_iff)
  then show ?thesis
    by (intro exI) (rule duo_load_step [OF y step, where h' = h], use d h serve in simp_all)
qed

lemma duo_load_rounds: "n \<le> 100 \<Longrightarrow> \<exists>y. duo_load n [] 0 y"
  by (induction n) (use duo_load_start duo_load_round in \<open>auto simp: less_eq_Suc_le [symmetric]\<close>)

lemma duo_load_queues: "q \<le> 100 \<Longrightarrow> \<exists>y. duo_load 100 [(0, BM_Publish ''d'' duo_message)] q y"
proof (induction q)
  case 0
  show ?case using duo_load_rounds [of 100] duo_load_queue [of 100 "[]" 0] duo_load_serve by fastforce
next
  case (Suc q)
  then show ?case using duo_load_queue by fastforce
qed

text \<open>Then \<open>c\<close> publishes as well.\<close>

lemma duo_stuck: "\<exists>y. reach duo_platform duo_config y \<and> y_halted y = None \<and> stuck 0 y"
proof -
  obtain y where "duo_load 100 [(0, BM_Publish ''d'' duo_message)] 100 y" using duo_load_queues by blast
  note d = this [unfolded duo_load_def]
  obtain h where h: "y_handlers y 0 = Some h" "conn ''c'' 0 h" using d by blast
  have "flushed y 0" "0 \<in> y_running y" using d by simp_all
  from publish_net [OF h(1) this(2) h(2) this(1) duo_decode, of up]
  obtain h' where step: "act duo_platform (Net 0 (Frame [4]) up) y = Some (y\<lparr>y_handlers := (y_handlers y)(0 \<mapsto> h')\<rparr>)"
    "h_broker_tx h' = h_broker_tx h @ [BM_Publish ''c'' duo_message]" by (auto simp: duo_message_def)
  have ok: "system_ok duo_platform y" using reach_ok [OF _ duo_platform_ok] d by blast
  then have "y_sent y 0 \<le> length (h_broker_tx h)" using handlers_okD(2) [OF _ h(1)] by (simp add: system_ok_def)
  with step(2) have "stuck 0 (y\<lparr>y_handlers := (y_handlers y)(0 \<mapsto> h')\<rparr>)"
    using d by (simp add: stuck_def receiver_open_def flushed_def BROKER_MSG_CAPACITY_def BROKER_MSG_CHANNEL_CAPACITY_def)
  moreover have "reach duo_platform duo_config (y\<lparr>y_handlers := (y_handlers y)(0 \<mapsto> h')\<rparr>)"
    using reach_step [OF _ _ step(1)] d by blast
  ultimately show ?thesis using d by (intro exI [of _ "y\<lparr>y_handlers := (y_handlers y)(0 \<mapsto> h')\<rparr>"]) simp
qed

text \<open>C7: two well-behaved clients can bring the broker to a standstill for good. When a subscriber's channel is
  full, the channel of the broker is full, and the subscriber publishes too, the broker and the
  subscriber's handler wait for each other. Such a state is reachable, and whatever happens after
  it, no request is served, delivered or accepted from anyone any more.\<close>

theorem broker_deadlock:
  "\<exists>y i. reach duo_platform duo_config y \<and> y_halted y = None \<and> stuck i y \<and>
     (\<forall>as y'. acts duo_platform as y = Some y' \<longrightarrow> stuck i y' \<and>
        y_queue y' = y_queue y \<and> y_pending y' = y_pending y \<and> y_broker y' = y_broker y \<and> y_trace y' = y_trace y)"
proof -
  obtain y where y: "reach duo_platform duo_config y" "y_halted y = None" "stuck 0 y" using duo_stuck by blast
  have "stuck 0 y' \<and> same_broker y y'" if "acts duo_platform as y = Some y'" for as y'
    using stuck_acts [OF duo_platform_ok reach_ok [OF y(1) duo_platform_ok] y(3) that] .
  with y show ?thesis unfolding same_broker_def by blast
qed

theorem broker_deadlock_witness:
  "\<exists>y i. reach duo_platform duo_config y \<and> stuck i y \<and> stuck i (the (acts duo_platform [Accept ''z''] y)) \<and>
     y_trace (the (acts duo_platform [Accept ''z''] y)) = y_trace y"
proof -
  obtain y i where y: "reach duo_platform duo_config y" "y_halted y = None" "stuck i y"
    "\<forall>as y'. acts duo_platform as y = Some y' \<longrightarrow> stuck i y' \<and>
       y_queue y' = y_queue y \<and> y_pending y' = y_pending y \<and> y_broker y' = y_broker y \<and> y_trace y' = y_trace y"
    using broker_deadlock by blast
  moreover have "acts duo_platform [Accept ''z''] y = Some (spawn_handler ''z'' y)" using y(2) by simp
  ultimately show ?thesis by fastforce
qed

end
