(* ===== verification/Broker_Main.thy ===== *)
theory Broker_Main
  imports Broker_Channels
begin

section \<open>The broker's executable (\<open>mqttrs-1/src/main.rs\<close>)\<close>

text \<open>
  \<open>main\<close> reads the command line, sets up logging, starts the broker and turns its result into the result of the
  process. The command line is parsed by the crate \<open>clap\<close>; its result, the values given for the flags, is the
  record \<open>ArgMatches\<close>. What the file system, the logger and the socket answer is the record \<open>main_env\<close>.
\<close>

datatype LevelFilter = Level_Off | Level_Error | Level_Warn | Level_Info | Level_Debug | Level_Trace

record ArgMatches =
  fl_log_dir :: "string option"
  fl_log_file :: "string option"
  fl_ip :: "string option"
  fl_max_retries :: "u32 option"
  fl_port :: "u16 option"
  fl_retry :: "u32 option"
  fl_timeout :: "u32 option"
  fl_verbosity :: "string option"

record main_env =
  me_create_dir_all :: "string \<Rightarrow> string + unit"
  me_open :: "string \<Rightarrow> string + unit"
  me_logger :: "string + unit"
  me_bind :: "Config \<Rightarrow> string + unit"

text \<open>How the process ends. A stack overflow aborts it without returning to \<open>main\<close>.\<close>

datatype main_end = Main_Ok | Main_Err string | Main_Panic error | Main_Abort

subsection \<open>The flags\<close>

text \<open>\<open>str::to_lowercase\<close> on the characters up to U+00FF.\<close>

definition lower_char :: "char \<Rightarrow> char" where
  "lower_char c =
     (let n = of_char c :: nat in
      if 65 \<le> n \<and> n \<le> 90 \<or> 192 \<le> n \<and> n \<le> 222 \<and> n \<noteq> 215 then char_of (n + 32) else c)"

definition to_lowercase :: "string \<Rightarrow> string" where
  "to_lowercase s = map lower_char s"

definition level_of :: "string \<Rightarrow> LevelFilter option" where
  "level_of v =
     (let s = to_lowercase v in
      if s = ''off'' then Some Level_Off
      else if s = ''error'' then Some Level_Error
      else if s = ''warn'' then Some Level_Warn
      else if s = ''info'' then Some Level_Info
      else if s = ''debug'' then Some Level_Debug
      else if s = ''trace'' then Some Level_Trace
      else None)"

definition unwrap_or :: "'a option \<Rightarrow> 'a \<Rightarrow> 'a" where
  "unwrap_or x d = (case x of Some v \<Rightarrow> v | None \<Rightarrow> d)"

definition log_dir :: "ArgMatches \<Rightarrow> string" where
  "log_dir flags = unwrap_or (fl_log_dir flags) ''log''"

definition log_filename :: "ArgMatches \<Rightarrow> string" where
  "log_filename flags = unwrap_or (fl_log_file flags) ''broker.log''"

definition log_level :: "ArgMatches \<Rightarrow> LevelFilter" where
  "log_level flags = unwrap_or (Option.bind (fl_verbosity flags) level_of) Level_Error"

definition main_config :: "ArgMatches \<Rightarrow> Config" where
  "main_config flags =
     config_new (unwrap_or (fl_ip flags) ''0.0.0.0'') (unwrap_or (fl_port flags) 1883)
       (unwrap_or (fl_max_retries flags) 0) (unwrap_or (fl_retry flags) 20) (unwrap_or (fl_timeout flags) 30)"

subsection \<open>From start to end\<close>

text \<open>The directory and the file of the log are created whatever the level is.\<close>

definition init_logging :: "main_env \<Rightarrow> ArgMatches \<Rightarrow> string + unit" where
  "init_logging E flags =
     (let log_path = log_dir flags @ ''/'' @ log_filename flags in
      case me_create_dir_all E (log_dir flags) of
           Inl e \<Rightarrow> Inl e
         | Inr _ \<Rightarrow> (case me_open E log_path of Inl e \<Rightarrow> Inl e | Inr _ \<Rightarrow> me_logger E))"

text \<open>\<open>Broker::run\<close> up to its loop.\<close>

definition broker_start :: "main_env \<Rightarrow> Config \<Rightarrow> error + system" where
  "broker_start E config =
     (case me_bind E config of Inl e \<Rightarrow> Inl (TokioErr e) | Inr _ \<Rightarrow> Inr (broker_run config))"

fun main_result :: "error + unit \<Rightarrow> main_end" where
  "main_result (Inr _) = Main_Ok"
| "main_result (Inl (TokioErr e)) = Main_Err e"
| "main_result (Inl err) = Main_Panic err"

text \<open>\<open>main\<close> up to the loop of the broker, and what follows when the process has halted.\<close>

definition main_start :: "main_env \<Rightarrow> ArgMatches \<Rightarrow> main_end + system" where
  "main_start E flags =
     (case init_logging E flags of
        Inl e \<Rightarrow> Inl (Main_Err e)
      | Inr _ \<Rightarrow>
          (case broker_start E (main_config flags) of
             Inl e \<Rightarrow> Inl (main_result (Inl e))
           | Inr y \<Rightarrow> Inr y))"

fun main_exit :: "halt \<Rightarrow> main_end" where
  "main_exit (BrokerError e) = main_result (Inl e)"
| "main_exit Aborted = Main_Abort"

text \<open>\<open>info!\<close> formats its arguments when the level that logging was set up with includes it.\<close>

definition info_enabled :: "LevelFilter \<Rightarrow> bool" where
  "info_enabled level \<longleftrightarrow> level \<in> {Level_Info, Level_Debug, Level_Trace}"

definition main_platform :: "platform \<Rightarrow> ArgMatches \<Rightarrow> platform" where
  "main_platform P flags = P\<lparr>pf_info := info_enabled (log_level flags)\<rparr>"

subsection \<open>The result of the process\<close>

lemma info_enabled_verbosity:
  "info_enabled (log_level flags) \<longleftrightarrow>
     (\<exists>v. fl_verbosity flags = Some v \<and> to_lowercase v \<in> {''info'', ''debug'', ''trace''})"
  by (cases "fl_verbosity flags")
    (auto simp: info_enabled_def log_level_def level_of_def unwrap_or_def Let_def)

text \<open>C30: how the process ends. Its set-up takes four steps, the directory of the log, the file in it, the
  logger and the socket of the configuration that the flags give; the first that fails ends the
  process with that step's own error, and never with a panic; when all succeed the broker is
  running, with that configuration. Then no state it can reach lets it end in an orderly way: it
  panics with \<open>BrokerMsgSendFailure\<close>, or it is aborted, and that only with a verbosity of \<open>info\<close>,
  \<open>debug\<close> or \<open>trace\<close>, in any mixture of upper and lower case.\<close>

theorem main_outcome:
  "(\<forall>e. me_create_dir_all E (log_dir flags) = Inl e \<longrightarrow> main_start E flags = Inl (Main_Err e)) \<and>
   (\<forall>e. me_create_dir_all E (log_dir flags) = Inr () \<and>
      me_open E (log_dir flags @ ''/'' @ log_filename flags) = Inl e \<longrightarrow> main_start E flags = Inl (Main_Err e)) \<and>
   (\<forall>e. me_create_dir_all E (log_dir flags) = Inr () \<and>
      me_open E (log_dir flags @ ''/'' @ log_filename flags) = Inr () \<and> me_logger E = Inl e \<longrightarrow>
      main_start E flags = Inl (Main_Err e)) \<and>
   (\<forall>e. me_create_dir_all E (log_dir flags) = Inr () \<and>
      me_open E (log_dir flags @ ''/'' @ log_filename flags) = Inr () \<and> me_logger E = Inr () \<and>
      me_bind E (main_config flags) = Inl e \<longrightarrow> main_start E flags = Inl (Main_Err e)) \<and>
   (me_create_dir_all E (log_dir flags) = Inr () \<and>
      me_open E (log_dir flags @ ''/'' @ log_filename flags) = Inr () \<and> me_logger E = Inr () \<and>
      me_bind E (main_config flags) = Inr () \<longrightarrow> main_start E flags = Inr (broker_run (main_config flags))) \<and>
   (\<forall>r. main_start E flags = Inl r \<longrightarrow> (\<exists>e. r = Main_Err e)) \<and>
   (\<forall>y0 config y why. main_start E flags = Inr y0 \<and> y0 = broker_run config \<and> platform_ok P \<and>
      reach (main_platform P flags) config y \<and> y_halted y = Some why \<longrightarrow>
      main_exit why = Main_Panic BrokerMsgSendFailure \<or>
      main_exit why = Main_Abort \<and>
        (\<exists>v. fl_verbosity flags = Some v \<and> to_lowercase v \<in> {''info'', ''debug'', ''trace''}))"
proof (intro conjI allI impI)
  fix r
  assume "main_start E flags = Inl r"
  then show "\<exists>e. r = Main_Err e"
    by (auto simp: main_start_def broker_start_def split: sum.splits)
next
  fix y0 config y why
  let ?P = "main_platform P flags"
  assume a: "main_start E flags = Inr y0 \<and> y0 = broker_run config \<and> platform_ok P \<and>
      reach ?P config y \<and> y_halted y = Some why"
  then have "platform_ok ?P" by (simp add: platform_ok_def main_platform_def)
  with a have "halt_ok ?P (Some why)" using reach_ok [of ?P config y] by (auto simp: system_ok_def)
  then show "main_exit why = Main_Panic BrokerMsgSendFailure \<or> main_exit why = Main_Abort \<and>
      (\<exists>v. fl_verbosity flags = Some v \<and> to_lowercase v \<in> {''info'', ''debug'', ''trace''})"
    using info_enabled_verbosity [of flags] by (cases why) (auto simp: main_platform_def)
qed (simp_all add: main_start_def init_logging_def broker_start_def)

text \<open>A client that opens a connection and closes it again ends a broker started with \<open>-v INFO\<close>.\<close>

definition info_flags :: ArgMatches where
  "info_flags = \<lparr>fl_log_dir = None, fl_log_file = None, fl_ip = None, fl_max_retries = None, fl_port = None,
     fl_retry = None, fl_timeout = None, fl_verbosity = Some ''INFO''\<rparr>"

definition good_env :: main_env where
  "good_env = \<lparr>me_create_dir_all = (\<lambda>_. Inr ()), me_open = (\<lambda>_. Inr ()), me_logger = Inr (), me_bind = (\<lambda>_. Inr ())\<rparr>"

lemma early_close_aborts:
  assumes "pf_info P"
  shows "\<exists>y. acts P [Accept addr, Net 0 StreamClosed tcp] (broker_run config) = Some y \<and> y_halted y = Some Aborted"
proof -
  let ?W = "\<lparr>w_mqttrs = pf_mqttrs P, w_tcp_ok = tcp, w_broker_ok = (\<lambda>_. True), w_info = pf_info P\<rparr>"
  let ?h = "handler_new config addr 0"
  have "handler_run ?W [StreamClosed] ?h = (Inl StackOverflow, ?h)"
    using assms by (simp add: handler_run_def handler_new_def)
  then show ?thesis
    by (simp add: broker_run_def spawn_handler_def broker_new_def handler_turn_def flushed_def handler_new_def)
qed

theorem main_outcome_witness:
  "main_start (good_env\<lparr>me_bind := (\<lambda>c. Inl ''in use'')\<rparr>) info_flags = Inl (Main_Err ''in use'') \<and>
   (\<exists>y why. main_start good_env info_flags = Inr (broker_run (main_config info_flags)) \<and>
     reach (main_platform duo_platform info_flags) (main_config info_flags) y \<and> y_halted y = Some why \<and>
     main_exit why = Main_Abort)"
proof -
  let ?P = "main_platform duo_platform info_flags" and ?c = "main_config info_flags"
  have "pf_info ?P" by code_simp
  from early_close_aborts [OF this] obtain y where
    y: "acts ?P [Accept ''x'', Net 0 StreamClosed up] (broker_run ?c) = Some y" "y_halted y = Some Aborted" by blast
  have s: "main_start good_env info_flags = Inr (broker_run ?c)"
    using main_outcome [of good_env info_flags duo_platform] by (simp add: good_env_def)
  have "main_exit Aborted = Main_Panic BrokerMsgSendFailure \<or> main_exit Aborted = Main_Abort"
    using main_outcome [of good_env info_flags duo_platform] s y reach_acts [OF reach_init y(1)] duo_platform_ok by blast
  moreover have "main_start (good_env\<lparr>me_bind := (\<lambda>c. Inl ''in use'')\<rparr>) info_flags = Inl (Main_Err ''in use'')"
    using main_outcome [of "good_env\<lparr>me_bind := (\<lambda>c. Inl ''in use'')\<rparr>" info_flags duo_platform] by (simp add: good_env_def)
  ultimately show ?thesis using s y reach_acts [OF reach_init y(1)] by auto
qed

end
