(* ===== verification/Cli_Lexer.thy ===== *)
theory Cli_Lexer
  imports Prelude
begin

section \<open>Splitting a command line into words (\<open>mqtt-cli/src/cli/shell/lexer.rs\<close>)\<close>

text \<open>
  \<open>try_into_args\<close> is a state machine over the characters of the line; its variables \<open>word\<close> and
  \<open>words\<close> are passed along. \<open>count_quotes\<close> decides whether the shell asks for another line.
\<close>

datatype lex_state =
  Delimiter | Backslash | Unquoted | UnquotedBackslash | SingleQuoted | DoubleQuoted
| DoubleQuotedBackslash

abbreviation (input) sq :: char where "sq \<equiv> CHR 0x27"
abbreviation (input) dq :: char where "dq \<equiv> CHR 0x22"
abbreviation (input) bs :: char where "bs \<equiv> CHR 0x5C"
abbreviation (input) nl :: char where "nl \<equiv> CHR 0x0A"

definition is_blank :: "char \<Rightarrow> bool" where
  "is_blank c \<longleftrightarrow> c = CHR 0x09 \<or> c = CHR 0x20 \<or> c = nl"

text \<open>The match on the state when there is a next character.\<close>

fun lex_char :: "lex_state \<Rightarrow> char \<Rightarrow> string \<times> string list \<Rightarrow> lex_state \<times> string \<times> string list" where
  "lex_char Delimiter c (word, words) =
     (if c = sq then (SingleQuoted, word, words)
      else if c = dq then (DoubleQuoted, word, words)
      else if c = bs then (Backslash, word, words)
      else if is_blank c then (Delimiter, word, words)
      else (Unquoted, word @ [c], words))"
| "lex_char Backslash c (word, words) =
     (if c = nl then (Delimiter, word, words) else (Unquoted, word @ [c], words))"
| "lex_char Unquoted c (word, words) =
     (if c = sq then (SingleQuoted, word, words)
      else if c = dq then (DoubleQuoted, word, words)
      else if c = bs then (UnquotedBackslash, word, words)
      else if is_blank c then (Delimiter, [], words @ [word])
      else (Unquoted, word @ [c], words))"
| "lex_char UnquotedBackslash c (word, words) =
     (if c = nl then (Unquoted, word, words) else (Unquoted, word @ [c], words))"
| "lex_char SingleQuoted c (word, words) =
     (if c = sq then (Unquoted, word, words) else (SingleQuoted, word @ [c], words))"
| "lex_char DoubleQuoted c (word, words) =
     (if c = dq then (Unquoted, word, words)
      else if c = bs then (DoubleQuotedBackslash, word, words)
      else (DoubleQuoted, word @ [c], words))"
| "lex_char DoubleQuotedBackslash c (word, words) =
     (if c = nl then (DoubleQuoted, word, words)
      else if c \<in> {CHR 0x24, CHR 0x60, dq, bs} then (DoubleQuoted, word @ [c], words)
      else (DoubleQuoted, word @ [bs, c], words))"

text \<open>The match on the state at the end of the line; \<open>Inl ()\<close> is \<open>ParseError\<close>.\<close>

fun lex_end :: "lex_state \<Rightarrow> string \<times> string list \<Rightarrow> unit + string list" where
  "lex_end Delimiter (word, words) = Inr words"
| "lex_end Backslash (word, words) = Inr (words @ [word @ [bs]])"
| "lex_end Unquoted (word, words) = Inr (words @ [word])"
| "lex_end UnquotedBackslash (word, words) = Inr (words @ [word @ [bs]])"
| "lex_end SingleQuoted (word, words) = Inl ()"
| "lex_end DoubleQuoted (word, words) = Inl ()"
| "lex_end DoubleQuotedBackslash (word, words) = Inl ()"

fun lex :: "lex_state \<Rightarrow> string \<times> string list \<Rightarrow> string \<Rightarrow> unit + string list" where
  "lex state acc [] = lex_end state acc"
| "lex state acc (c # chars) = (case lex_char state c acc of (state', acc') \<Rightarrow> lex state' acc' chars)"

definition try_into_args :: "string \<Rightarrow> unit + string list" where
  "try_into_args self = lex Delimiter ([], []) self"

subsection \<open>Counting quotes\<close>

text \<open>\<open>match_indices\<close> yields byte positions.\<close>

fun match_quotes :: "nat \<Rightarrow> string \<Rightarrow> (nat \<times> char) list" where
  "match_quotes n [] = []"
| "match_quotes n (c # cs) =
     (if c = dq \<or> c = sq then [(n, c)] else []) @ match_quotes (n + str_len [c]) cs"

text \<open>\<open>chars().nth(i)\<close> counts characters.\<close>

definition chars_nth :: "string \<Rightarrow> nat \<Rightarrow> char option" where
  "chars_nth s i = (if i < length s then Some (s ! i) else None)"

text \<open>The quote stack is kept with its last element first.\<close>

definition count_quote :: "string \<Rightarrow> nat \<times> char \<Rightarrow> char list \<Rightarrow> char list" where
  "count_quote input m quote_stack =
     (if fst m > 0 \<and> chars_nth input (fst m - 1) = Some bs then quote_stack
      else
        (case quote_stack of
           token # rest \<Rightarrow> if snd m = token then rest else quote_stack
         | [] \<Rightarrow> [snd m]))"

definition count_quotes :: "string \<Rightarrow> char list \<Rightarrow> char list" where
  "count_quotes input quote_stack = fold (count_quote input) (match_quotes 0 input) quote_stack"

subsection \<open>Quoting a word so that the lexer reads it back\<close>

text \<open>The quoting of the POSIX shells: single quotes around the word, and a single quote inside it as
  an end quote, an escaped quote and a start quote.\<close>

definition quote :: "string \<Rightarrow> string" where
  "quote w = [sq] @ concat (map (\<lambda>c. if c = sq then [sq, bs, sq, sq] else [c]) w) @ [sq]"

fun join_words :: "string list \<Rightarrow> string" where
  "join_words [] = []"
| "join_words [w] = w"
| "join_words (w # ws) = w @ [CHR 0x20] @ join_words ws"

lemma lex_append_quoted:
  "lex SingleQuoted (word, words) (concat (map (\<lambda>c. if c = sq then [sq, bs, sq, sq] else [c]) w) @ cs)
     = lex SingleQuoted (word @ w, words) cs"
  by (induction w arbitrary: word) simp_all

lemma lex_quote:
  "state = Delimiter \<or> state = Unquoted \<Longrightarrow>
    lex state (word, words) (quote w @ cs) = lex Unquoted (word @ w, words) cs"
  by (auto simp: quote_def lex_append_quoted)

lemma lex_words:
  "ws \<noteq> [] \<Longrightarrow> lex Delimiter ([], words) (join_words (map quote ws)) = Inr (words @ ws)"
proof (induction ws arbitrary: words rule: join_words.induct)
  case (2 w)
  then show ?case using lex_quote [of Delimiter "[]" words w "[]"] by simp
next
  case (3 w v ws)
  then show ?case by (simp add: lex_quote is_blank_def)
qed simp

text \<open>C35: quoting is read back: for every list of words, whatever characters they contain, the line of
  the quoted words separated by blanks is split into exactly these words.\<close>

theorem quoted_words_read_back:
  "try_into_args (join_words (map quote ws)) = Inr ws"
  using lex_words [of ws "[]"] by (cases "ws = []") (simp_all add: try_into_args_def)

subsection \<open>When the two agree\<close>

text \<open>The state of the lexer after a part of the line, and the quote it is in.\<close>

definition lex_run :: "string \<Rightarrow> lex_state \<times> string \<times> string list \<Rightarrow> lex_state \<times> string \<times> string list" where
  "lex_run cs sa = fold (\<lambda>c (state, acc). lex_char state c acc) cs sa"

fun open_quote :: "lex_state \<Rightarrow> char list" where
  "open_quote SingleQuoted = [sq]"
| "open_quote DoubleQuoted = [dq]"
| "open_quote DoubleQuotedBackslash = [dq]"
| "open_quote _ = []"

fun after_backslash :: "lex_state \<Rightarrow> bool" where
  "after_backslash Backslash = True"
| "after_backslash UnquotedBackslash = True"
| "after_backslash DoubleQuotedBackslash = True"
| "after_backslash _ = False"

lemma lex_lex_run: "lex state acc cs = (case lex_run cs (state, acc) of (state', acc') \<Rightarrow> lex_end state' acc')"
  by (induction cs arbitrary: state acc) (simp_all add: lex_run_def split: prod.splits)

lemma lex_run_append: "lex_run (cs @ ds) sa = lex_run ds (lex_run cs sa)"
  by (simp add: lex_run_def)

lemma lex_end_error: "lex_end state acc = Inl () \<longleftrightarrow> open_quote state \<noteq> []"
  by (cases acc; cases state) simp_all

lemma lex_char_plain:
  "\<not> after_backslash state \<Longrightarrow> c \<noteq> bs \<Longrightarrow> \<not> after_backslash (fst (lex_char state c acc))"
  by (cases acc; cases state) simp_all

lemma lex_char_quote:
  assumes "\<not> after_backslash state" "c \<noteq> bs"
  shows "open_quote (fst (lex_char state c acc)) =
    (if c = sq \<or> c = dq
     then (case open_quote state of token # rest \<Rightarrow> if c = token then rest else open_quote state | [] \<Rightarrow> [c])
     else open_quote state)"
  using assms by (cases acc; cases state) auto

text \<open>In an input without backslashes no quote counts as escaped, wherever it stands.\<close>

lemma count_quotes_run:
  assumes "bs \<notin> set input" "bs \<notin> set cs" "\<not> after_backslash state"
  shows "fold (count_quote input) (match_quotes n cs) (open_quote state)
      = open_quote (fst (lex_run cs (state, acc)))"
    "\<not> after_backslash (fst (lex_run cs (state, acc)))"
proof -
  have esc: "chars_nth input i \<noteq> Some bs" for i
    using assms(1) nth_mem [of i input] unfolding chars_nth_def by (metis option.distinct(1) option.inject)
  have "fold (count_quote input) (match_quotes n cs) (open_quote state)
      = open_quote (fst (lex_run cs (state, acc))) \<and> \<not> after_backslash (fst (lex_run cs (state, acc)))"
    using assms(2,3)
  proof (induction cs arbitrary: n state acc)
    case (Cons c cs)
    obtain state' acc' where c: "lex_char state c acc = (state', acc')" by (metis surj_pair)
    then have st': "\<not> after_backslash state'" "open_quote state' = (if c = sq \<or> c = dq
        then (case open_quote state of token # rest \<Rightarrow> if c = token then rest else open_quote state | [] \<Rightarrow> [c])
        else open_quote state)"
      using Cons.prems lex_char_plain [of state c acc] lex_char_quote [of state c acc] by auto
    have "fold (count_quote input) (if c = dq \<or> c = sq then [(n, c)] else []) (open_quote state) = open_quote state'"
      using st'(2) esc by (auto simp: count_quote_def cong: list.case_cong)
    then show ?case
      using Cons.IH [OF _ st'(1), of "n + str_len [c]" acc'] Cons.prems c by (auto simp: lex_run_def)
  qed (simp_all add: lex_run_def)
  then show "fold (count_quote input) (match_quotes n cs) (open_quote state)
      = open_quote (fst (lex_run cs (state, acc)))"
    "\<not> after_backslash (fst (lex_run cs (state, acc)))" by simp_all
qed

lemma count_quotes_lines:
  assumes "\<forall>l \<in> set lines. bs \<notin> set l" "\<not> after_backslash state"
  shows "fold count_quotes lines (open_quote state) = open_quote (fst (lex_run (concat lines) (state, acc)))"
  using assms
proof (induction lines arbitrary: state acc)
  case (Cons l lines)
  obtain state' acc' where l: "lex_run l (state, acc) = (state', acc')" by (metis surj_pair)
  then have "count_quotes l (open_quote state) = open_quote state'" "\<not> after_backslash state'"
    using count_quotes_run(1) [of l l state 0 acc] count_quotes_run(2) [of l l state acc] Cons.prems
    by (simp_all add: count_quotes_def)
  then show ?case using Cons l by (simp add: lex_run_append)
qed (simp add: lex_run_def)

text \<open>So on lines without backslashes an empty quote stack means that the line can be split.\<close>

lemma count_quotes_agrees_with_lexer:
  assumes "\<forall>l \<in> set lines. bs \<notin> set l"
  shows "(fold count_quotes lines [] = [] \<longleftrightarrow> (\<exists>ws. try_into_args (concat lines) = Inr ws)) \<and>
    length (fold count_quotes lines []) \<le> 1"
proof -
  obtain state acc where run: "lex_run (concat lines) (Delimiter, [], []) = (state, acc)"
    by (metis surj_pair)
  then have q: "fold count_quotes lines [] = open_quote state"
    using count_quotes_lines [OF assms, of Delimiter "([], [])"] by simp
  moreover have "(\<exists>ws. try_into_args (concat lines) = Inr ws) \<longleftrightarrow> open_quote state = []"
    using lex_end_error [of state acc] run
    by (cases "lex_end state acc") (auto simp: try_into_args_def lex_lex_run)
  moreover have "length (open_quote state) \<le> 1" by (cases state) simp_all
  ultimately show ?thesis by simp
qed

text \<open>With backslashes the two disagree, in both directions: after an escaped backslash a quote
  that opens is taken for an escaped one, so the line is passed on and fails to parse; a quote
  that closes after an escaped backslash is ignored, so the shell keeps asking for a
  complete line; and after a two-byte character an escaped quote is taken for a real one,
  because the byte position of the quote is used as a character position.\<close>

theorem count_quotes_misjudges_backslashes:
  "count_quotes [bs, bs, sq] [] = [] \<and> try_into_args [bs, bs, sq] = Inl () \<and>
   count_quotes [dq, bs, bs, dq] [] \<noteq> [] \<and> try_into_args [dq, bs, bs, dq] = Inr [[bs]] \<and>
   count_quotes [CHR 0xE9, bs, dq] [] \<noteq> [] \<and> try_into_args [CHR 0xE9, bs, dq] = Inr [[CHR 0xE9, dq]]"
  by (simp add: count_quotes_def count_quote_def chars_nth_def str_len_Cons is_ascii_def
      try_into_args_def is_blank_def)

end
