(* ===== verification/Cli_Spec.thy ===== *)
theory Cli_Spec
  imports Prelude "HOL-Library.Char_ord" "HOL-Library.List_Lexorder" "HOL-Library.Product_Lexorder"
begin

section \<open>Flags and command specifications (\<open>mqtt-cli/src/cli/spec\<close>)\<close>

text \<open>
  \<open>spec/flag.rs\<close>, \<open>spec/flag/id.rs\<close>, \<open>spec/flag/query.rs\<close>, \<open>spec/arg.rs\<close> and \<open>spec/command.rs\<close>. A \<open>HashSet\<close>
  of flags, whose equality looks at identifiers only, is a set that holds at most one flag
  per identifier; a search visits it in an order that is an argument.
\<close>

datatype spec_arg = SA_None | SA_Optional | SA_Required

record flag_id =
  id_name :: string
  id_short :: char

record spec_flag =
  sf_id :: flag_id
  sf_help :: string
  sf_arg :: spec_arg

definition spec_flag_new :: "string \<Rightarrow> char \<Rightarrow> spec_arg \<Rightarrow> string \<Rightarrow> spec_flag" where
  "spec_flag_new name short arg help = \<lparr>sf_id = \<lparr>id_name = name, id_short = short\<rparr>, sf_help = help, sf_arg = arg\<rparr>"

text \<open>\<open>PartialEq\<close> and \<open>Hash\<close> of \<open>Id\<close> go through the text \<open>name:short\<close>.\<close>

definition id_text :: "flag_id \<Rightarrow> string" where
  "id_text i = id_name i @ '':'' @ [id_short i]"

definition id_eq :: "flag_id \<Rightarrow> flag_id \<Rightarrow> bool" where
  "id_eq i j \<longleftrightarrow> id_text i = id_text j"

definition spec_flag_eq :: "spec_flag \<Rightarrow> spec_flag \<Rightarrow> bool" where
  "spec_flag_eq f g \<longleftrightarrow> id_eq (sf_id f) (sf_id g)"

datatype Query = Name string | Short char

fun query_text :: "Query \<Rightarrow> string" where
  "query_text (Name s) = ''--'' @ s"
| "query_text (Short c) = ''-'' @ [c]"

subsection \<open>Recognising flags\<close>

definition is_long :: "string \<Rightarrow> bool" where
  "is_long flag_text \<longleftrightarrow> starts_with flag_text ''--'' \<and> str_len flag_text > 3"

definition is_short :: "string \<Rightarrow> bool" where
  "is_short flag_text \<longleftrightarrow> starts_with flag_text ''-'' \<and> str_len flag_text > 1"

definition is_flag :: "string \<Rightarrow> bool" where
  "is_flag flag_text \<longleftrightarrow> is_long flag_text \<or> is_short flag_text"

definition flag_extract :: "string \<Rightarrow> Query option" where
  "flag_extract flag_text =
     (if is_long flag_text then Some (Name (drop 2 flag_text))
      else if is_short flag_text then Some (Short (flag_text ! 1))
      else None)"

fun flag_matches :: "Query \<Rightarrow> spec_flag \<Rightarrow> bool" where
  "flag_matches (Name s) entry \<longleftrightarrow> s = id_name (sf_id entry)"
| "flag_matches (Short c) entry \<longleftrightarrow> c = id_short (sf_id entry)"

definition query :: "(spec_flag set \<Rightarrow> spec_flag list) \<Rightarrow> Query \<Rightarrow> spec_flag set \<Rightarrow> spec_flag option" where
  "query it needle haystack = List.find (flag_matches needle) (it haystack)"

text \<open>\<open>HashSet::insert\<close> keeps the element that is there.\<close>

definition flagset_insert :: "spec_flag \<Rightarrow> spec_flag set \<Rightarrow> spec_flag set" where
  "flagset_insert f S = (if \<exists>g \<in> S. spec_flag_eq g f then S else insert f S)"

subsection \<open>Command specifications\<close>

text \<open>A callback is represented by a value of the type parameter: Rust's function pointers take the
  shell that holds them, so what they do is given where the shell is run.\<close>

record 'cb spec_command =
  sc_name :: string
  sc_description :: string
  sc_flags :: "spec_flag set"
  sc_usage :: string
  sc_callback :: 'cb

definition command_build :: "string \<Rightarrow> 'cb \<Rightarrow> 'cb spec_command" where
  "command_build name callback =
     \<lparr>sc_name = name, sc_description = [], sc_flags = {}, sc_usage = [], sc_callback = callback\<rparr>"

definition add_flag :: "string \<Rightarrow> char \<Rightarrow> spec_arg \<Rightarrow> string \<Rightarrow> 'cb spec_command \<Rightarrow> 'cb spec_command" where
  "add_flag flag_name flag_short arg_spec help self =
     self\<lparr>sc_flags := flagset_insert (spec_flag_new flag_name flag_short arg_spec help) (sc_flags self)\<rparr>"

definition set_description :: "string \<Rightarrow> 'cb spec_command \<Rightarrow> 'cb spec_command" where
  "set_description description self = self\<lparr>sc_description := description\<rparr>"

definition set_usage :: "string \<Rightarrow> 'cb spec_command \<Rightarrow> 'cb spec_command" where
  "set_usage usage self = self\<lparr>sc_usage := usage\<rparr>"

subsection \<open>Properties of flags\<close>

lemma id_eq_iff [simp]: "id_eq i j \<longleftrightarrow> i = j"
  by (cases i; cases j) (auto simp: id_eq_def id_text_def)

lemma is_long_short: "is_long s \<Longrightarrow> is_short s"
  by (cases s) (auto simp: is_long_def is_short_def starts_with_def)

lemma is_flag_short [simp]: "is_flag s \<longleftrightarrow> is_short s"
  using is_long_short by (auto simp: is_flag_def)

lemma is_short_char: "is_short s \<Longrightarrow> 1 < length s"
  by (cases s; cases "tl s") (auto simp: is_short_def starts_with_def str_len_Cons is_ascii_def)

lemma flag_extract_None: "flag_extract s = None \<longleftrightarrow> \<not> is_flag s"
  by (auto simp: flag_extract_def dest: is_long_short)

text \<open>The flags of a set can be told apart by name and by short form.\<close>

definition distinguishable :: "spec_flag set \<Rightarrow> bool" where
  "distinguishable S \<longleftrightarrow> inj_on (id_name \<circ> sf_id) S \<and> inj_on (id_short \<circ> sf_id) S"

lemma find_unique:
  assumes "set xs = S" "\<And>f g. f \<in> S \<Longrightarrow> g \<in> S \<Longrightarrow> P f \<Longrightarrow> P g \<Longrightarrow> f = g"
  shows "List.find P xs = Some f \<longleftrightarrow> f \<in> S \<and> P f"
proof
  assume "List.find P xs = Some f"
  then show "f \<in> S \<and> P f" using assms(1) by (auto simp: find_Some_iff)
next
  assume f: "f \<in> S \<and> P f"
  then obtain g where g: "List.find P xs = Some g"
    using assms(1) by (cases "List.find P xs") (auto simp: find_None_iff)
  then have "g \<in> S \<and> P g" using assms(1) by (auto simp: find_Some_iff)
  with f assms(2) g show "List.find P xs = Some f" by metis
qed

lemma query_unique:
  assumes "iterates it" "finite S" "distinguishable S"
  shows "query it q S = Some f \<longleftrightarrow> f \<in> S \<and> flag_matches q f"
  unfolding query_def
proof (rule find_unique)
  show "set (it S) = S" using assms by simp
  show "f = g" if "f \<in> S" "g \<in> S" "flag_matches q f" "flag_matches q g" for f g
    using that assms(3) by (cases q) (auto simp: distinguishable_def inj_on_def)
qed

text \<open>The text of a flag's query is read back, except for long flags of a single byte.\<close>

lemma flag_extract_query_text:
  "(case q of Name s \<Rightarrow> 1 < str_len s | Short c \<Rightarrow> True) \<Longrightarrow> flag_extract (query_text q) = Some q"
  by (cases q) (auto simp: flag_extract_def is_long_def is_short_def starts_with_def str_len_Cons is_ascii_def
      split: if_splits)

text \<open>A flag's name and short form identify it: a search by either finds the flag that was added,
  and nothing else, whatever the order in which the hash set is visited, as long as no other flag
  of the command shares the name or the short form. Without that condition the answer depends
  on the order, since two flags with the same short form and different names are both kept.\<close>

theorem flag_query_exact:
  assumes "iterates it" "finite S" "distinguishable (insert f S)" "f \<notin> S"
  shows "query it (Name (id_name (sf_id f))) (flagset_insert f S) = Some f \<and>
    query it (Short (id_short (sf_id f))) (flagset_insert f S) = Some f \<and>
    (\<forall>q. \<not> flag_matches q f \<longrightarrow> query it q (flagset_insert f S) = query it q S)"
proof -
  have "\<not> spec_flag_eq g f" if "g \<in> S" for g
    using assms(3,4) that by (auto simp: spec_flag_eq_def distinguishable_def inj_on_def)
  then have ins: "flagset_insert f S = insert f S" by (auto simp: flagset_insert_def)
  have dS: "distinguishable S" using assms(3) by (auto simp: distinguishable_def)
  note q = query_unique [OF assms(1) _ assms(3)] query_unique [OF assms(1,2) dS]
  have "query it q (insert f S) = query it q S" if "\<not> flag_matches q f" for q
  proof (cases "query it q S")
    case None
    then have "query it q (insert f S) \<noteq> Some g" for g
      using q(1) [of q g] q(2) [of q g] that assms(2) by auto
    then show ?thesis using None by (cases "query it q (insert f S)") auto
  next
    case (Some g)
    then show ?thesis using q(1) [of q g] q(2) [of q g] assms(2) by simp
  qed
  then show ?thesis using q(1) assms(2) ins by simp
qed

text \<open>A concrete order of iteration, by the fields of the flags.\<close>

fun arg_rank :: "spec_arg \<Rightarrow> nat" where
  "arg_rank SA_None = 0"
| "arg_rank SA_Optional = 1"
| "arg_rank SA_Required = 2"

definition flag_key :: "spec_flag \<Rightarrow> string \<times> char \<times> string \<times> nat" where
  "flag_key f = (id_name (sf_id f), id_short (sf_id f), sf_help f, arg_rank (sf_arg f))"

definition flag_of_key :: "string \<times> char \<times> string \<times> nat \<Rightarrow> spec_flag" where
  "flag_of_key k = (case k of (name, short, help, r) \<Rightarrow>
     spec_flag_new name short (if r = 0 then SA_None else if r = 1 then SA_Optional else SA_Required) help)"

definition flag_order :: "spec_flag set \<Rightarrow> spec_flag list" where
  "flag_order S = map flag_of_key (sorted_list_of_set (flag_key ` S))"

lemma flag_of_key [simp]: "flag_of_key (flag_key f) = f"
  by (cases "sf_arg f") (simp_all add: flag_of_key_def flag_key_def spec_flag_new_def)

lemma iterates_flag_order: "iterates flag_order"
  unfolding iterates_def
proof (intro allI impI conjI)
  fix S :: "spec_flag set"
  assume "finite S"
  then show "set (flag_order S) = S" by (simp add: flag_order_def image_image)
  show "distinct (flag_order S)"
    unfolding flag_order_def
  proof (subst distinct_map, intro conjI)
    show "inj_on flag_of_key (set (sorted_list_of_set (flag_key ` S)))"
      using \<open>finite S\<close> by (auto simp: inj_on_def)
  qed simp
qed

theorem flag_query_exact_witness:
  "let retain = spec_flag_new ''retain'' (CHR ''r'') SA_None []; qos = spec_flag_new ''qos'' (CHR ''q'') SA_Required []
   in query flag_order (Short (CHR ''q'')) (flagset_insert qos {retain}) = Some qos \<and>
      query flag_order (Short (CHR ''r'')) (flagset_insert qos {retain}) = query flag_order (Short (CHR ''r'')) {retain}"
  using flag_query_exact [OF iterates_flag_order, of "{spec_flag_new ''retain'' (CHR ''r'') SA_None []}"
      "spec_flag_new ''qos'' (CHR ''q'') SA_Required []"]
  by (simp add: distinguishable_def spec_flag_new_def)

end
