(* ===== verification/Cli_Shell.thy ===== *)
theory Cli_Shell
  imports Cli_Lexer Cli_Spec Mqtt_Packet
begin

section \<open>Parsing commands (\<open>mqtt-cli/src/cli/shell.rs\<close>, \<open>mqtt-cli/src/cli/command\<close>)\<close>

text \<open>
  Instances of commands with their flags and operands, the table of commands that are enabled,
  the parser, and the reading of a command that spans several lines.
\<close>

subsection \<open>Commands\<close>

datatype cmd_arg = CA_None | CA_Optional "string option" | CA_Required string

record cmd_flag =
  cf_spec :: spec_flag
  cf_arg :: cmd_arg

record 'cb cmd =
  c_spec :: "'cb spec_command"
  c_flags :: "cmd_flag set"
  c_operands :: "string list"

datatype recv_error = RecvTimeout | RecvDisconnected

text \<open>The errors a command or the parser returns in a box; \<open>Panic\<close> is a call of \<open>unwrap\<close> that fails.
  \<open>Message\<close> stands for the errors that are plain text, \<open>UnexpectedPacket\<close> for those whose text ends with the
  packet.\<close>

datatype awaited = Await_Connack | Await_Pingresp | Await_Unsuback

datatype cli_error =
  ParseError | CommandNotAvailableError string | UnknownCommandError string | UnknownFlagError Query
| FlagMissingArgError Query | ParseIntError | EncodeError | IoError | ChannelSendError
| RecvTimeoutError recv_error | ConnackTimeoutError recv_error | PingrespTimeoutError recv_error
| UnsubackTimeoutError recv_error | UnsubAckTimeoutError recv_error | UnexpectedPacket awaited mqttrs_Packet
| QoSProtocolError pid mqttrs_Packet string | MQTTError string | Message string | Panic

definition flagset_replace :: "cmd_flag \<Rightarrow> cmd_flag set \<Rightarrow> cmd_flag set" where
  "flagset_replace f S = insert f {g \<in> S. \<not> id_eq (sf_id (cf_spec g)) (sf_id (cf_spec f))}"

definition cmd_query :: "(cmd_flag set \<Rightarrow> cmd_flag list) \<Rightarrow> Query \<Rightarrow> cmd_flag set \<Rightarrow> cmd_flag option" where
  "cmd_query it needle haystack = List.find (\<lambda>entry. flag_matches needle (cf_spec entry)) (it haystack)"

text \<open>\<open>Arg::raw\<close> and \<open>Arg::get_as\<close>, the latter for a parser \<open>FromStr\<close> of the type asked for.\<close>

fun arg_raw :: "cmd_arg \<Rightarrow> string option" where
  "arg_raw (CA_Optional val) = val"
| "arg_raw (CA_Required s) = Some s"
| "arg_raw CA_None = None"

fun arg_get_as :: "(string \<Rightarrow> cli_error + 'a) \<Rightarrow> cmd_arg \<Rightarrow> cli_error + 'a option" where
  "arg_get_as from_str (CA_Optional val) =
     (case val of None \<Rightarrow> Inl Panic | Some s \<Rightarrow> map_sum id Some (from_str s))"
| "arg_get_as from_str (CA_Required s) = map_sum id Some (from_str s)"
| "arg_get_as from_str CA_None = Inr None"

subsection \<open>The shell\<close>

record 'cb shell =
  sh_commands :: "string \<rightharpoonup> 'cb spec_command"
  sh_enable_set :: "string \<rightharpoonup> bool"
  sh_help :: string

definition shell_new :: "(string \<rightharpoonup> 'cb spec_command) \<Rightarrow> string \<Rightarrow> 'cb shell" where
  "shell_new commands help = \<lparr>sh_commands = commands, sh_enable_set = Map.empty, sh_help = help\<rparr>"

definition get_enabled_commands :: "'cb shell \<Rightarrow> string \<rightharpoonup> 'cb spec_command" where
  "get_enabled_commands self = (\<lambda>name.
     (case sh_enable_set self name of
        Some enable \<Rightarrow> if enable then sh_commands self name else None
      | None \<Rightarrow> None))"

definition find_command_spec :: "'cb shell \<Rightarrow> string \<Rightarrow> 'cb spec_command option" where
  "find_command_spec self command_name = get_enabled_commands self command_name"

definition update_enable_set :: "('cb spec_command \<Rightarrow> bool) \<Rightarrow> 'cb shell \<Rightarrow> 'cb shell" where
  "update_enable_set enable self =
     self\<lparr>sh_enable_set := (\<lambda>name. case sh_commands self name of
        Some command \<Rightarrow> Some (enable command)
      | None \<Rightarrow> sh_enable_set self name)\<rparr>"

text \<open>The loop of \<open>parse\<close> over the tokens after the command name.\<close>

function (sequential) parse_tokens ::
    "(spec_flag set \<Rightarrow> spec_flag list) \<Rightarrow> spec_flag set \<Rightarrow> string list \<Rightarrow> cmd_flag set \<times> string list \<Rightarrow>
     cli_error + cmd_flag set \<times> string list" where
  "parse_tokens it specs [] acc = Inr acc"
| "parse_tokens it specs (token # rest) (flags, operands) =
     (if is_flag token then
        (case flag_extract token of
           None \<Rightarrow> Inl Panic
         | Some flag_id \<Rightarrow>
             (case query it flag_id specs of
                None \<Rightarrow> Inl (UnknownFlagError flag_id)
              | Some flag_spec \<Rightarrow>
                  (case sf_arg flag_spec of
                     SA_Optional \<Rightarrow>
                       (if rest = [] \<or> is_flag (hd rest) then parse_tokens it specs rest (flags, operands)
                        else parse_tokens it specs (tl rest)
                          (flagset_replace \<lparr>cf_spec = flag_spec, cf_arg = CA_Optional (Some (hd rest))\<rparr> flags, operands))
                   | SA_Required \<Rightarrow>
                       (if rest = [] \<or> is_flag (hd rest) then Inl (FlagMissingArgError flag_id)
                        else parse_tokens it specs (tl rest)
                          (flagset_replace \<lparr>cf_spec = flag_spec, cf_arg = CA_Required (hd rest)\<rparr> flags, operands))
                   | SA_None \<Rightarrow>
                       parse_tokens it specs rest
                         (flagset_replace \<lparr>cf_spec = flag_spec, cf_arg = CA_None\<rparr> flags, operands))))
      else parse_tokens it specs rest (flags, operands @ [token]))"
  by pat_completeness auto

termination
  by (relation "measure (\<lambda>(it, specs, tokens, acc). length tokens)") auto

definition parse :: "(spec_flag set \<Rightarrow> spec_flag list) \<Rightarrow> 'cb shell \<Rightarrow> string \<Rightarrow> cli_error + 'cb cmd option" where
  "parse it self input_text =
     (case try_into_args input_text of
        Inl _ \<Rightarrow> Inl ParseError
      | Inr [] \<Rightarrow> Inr None
      | Inr (command_name # tokens) \<Rightarrow>
          (case find_command_spec self command_name of
             None \<Rightarrow>
               (if sh_commands self command_name \<noteq> None then Inl (CommandNotAvailableError command_name)
                else Inl (UnknownCommandError command_name))
           | Some command_spec \<Rightarrow>
               (case parse_tokens it (sc_flags command_spec) tokens ({}, []) of
                  Inl e \<Rightarrow> Inl e
                | Inr (flags, operands) \<Rightarrow>
                    Inr (Some \<lparr>c_spec = command_spec, c_flags = flags, c_operands = operands\<rparr>))))"

subsection \<open>Prompt and input\<close>

text \<open>\<open>StateValue\<close>; a \<open>ColoredString\<close> is kept without its colour.\<close>

datatype state_value = SV_String string | SV_RichString string | SV_Sender

type_synonym shell_state = "string \<rightharpoonup> state_value"

definition make_shell_prompt :: "shell_state \<Rightarrow> string" where
  "make_shell_prompt state =
     (case state ''prompt'' of
        Some (SV_String s) \<Rightarrow> s @ ''>''
      | Some (SV_RichString cs) \<Rightarrow> cs @ ''>''
      | _ \<Rightarrow> ''#'' @ ''>'')"

text \<open>The input thread reads lines until no quote is open. \<open>None\<close>: it waits for another line.\<close>

fun read_command :: "char list \<Rightarrow> string \<Rightarrow> string list \<Rightarrow> (string \<times> string list) option" where
  "read_command quote_stack input lines =
     (if quote_stack = [] then Some (input, lines)
      else
        (case lines of
           [] \<Rightarrow> None
         | multi_line_input # rest \<Rightarrow>
             read_command (count_quotes multi_line_input quote_stack) (input @ multi_line_input) rest))"

definition read_input :: "string list \<Rightarrow> (string \<times> string list) option" where
  "read_input lines =
     (case lines of
        [] \<Rightarrow> None
      | input # rest \<Rightarrow> read_command (count_quotes input []) input rest)"

declare read_command.simps [simp del]

subsection \<open>What the parser returns\<close>

text \<open>An argument that fits the specification of its flag. An optional argument is always there.\<close>

fun fits :: "spec_arg \<Rightarrow> cmd_arg \<Rightarrow> bool" where
  "fits SA_None CA_None = True"
| "fits SA_Optional (CA_Optional (Some s)) = (\<not> is_flag s)"
| "fits SA_Required (CA_Required s) = (\<not> is_flag s)"
| "fits SA_None _ = False"
| "fits SA_Optional _ = False"
| "fits SA_Required _ = False"

definition wf_flags :: "spec_flag set \<Rightarrow> cmd_flag set \<Rightarrow> bool" where
  "wf_flags specs flags \<longleftrightarrow> finite flags \<and> inj_on (sf_id \<circ> cf_spec) flags \<and>
     (\<forall>f \<in> flags. cf_spec f \<in> specs \<and> fits (sf_arg (cf_spec f)) (cf_arg f))"

lemma wf_flags_empty [simp]: "wf_flags specs {}"
  by (simp add: wf_flags_def)

lemma wf_flags_replace:
  assumes "wf_flags specs flags" "cf_spec f \<in> specs" "fits (sf_arg (cf_spec f)) (cf_arg f)"
  shows "wf_flags specs (flagset_replace f flags)"
  using assms by (auto simp: wf_flags_def flagset_replace_def inj_on_def)

lemma query_in:
  "iterates it \<Longrightarrow> finite S \<Longrightarrow> query it q S = Some f \<Longrightarrow> f \<in> S \<and> flag_matches q f"
  by (metis find_Some_iff iterates_set nth_mem query_def)

text \<open>The outcomes of the loop, for all its branches at once.\<close>

fun token_error :: "cli_error \<Rightarrow> bool" where
  "token_error (UnknownFlagError _) = True"
| "token_error (FlagMissingArgError _) = True"
| "token_error _ = False"

lemma parse_tokens_wf:
  assumes "iterates it" "finite specs"
  shows "wf_flags specs (fst acc) \<Longrightarrow>
    (case parse_tokens it specs tokens acc of
       Inl e \<Rightarrow> token_error e
     | Inr (flags, operands) \<Rightarrow> wf_flags specs flags \<and>
         (\<exists>new. operands = snd acc @ new \<and> (\<forall>t \<in> set new. t \<in> set tokens \<and> \<not> is_flag t)))"
  using assms
proof (induction it specs tokens acc rule: parse_tokens.induct)
  case (2 it specs token rest flags operands)
  have sub: "t \<in> set (tl rest) \<Longrightarrow> t \<in> set rest" for t by (cases rest) auto
  show ?case
  proof (cases "is_flag token")
    case False
    with 2 show ?thesis by (fastforce split: sum.splits)
  next
    case True
    then obtain q where q: "flag_extract token = Some q"
      using flag_extract_None by (cases "flag_extract token") auto
    show ?thesis
    proof (cases "query it q specs")
      case None
      with True q show ?thesis by simp
    next
      case (Some f)
      with "2.prems" have f: "f \<in> specs" using query_in by blast
      note IH = "2.IH" (1-4) [OF True q Some]
      show ?thesis
      proof (cases "sf_arg f")
        case SA_None
        with IH(1) [OF SA_None] f "2.prems" True q Some show ?thesis
          by (auto simp: wf_flags_replace split: sum.splits)
      next
        case SA_Optional
        with IH(2,3) [OF SA_Optional] f "2.prems" True q Some sub show ?thesis
          by (auto simp: wf_flags_replace dest: sub split: sum.splits if_splits)
      next
        case SA_Required
        with IH(4) [OF SA_Required] f "2.prems" True q Some sub show ?thesis
          by (auto simp: wf_flags_replace dest: sub split: sum.splits if_splits)
      qed
    qed
  qed
qed (auto split: prod.splits)

lemma parse_result_wf:
  assumes "iterates it" "\<forall>name sp. sh_commands self name = Some sp \<longrightarrow> finite (sc_flags sp)"
  shows "(case parse it self input of
      Inl e \<Rightarrow> e = ParseError \<or> (\<exists>n. e = CommandNotAvailableError n \<or> e = UnknownCommandError n) \<or> token_error e
    | Inr None \<Rightarrow> try_into_args input = Inr []
    | Inr (Some c) \<Rightarrow> (\<exists>name. find_command_spec self name = Some (c_spec c)) \<and>
        wf_flags (sc_flags (c_spec c)) (c_flags c) \<and> (\<forall>t \<in> set (c_operands c). \<not> is_flag t))"
proof (cases "try_into_args input")
  case (Inl e)
  then show ?thesis by (simp add: parse_def)
next
  case (Inr words)
  show ?thesis
  proof (cases words)
    case Nil
    with Inr show ?thesis by (simp add: parse_def)
  next
    case (Cons name tokens)
    show ?thesis
    proof (cases "find_command_spec self name")
      case None
      with Inr Cons show ?thesis by (simp add: parse_def)
    next
      case (Some sp)
      then have "finite (sc_flags sp)"
        using assms(2) by (auto simp: find_command_spec_def get_enabled_commands_def split: option.splits if_splits)
      from parse_tokens_wf [OF assms(1) this, of "({}, [])" tokens] Inr Cons Some show ?thesis
        by (auto simp: parse_def split: sum.splits)
    qed
  qed
qed

text \<open>C33: what the parser returns is well-formed: the command is one that is enabled, each of its flags
  belongs to it and appears once, with an argument exactly when its specification has one, an
  optional argument never being absent, and no argument or operand looks like a flag. The only
  errors are the five of the parser: it never panics.\<close>

theorem parse_wellformed:
  assumes "iterates it" "\<forall>name sp. sh_commands self name = Some sp \<longrightarrow> finite (sc_flags sp)"
  shows "(case parse it self input of
      Inl e \<Rightarrow> e = ParseError \<or> (\<exists>n. e = CommandNotAvailableError n \<or> e = UnknownCommandError n) \<or> token_error e
    | Inr None \<Rightarrow> try_into_args input = Inr []
    | Inr (Some c) \<Rightarrow> (\<exists>name. find_command_spec self name = Some (c_spec c)) \<and>
        wf_flags (sc_flags (c_spec c)) (c_flags c) \<and> (\<forall>t \<in> set (c_operands c). \<not> is_flag t))"
  using assms by (rule parse_result_wf)

subsection \<open>Writing a command down\<close>

text \<open>A command with its flags in some order, each named by its long or its short form.\<close>

definition flag_tokens :: "Query \<times> cmd_flag \<Rightarrow> string list" where
  "flag_tokens qf = query_text (fst qf) # (case arg_raw (cf_arg (snd qf)) of None \<Rightarrow> [] | Some s \<Rightarrow> [s])"

definition render :: "string \<Rightarrow> (Query \<times> cmd_flag) list \<Rightarrow> string list \<Rightarrow> string" where
  "render name qfs operands = join_words (map quote (name # concat (map flag_tokens qfs) @ operands))"

fun long_enough :: "Query \<Rightarrow> bool" where
  "long_enough (Name s) = (1 < str_len s)"
| "long_enough (Short c) = True"

definition writable :: "spec_flag set \<Rightarrow> Query \<times> cmd_flag \<Rightarrow> bool" where
  "writable specs qf \<longleftrightarrow> long_enough (fst qf) \<and> flag_matches (fst qf) (cf_spec (snd qf)) \<and>
     cf_spec (snd qf) \<in> specs \<and> fits (sf_arg (cf_spec (snd qf))) (cf_arg (snd qf))"

lemma is_flag_query_text: "long_enough q \<Longrightarrow> is_flag (query_text q) \<and> flag_extract (query_text q) = Some q"
  using flag_extract_query_text [of q] flag_extract_None [of "query_text q"]
  by (cases q) auto

lemma flagset_replace_fresh:
  assumes "sf_id (cf_spec f) \<notin> (sf_id \<circ> cf_spec) ` S"
  shows "flagset_replace f S = insert f S"
proof -
  have "\<forall>g \<in> S. sf_id (cf_spec g) \<noteq> sf_id (cf_spec f)" using assms by (metis comp_apply image_eqI)
  then have "{g \<in> S. \<not> id_eq (sf_id (cf_spec g)) (sf_id (cf_spec f))} = S" by auto
  then show ?thesis by (simp add: flagset_replace_def)
qed

lemma parse_flag_tokens:
  assumes "iterates it" "finite specs" "distinguishable specs" "writable specs qf"
    and "sf_id (cf_spec (snd qf)) \<notin> (sf_id \<circ> cf_spec) ` flags"
  shows "parse_tokens it specs (flag_tokens qf @ rest) (flags, operands)
    = parse_tokens it specs rest (insert (snd qf) flags, operands)"
proof -
  obtain q sp a where qf: "qf = (q, \<lparr>cf_spec = sp, cf_arg = a\<rparr>)" by (metis cmd_flag.cases surj_pair)
  have q: "is_flag (query_text q)" "flag_extract (query_text q) = Some q" "query it q specs = Some sp"
    using assms(4) is_flag_query_text query_unique [OF assms(1-3)] by (auto simp: writable_def qf)
  have fit: "fits (sf_arg sp) a" using assms(4) by (simp add: writable_def qf)
  have ins: "flagset_replace \<lparr>cf_spec = sp, cf_arg = a\<rparr> flags = insert \<lparr>cf_spec = sp, cf_arg = a\<rparr> flags"
    using assms(5) by (intro flagset_replace_fresh) (simp add: qf)
  show ?thesis
    using fit q ins by (cases "(sf_arg sp, a)" rule: fits.cases) (auto simp: flag_tokens_def qf)
qed

lemma parse_operands:
  "\<forall>t \<in> set ts. \<not> is_flag t \<Longrightarrow> parse_tokens it specs ts (flags, operands) = Inr (flags, operands @ ts)"
  by (induction ts arbitrary: operands) auto

lemma parse_flags:
  assumes "iterates it" "finite specs" "distinguishable specs" "\<forall>qf \<in> set qfs. writable specs qf"
    and "distinct (map (sf_id \<circ> cf_spec \<circ> snd) qfs)"
    and "\<forall>qf \<in> set qfs. sf_id (cf_spec (snd qf)) \<notin> (sf_id \<circ> cf_spec) ` flags"
  shows "parse_tokens it specs (concat (map flag_tokens qfs) @ rest) (flags, operands)
    = parse_tokens it specs rest (snd ` set qfs \<union> flags, operands)"
  using assms(4-6)
proof (induction qfs arbitrary: flags)
  case (Cons qf qfs)
  have "parse_tokens it specs (flag_tokens qf @ concat (map flag_tokens qfs) @ rest) (flags, operands)
      = parse_tokens it specs (concat (map flag_tokens qfs) @ rest) (insert (snd qf) flags, operands)"
    using Cons.prems by (intro parse_flag_tokens [OF assms(1-3)]) auto
  also have "\<dots> = parse_tokens it specs rest (snd ` set qfs \<union> insert (snd qf) flags, operands)"
    using Cons.prems by (intro Cons.IH) (auto simp: image_iff)
  finally show ?case by simp
qed simp

text \<open>C32: every command can be written down so that the parser reads it back: the name, the flags in any
  order and in long or short form with their arguments, and the operands, all quoted, give
  exactly that command, provided the command is enabled, its flags can be told apart, no
  argument or operand looks like a flag and no flag is given by a long name of one byte.\<close>

theorem parse_reads_back_command:
  assumes "iterates it" "find_command_spec self name = Some sp" "finite (sc_flags sp)"
    and "distinguishable (sc_flags sp)" "\<forall>qf \<in> set qfs. writable (sc_flags sp) qf"
    and "distinct (map (sf_id \<circ> cf_spec \<circ> snd) qfs)" "\<forall>t \<in> set operands. \<not> is_flag t"
  shows "parse it self (render name qfs operands)
    = Inr (Some \<lparr>c_spec = sp, c_flags = snd ` set qfs, c_operands = operands\<rparr>)"
proof -
  have "parse_tokens it (sc_flags sp) (concat (map flag_tokens qfs) @ operands) ({}, [])
      = Inr (snd ` set qfs, operands)"
    using parse_flags [OF assms(1,3,4,5,6), of "{}" operands "[]"] parse_operands [OF assms(7)] by simp
  moreover have "try_into_args (render name qfs operands) = Inr (name # concat (map flag_tokens qfs) @ operands)"
    unfolding render_def using lex_words [of "name # concat (map flag_tokens qfs) @ operands" "[]"]
    by (simp add: try_into_args_def)
  ultimately show ?thesis using assms(2) by (simp add: parse_def)
qed

subsection \<open>Witnesses for the parser\<close>

definition sample_qos :: spec_flag where
  "sample_qos = spec_flag_new ''qos'' (CHR ''q'') SA_Required []"

definition sample_spec :: "nat spec_command" where
  "sample_spec = add_flag ''dup'' (CHR ''d'') SA_None []
     (add_flag ''qos'' (CHR ''q'') SA_Required [] (command_build ''publish'' 0))"

definition sample_shell :: "nat shell" where
  "sample_shell = update_enable_set (\<lambda>_. True) (shell_new [''publish'' \<mapsto> sample_spec] [])"

lemma sample_spec_flags: "sc_flags sample_spec = {spec_flag_new ''dup'' (CHR ''d'') SA_None [], sample_qos}"
  by (simp add: sample_spec_def add_flag_def command_build_def flagset_insert_def spec_flag_eq_def
      sample_qos_def spec_flag_new_def)

lemma sample_find: "find_command_spec sample_shell ''publish'' = Some sample_spec"
  by (simp add: find_command_spec_def get_enabled_commands_def sample_shell_def update_enable_set_def
      shell_new_def)

theorem parse_wellformed_witness:
  "case parse flag_order sample_shell ''publish'' of
     Inr (Some c) \<Rightarrow> wf_flags (sc_flags (c_spec c)) (c_flags c) | _ \<Rightarrow> False"
proof -
  have "try_into_args ''publish'' = Inr [''publish'']" by (simp add: try_into_args_def is_blank_def)
  then obtain c where c: "parse flag_order sample_shell ''publish'' = Inr (Some c)"
    by (simp add: parse_def sample_find)
  moreover have "\<forall>name sp. sh_commands sample_shell name = Some sp \<longrightarrow> finite (sc_flags sp)"
    by (simp add: sample_shell_def update_enable_set_def shell_new_def sample_spec_flags)
  ultimately show ?thesis
    using parse_wellformed [OF iterates_flag_order, of sample_shell "''publish''"] by simp
qed

theorem parse_reads_back_command_witness:
  "parse flag_order sample_shell (render ''publish'' [(Name ''qos'', \<lparr>cf_spec = sample_qos, cf_arg = CA_Required ''2''\<rparr>)]
     [''a b'', []])
   = Inr (Some \<lparr>c_spec = sample_spec, c_flags = {\<lparr>cf_spec = sample_qos, cf_arg = CA_Required ''2''\<rparr>},
       c_operands = [''a b'', []]\<rparr>)"
proof -
  have "distinguishable (sc_flags sample_spec)"
    by (simp add: sample_spec_flags distinguishable_def sample_qos_def spec_flag_new_def)
  moreover have "writable (sc_flags sample_spec) (Name ''qos'', \<lparr>cf_spec = sample_qos, cf_arg = CA_Required ''2''\<rparr>)"
    by (simp add: writable_def sample_spec_flags)
      (simp add: sample_qos_def spec_flag_new_def is_short_def starts_with_def str_len_Cons is_ascii_def)
  ultimately show ?thesis
    using parse_reads_back_command [OF iterates_flag_order sample_find,
        of "[(Name ''qos'', \<lparr>cf_spec = sample_qos, cf_arg = CA_Required ''2''\<rparr>)]" "[''a b'', []]"]
    by (simp add: sample_spec_flags is_short_def starts_with_def)
qed

subsection \<open>Reading a command over several lines\<close>

lemma read_command_split:
  assumes "read_command stack input lines = Some (result, rest)"
  shows "\<exists>used. lines = used @ rest \<and> result = input @ concat used \<and> fold count_quotes used stack = [] \<and>
    (\<forall>as zs. used = as @ zs \<and> zs \<noteq> [] \<longrightarrow> fold count_quotes as stack \<noteq> [])"
  using assms
proof (induction stack input lines rule: read_command.induct)
  case (1 stack input lines)
  show ?case
  proof (cases "stack = []")
    case True
    with "1.prems" show ?thesis by (simp add: read_command.simps)
  next
    case False
    with "1.prems" obtain l ls where l: "lines = l # ls"
        "read_command (count_quotes l stack) (input @ l) ls = Some (result, rest)"
      by (subst (asm) read_command.simps) (auto split: list.splits)
    from "1.IH" [OF False l(1,2)] obtain used where used: "ls = used @ rest" "result = (input @ l) @ concat used"
        "fold count_quotes used (count_quotes l stack) = []"
        "\<forall>as zs. used = as @ zs \<and> zs \<noteq> [] \<longrightarrow> fold count_quotes as (count_quotes l stack) \<noteq> []"
      by blast
    have "fold count_quotes as stack \<noteq> []" if "l # used = as @ zs" "zs \<noteq> []" for as zs
      using that used(4) False by (cases as) auto
    then show ?thesis using used(1-3) l(1) by (intro exI [of _ "l # used"]) auto
  qed
qed

text \<open>The shell reads exactly one complete command: from lines without backslashes it takes the
  shortest non-empty prefix whose concatenation can be split into words, and leaves the other
  lines to the next command.\<close>

theorem read_input_takes_one_command:
  assumes "\<forall>l \<in> set lines. bs \<notin> set l" "read_input lines = Some (input, rest)"
  shows "\<exists>used. used \<noteq> [] \<and> lines = used @ rest \<and> input = concat used \<and>
    (\<exists>ws. try_into_args input = Inr ws) \<and>
    (\<forall>as zs. used = as @ zs \<and> as \<noteq> [] \<and> zs \<noteq> [] \<longrightarrow> try_into_args (concat as) = Inl ())"
proof -
  obtain l ls where l: "lines = l # ls" "read_command (count_quotes l []) l ls = Some (input, rest)"
    using assms(2) by (auto simp: read_input_def split: list.splits)
  from read_command_split [OF l(2)] obtain used where used: "ls = used @ rest" "input = l @ concat used"
      "fold count_quotes (l # used) [] = []"
      "\<forall>as zs. used = as @ zs \<and> zs \<noteq> [] \<longrightarrow> fold count_quotes (l # as) [] \<noteq> []"
    by auto
  have plain: "\<forall>l \<in> set ms. CHR 0x5C \<notin> set l" if "set ms \<subseteq> set (l # used)" for ms
    using that assms(1) l(1) used(1) by auto
  have ok: "\<exists>ws. try_into_args (concat (l # used)) = Inr ws"
    using count_quotes_agrees_with_lexer [OF plain [OF order_refl]] used(3) by blast
  have short: "try_into_args (concat as) = Inl ()" if split: "l # used = as @ bs'" "as \<noteq> []" "bs' \<noteq> []" for as bs'
  proof -
    obtain as' where as': "as = l # as'" "used = as' @ bs'" using split by (cases as) auto
    then have "fold count_quotes as [] \<noteq> []" using used(4) split(3) by blast
    moreover have "set as \<subseteq> set (l # used)" using as' by auto
    ultimately show ?thesis
      using count_quotes_agrees_with_lexer [OF plain] by (cases "try_into_args (concat as)") auto
  qed
  show ?thesis
    using l(1) used(1,2) ok short by (intro exI [of _ "l # used"]) auto
qed

theorem read_input_takes_one_command_witness:
  "\<exists>ws. try_into_args (concat [[dq, CHR 0x61, nl], [CHR 0x62, dq, nl]]) = Inr ws \<and>
     read_input [[dq, CHR 0x61, nl], [CHR 0x62, dq, nl], [nl]]
       = Some (concat [[dq, CHR 0x61, nl], [CHR 0x62, dq, nl]], [[nl]])"
proof -
  have r: "read_input [[dq, CHR 0x61, nl], [CHR 0x62, dq, nl], [nl]]
      = Some (concat [[dq, CHR 0x61, nl], [CHR 0x62, dq, nl]], [[nl]])"
    by (simp add: read_input_def read_command.simps count_quotes_def count_quote_def chars_nth_def
        str_len_Cons is_ascii_def)
  show ?thesis
    using read_input_takes_one_command [OF _ r] r by auto
qed

end
