(* ===== verification/Cli_Help.thy ===== *)
theory Cli_Help
  imports Cli_Shell "HOL-Library.Sorting_Algorithms"
begin

section \<open>Help texts (\<open>mqtt-cli/src/cli/spec/command.rs\<close>, \<open>mqtt-cli/src/cli/shell.rs\<close>)\<close>

text \<open>
  The help of one command, and the shell's list of the enabled commands. The texts are padded by hand
  with subtractions of \<open>usize\<close>, which panic below zero. The order of
  \<open>natural_lexical_cmp\<close>, of the crate \<open>lexical_sort\<close>, is an argument, a comparator of strings; so are the
  orders in which a hash set of flags and a hash map of commands are visited.
\<close>

subsection \<open>The help of a command\<close>

definition string_sort_unstable :: "string comparator \<Rightarrow> ('a \<Rightarrow> string) \<Rightarrow> 'a list \<Rightarrow> 'a list" where
  "string_sort_unstable cmp as_ref xs = Sorting_Algorithms.sort (key as_ref cmp) xs"

definition flag_usage :: "spec_flag \<Rightarrow> string" where
  "flag_usage flag =
     (let arg_text = str_replace ''-'' ''_'' (id_name (sf_id flag)); short = [id_short (sf_id flag)] in
      case sf_arg flag of
        SA_None \<Rightarrow> ''[-'' @ short @ ''] ''
      | SA_Optional \<Rightarrow> ''[-'' @ short @ '' ['' @ arg_text @ '']] ''
      | SA_Required \<Rightarrow> ''[-'' @ short @ '' '' @ arg_text @ ''] '')"

definition sorted_flags :: "string comparator \<Rightarrow> (spec_flag set \<Rightarrow> spec_flag list) \<Rightarrow> 'cb spec_command \<Rightarrow> spec_flag list" where
  "sorted_flags cmp it self = string_sort_unstable cmp (\<lambda>f. id_name (sf_id f)) (it (sc_flags self))"

definition get_flags_usage :: "string comparator \<Rightarrow> (spec_flag set \<Rightarrow> spec_flag list) \<Rightarrow> 'cb spec_command \<Rightarrow> string" where
  "get_flags_usage cmp it self = str_trim (fold (\<lambda>flag usage. usage @ flag_usage flag) (sorted_flags cmp it self) [])"

text \<open>\<open>id_width\<close>, the width of the column of flags.\<close>

definition flags_width :: "spec_flag list \<Rightarrow> nat" where
  "flags_width flags =
     fold (\<lambda>f id_width. let width = str_len ''-x, --'' + str_len (id_name (sf_id f)) + str_len ''  '' in
        if width > id_width then width else id_width) flags 0"

definition flag_help_line :: "string \<Rightarrow> nat \<Rightarrow> spec_flag \<Rightarrow> cli_error + string" where
  "flag_help_line prefix id_width flag =
     (let id1 = prefix @ ''-'' @ [id_short (sf_id flag)] @ '', --'' @ id_name (sf_id flag);
          start_len = str_len id1
      in case usub id_width start_len of
           None \<Rightarrow> Inl Panic
         | Some pad \<Rightarrow> Inr (id1 @ replicate pad (CHR '' '') @ ''  '' @ sf_help flag @ [nl]))"

definition get_flags_help ::
    "string comparator \<Rightarrow> (spec_flag set \<Rightarrow> spec_flag list) \<Rightarrow> 'cb spec_command \<Rightarrow> string \<Rightarrow> cli_error + string" where
  "get_flags_help cmp it self prefix =
     (let flags = sorted_flags cmp it self in
      map_sum id concat (map_result (flag_help_line prefix (flags_width flags)) flags))"

definition command_help ::
    "string comparator \<Rightarrow> (spec_flag set \<Rightarrow> spec_flag list) \<Rightarrow> 'cb spec_command \<Rightarrow> cli_error + string" where
  "command_help cmp it self =
     (let usage = str_replace ''{$flags}'' (get_flags_usage cmp it self) (str_replace ''{$name}'' (sc_name self) (sc_usage self));
          help = ''Usage: '' @ usage @ [nl, nl] @ ''  '' @ sc_description self
      in if card (sc_flags self) > 0
         then map_sum id (\<lambda>opts. help @ [nl, nl] @ ''Options:'' @ [nl, nl] @ opts) (get_flags_help cmp it self ''  '')
         else Inr help)"

subsection \<open>The help of the shell\<close>

definition enabled_list :: "(string set \<Rightarrow> string list) \<Rightarrow> 'cb shell \<Rightarrow> 'cb spec_command list" where
  "enabled_list names self =
     (let enabled_cmds = get_enabled_commands self in map (\<lambda>n. the (enabled_cmds n)) (names (dom enabled_cmds)))"

text \<open>The loop \<open>for idx in 0..name_width\<close> with its \<open>break\<close>, from \<open>idx\<close> on.\<close>

fun pad_name :: "nat \<Rightarrow> nat \<Rightarrow> nat \<Rightarrow> cli_error + string" where
  "pad_name name_width len 0 = Inr []"
| "pad_name name_width len (Suc n) =
     (case usub name_width len of
        None \<Rightarrow> Inl Panic
      | Some pad \<Rightarrow>
          if name_width - Suc n < pad then map_sum id (\<lambda>s. CHR '' '' # s) (pad_name name_width len n)
          else Inr [])"

definition command_line_help :: "nat \<Rightarrow> nat \<Rightarrow> 'cb spec_command \<Rightarrow> cli_error + string" where
  "command_line_help name_width help_width c =
     (case pad_name name_width (str_len (sc_name c)) name_width of
        Inl e \<Rightarrow> Inl e
      | Inr left \<Rightarrow>
          (case usub help_width (str_len (sc_description c)) of
             None \<Rightarrow> Inl Panic
           | Some pad \<Rightarrow>
               Inr (left @ sc_name c @ ''    '' @ sc_description c @ replicate pad (CHR '' '') @ [nl])))"

definition shell_help :: "string comparator \<Rightarrow> (string set \<Rightarrow> string list) \<Rightarrow> 'cb shell \<Rightarrow> cli_error + string" where
  "shell_help cmp names self =
     (let cmds = enabled_list names self;
          name_width = fold (\<lambda>c w. max w (str_len (sc_name c) + 1)) cmds 0;
          help_width = fold (\<lambda>c w. max w (str_len (sc_description c) + 1)) cmds 0;
          commands = string_sort_unstable cmp sc_name cmds
      in map_sum id (\<lambda>rows. sh_help self @ [nl, nl] @ concat rows)
           (map_result (command_line_help name_width help_width) commands))"

subsection \<open>Widths\<close>

lemma fold_max_ge: "c \<in> set cs \<Longrightarrow> f c \<le> fold (\<lambda>c w. max w (f c)) cs (w :: nat)"
proof (induction cs arbitrary: w)
  case (Cons a cs)
  have mono: "w \<le> fold (\<lambda>c w. max w (f c)) cs w" for w by (induction cs arbitrary: w) (auto intro: max.coboundedI1 order_trans)
  show ?case using Cons mono [of "max w (f a)"] by (cases "c = a") auto
qed simp

lemma fold_max_attained:
  "fold (\<lambda>c w. max w (f c)) cs (w :: nat) = w \<or> (\<exists>c \<in> set cs. fold (\<lambda>c w. max w (f c)) cs w = f c)"
proof (induction cs arbitrary: w)
  case (Cons a cs)
  from Cons.IH [of "max w (f a)"] show ?case by (auto simp: max_def split: if_splits)
qed simp

lemma flags_width_max: "flags_width flags = fold (\<lambda>f w. max w (8 + str_len (id_name (sf_id f)))) flags 0"
proof -
  have "str_len ''-x, --'' = 6" "str_len ''  '' = 2" by (simp_all add: str_len_Cons is_ascii_def)
  then show ?thesis
    unfolding flags_width_def Let_def by (intro arg_cong [where f = "\<lambda>g. fold g flags 0"] ext) auto
qed

lemma str_len_replicate_space [simp]: "str_len (replicate n (CHR '' '')) = n"
  by (induction n) (simp_all add: str_len_Cons is_ascii_def)

lemma str_len_spaces [simp]: "str_len ''    '' = 4" "str_len ''  '' = 2" "str_len [nl] = 1"
  by (simp_all add: str_len_Cons is_ascii_def)

subsection \<open>The rows of the two lists\<close>

lemma pad_name_spaces:
  "n \<le> width \<Longrightarrow> len \<le> width \<Longrightarrow> pad_name width len n = Inr (replicate (n - len) (CHR '' ''))"
  by (induction n) (auto simp: usub_def Suc_diff_le)

definition command_row :: "nat \<Rightarrow> nat \<Rightarrow> 'cb spec_command \<Rightarrow> string" where
  "command_row name_width help_width c =
     replicate (name_width - str_len (sc_name c)) (CHR '' '') @ sc_name c @ ''    '' @ sc_description c
       @ replicate (help_width - str_len (sc_description c)) (CHR '' '') @ [nl]"

lemma command_line_help_row:
  assumes "str_len (sc_name c) \<le> nw" "str_len (sc_description c) \<le> hw"
  shows "command_line_help nw hw c = Inr (command_row nw hw c)"
    "str_len (command_row nw hw c) = nw + hw + 5"
  using assms by (simp_all add: command_line_help_def command_row_def pad_name_spaces usub_def str_len_Cons is_ascii_def)

lemma flag_line_len:
  "str_len (''  '' @ ''-'' @ [c] @ '', --'' @ name) = 7 + str_len name + (if is_ascii c then 1 else 2)"
  by (simp add: str_len_Cons is_ascii_def)

lemma flag_help_line_cases:
  assumes "flag_help_line ''  '' w f = r"
  shows "r = Inl Panic \<and> w < 7 + str_len (id_name (sf_id f)) + (if is_ascii (id_short (sf_id f)) then 1 else 2) \<or>
    (\<exists>l. r = Inr (l @ sf_help f @ [nl]) \<and> str_len l = w + 2 \<and>
       w \<ge> 7 + str_len (id_name (sf_id f)) + (if is_ascii (id_short (sf_id f)) then 1 else 2))"
proof -
  let ?id = "''  '' @ ''-'' @ [id_short (sf_id f)] @ '', --'' @ id_name (sf_id f)"
  have "str_len ?id = 7 + str_len (id_name (sf_id f)) + (if is_ascii (id_short (sf_id f)) then 1 else 2)"
    by (rule flag_line_len)
  then show ?thesis
    using assms unfolding flag_help_line_def Let_def usub_def
    by (auto simp del: append_Cons split: if_splits
        intro!: exI [of _ "?id @ replicate (w - str_len ?id) (CHR '' '') @ ''  ''"])
qed

lemma set_sorted_flags [simp]: "iterates it \<Longrightarrow> finite (sc_flags c) \<Longrightarrow> set (sorted_flags cmp it c) = sc_flags c"
  by (simp add: sorted_flags_def string_sort_unstable_def)

subsection \<open>What the user sees\<close>

lemma shell_help_rows:
  assumes "finite (dom (get_enabled_commands sh))" "iterates names"
  shows "\<exists>cmds nw hw. shell_help cmp names sh = Inr (sh_help sh @ [nl, nl] @ concat (map (command_row nw hw) cmds)) \<and>
    mset cmds = image_mset (\<lambda>n. the (get_enabled_commands sh n)) (mset_set (dom (get_enabled_commands sh))) \<and>
    Sorting_Algorithms.sorted (key sc_name cmp) cmds \<and>
    (\<forall>c \<in> set cmds. str_len (command_row nw hw c) = nw + hw + 5 \<and>
       str_len (sc_name c) < nw \<and> str_len (sc_description c) < hw)"
proof -
  let ?cs = "enabled_list names sh"
  define nw where "nw = fold (\<lambda>c w. max w (str_len (sc_name c) + 1)) ?cs 0"
  define hw where "hw = fold (\<lambda>c w. max w (str_len (sc_description c) + 1)) ?cs 0"
  let ?cmds = "string_sort_unstable cmp sc_name ?cs"
  have set: "set ?cmds = set ?cs" by (simp add: string_sort_unstable_def)
  have wide: "str_len (sc_name c) < nw" "str_len (sc_description c) < hw" if "c \<in> set ?cmds" for c
    using fold_max_ge [of c ?cs "\<lambda>c. str_len (sc_name c) + 1" 0]
      fold_max_ge [of c ?cs "\<lambda>c. str_len (sc_description c) + 1" 0] that set
    by (simp_all add: nw_def hw_def)
  then have rows: "map_result (command_line_help nw hw) ?cmds = Inr (map (command_row nw hw) ?cmds)"
    by (intro map_result_Inr command_line_help_row) (auto intro: less_imp_le)
  have "mset ?cmds = mset ?cs" by (simp add: string_sort_unstable_def)
  also have "\<dots> = image_mset (\<lambda>n. the (get_enabled_commands sh n)) (mset (names (dom (get_enabled_commands sh))))"
    by (simp add: enabled_list_def Let_def)
  also have "mset (names (dom (get_enabled_commands sh))) = mset_set (dom (get_enabled_commands sh))"
    using assms by (metis iterates_distinct iterates_set mset_set_set)
  finally have mset: "mset ?cmds = image_mset (\<lambda>n. the (get_enabled_commands sh n)) (mset_set (dom (get_enabled_commands sh)))" .
  have "shell_help cmp names sh = Inr (sh_help sh @ [nl, nl] @ concat (map (command_row nw hw) ?cmds))"
    using rows by (simp add: shell_help_def Let_def nw_def hw_def)
  moreover have "Sorting_Algorithms.sorted (key sc_name cmp) ?cmds" by (simp add: string_sort_unstable_def)
  ultimately show ?thesis using mset wide
    by (intro exI [of _ ?cmds] exI [of _ nw] exI [of _ hw] conjI ballI)
      (auto intro: command_line_help_row(2) less_imp_le)
qed

text \<open>The shell's help never panics and is a table: it lists exactly the enabled commands, each once
  and in the order of the comparator, in rows of equal length with a blank at least before the name and
  after the description.\<close>

theorem shell_help_table:
  assumes "finite (dom (get_enabled_commands sh))" "iterates names"
  shows "\<exists>cmds nw hw. shell_help cmp names sh = Inr (sh_help sh @ [nl, nl] @ concat (map (command_row nw hw) cmds)) \<and>
    mset cmds = image_mset (\<lambda>n. the (get_enabled_commands sh n)) (mset_set (dom (get_enabled_commands sh))) \<and>
    Sorting_Algorithms.sorted (key sc_name cmp) cmds \<and>
    (\<forall>c \<in> set cmds. str_len (command_row nw hw c) = nw + hw + 5 \<and>
       str_len (sc_name c) < nw \<and> str_len (sc_description c) < hw)"
  using assms by (rule shell_help_rows)

text \<open>The table is not empty of content on a shell with two commands.\<close>

definition two_commands :: "unit shell" where
  "two_commands = update_enable_set (\<lambda>_. True) (shell_new
     [''a'' \<mapsto> (command_build ''a'' ())\<lparr>sc_description := ''first''\<rparr>, ''bb'' \<mapsto> command_build ''bb'' ()] ''h'')"

definition plain_order :: "string comparator" where
  "plain_order = default"

definition name_order :: "string set \<Rightarrow> string list" where
  "name_order = sorted_list_of_set"

lemma iterates_name_order: "iterates name_order"
  by (simp add: iterates_def name_order_def)

lemma two_commands_enabled:
  "get_enabled_commands two_commands =
     [''a'' \<mapsto> (command_build ''a'' ())\<lparr>sc_description := ''first''\<rparr>, ''bb'' \<mapsto> command_build ''bb'' ()]"
  by (simp add: two_commands_def get_enabled_commands_def update_enable_set_def shell_new_def fun_eq_iff)

theorem shell_help_table_witness:
  "\<exists>(cmds :: unit spec_command list) nw hw. shell_help plain_order name_order two_commands
      = Inr (''h'' @ [nl, nl] @ concat (map (command_row nw hw) cmds)) \<and> length cmds = 2"
proof -
  have fin: "finite (dom (get_enabled_commands two_commands))" by (simp add: two_commands_enabled)
  have h: "sh_help two_commands = ''h''" by (simp add: two_commands_def update_enable_set_def shell_new_def)
  from shell_help_table [OF fin iterates_name_order, of plain_order] h
  obtain cmds :: "unit spec_command list" and nw hw where cmds: "shell_help plain_order name_order two_commands
        = Inr (''h'' @ [nl, nl] @ concat (map (command_row nw hw) cmds))"
      "mset cmds = image_mset (\<lambda>n. the (get_enabled_commands two_commands n)) (mset_set (dom (get_enabled_commands two_commands)))"
    by auto
  have "size (mset cmds) = 2" unfolding cmds(2) by (simp add: two_commands_enabled)
  then have "length cmds = 2" by simp
  with cmds(1) show ?thesis by blast
qed

lemma flags_help_rows:
  assumes "finite (sc_flags c)" "iterates it"
  shows "(get_flags_help cmp it c ''  '' = Inl Panic \<longleftrightarrow>
      (\<exists>f \<in> sc_flags c. \<not> is_ascii (id_short (sf_id f)) \<and>
         (\<forall>g \<in> sc_flags c. str_len (id_name (sf_id g)) \<le> str_len (id_name (sf_id f))))) \<and>
    (\<forall>text. get_flags_help cmp it c ''  '' = Inr text \<longrightarrow>
      (\<exists>left w. text = concat (map (\<lambda>f. left f @ sf_help f @ [nl]) (sorted_flags cmp it c)) \<and>
         (\<forall>f \<in> sc_flags c. str_len (left f) = w)))"
proof -
  let ?fs = "sorted_flags cmp it c" and ?len = "\<lambda>f. str_len (id_name (sf_id f))"
  define w where "w = flags_width ?fs"
  have set: "set ?fs = sc_flags c" using assms by simp
  have ge: "8 + ?len f \<le> w" if "f \<in> sc_flags c" for f
    using fold_max_ge [of f ?fs "\<lambda>f. 8 + ?len f" 0] that set by (simp add: w_def flags_width_max)
  have attained: "w = 0 \<or> (\<exists>f \<in> sc_flags c. w = 8 + ?len f)"
    using fold_max_attained [of "\<lambda>f. 8 + ?len f" ?fs 0] set by (simp add: w_def flags_width_max)
  have panics: "flag_help_line ''  '' w f = Inl e \<longleftrightarrow> e = Panic \<and> w = 8 + ?len f \<and> \<not> is_ascii (id_short (sf_id f))"
    if "f \<in> sc_flags c" for f e
    using flag_help_line_cases [OF refl, of w f] ge [OF that] by (auto split: if_splits)
  have longest: "w = 8 + ?len f \<longleftrightarrow> (\<forall>g \<in> sc_flags c. ?len g \<le> ?len f)" if "f \<in> sc_flags c" for f
    using ge attained that by fastforce
  have run: "get_flags_help cmp it c ''  '' = map_sum id concat (map_result (flag_help_line ''  '' w) ?fs)"
    by (simp add: get_flags_help_def w_def Let_def)
  have iff: "(\<exists>f \<in> sc_flags c. flag_help_line ''  '' w f = Inl Panic) \<longleftrightarrow>
      (\<exists>f \<in> sc_flags c. \<not> is_ascii (id_short (sf_id f)) \<and> (\<forall>g \<in> sc_flags c. ?len g \<le> ?len f))"
    by (intro bex_cong refl) (simp only: panics longest simp_thms conj_commute)
  show ?thesis
  proof (cases "\<exists>f \<in> sc_flags c. flag_help_line ''  '' w f = Inl Panic")
    case True
    then obtain e where e: "map_result (flag_help_line ''  '' w) ?fs = Inl e" using map_result_fails set by metis
    then have "e = Panic" using map_result_Inl [OF e] panics set by auto
    then show ?thesis using True [unfolded iff] e run by simp
  next
    case False
    then have "\<exists>l. flag_help_line ''  '' w f = Inr (l @ sf_help f @ [nl]) \<and> str_len l = w + 2" if "f \<in> sc_flags c" for f
      using flag_help_line_cases [OF refl, of w f] that by auto
    then obtain left where left: "\<And>f. f \<in> sc_flags c \<Longrightarrow>
        flag_help_line ''  '' w f = Inr (left f @ sf_help f @ [nl]) \<and> str_len (left f) = w + 2" by metis
    then have "map_result (flag_help_line ''  '' w) ?fs = Inr (map (\<lambda>f. left f @ sf_help f @ [nl]) ?fs)"
      using set by (intro map_result_Inr) auto
    then have res: "get_flags_help cmp it c ''  '' = Inr (concat (map (\<lambda>f. left f @ sf_help f @ [nl]) ?fs))"
      using run by simp
    show ?thesis unfolding res using False [unfolded iff] left
      by (intro conjI allI impI exI [of _ left] exI [of _ "w + 2"]) auto
  qed
qed

text \<open>The help of a command lists its flags with their help texts in one column, unless it panics: that
  happens exactly when a flag with a longest name has a short form of two bytes, because the width
  counts the short form as one byte.\<close>

theorem flags_help_column:
  assumes "finite (sc_flags c)" "iterates it"
  shows "(get_flags_help cmp it c ''  '' = Inl Panic \<longleftrightarrow>
      (\<exists>f \<in> sc_flags c. \<not> is_ascii (id_short (sf_id f)) \<and>
         (\<forall>g \<in> sc_flags c. str_len (id_name (sf_id g)) \<le> str_len (id_name (sf_id f))))) \<and>
    (\<forall>text. get_flags_help cmp it c ''  '' = Inr text \<longrightarrow>
      (\<exists>left w. text = concat (map (\<lambda>f. left f @ sf_help f @ [nl]) (sorted_flags cmp it c)) \<and>
         (\<forall>f \<in> sc_flags c. str_len (left f) = w)))"
  using assms by (rule flags_help_rows)

text \<open>A flag whose short form takes two bytes.\<close>

definition wide_flag_command :: "unit spec_command" where
  "wide_flag_command = add_flag ''n'' (CHR 0xE9) SA_None [] (command_build ''c'' ())"

theorem flags_help_column_witness:
  "get_flags_help plain_order flag_order wide_flag_command ''  '' = Inl Panic"
proof -
  have flags: "sc_flags wide_flag_command = {spec_flag_new ''n'' (CHR 0xE9) SA_None []}"
    by (simp add: wide_flag_command_def add_flag_def command_build_def flagset_insert_def)
  then have "finite (sc_flags wide_flag_command)" by simp
  from flags_help_column [OF this iterates_flag_order, of plain_order] show ?thesis
    by (simp add: flags spec_flag_new_def is_ascii_def)
qed

end
