(* ===== verification/Cli_Mqtt.thy ===== *)
theory Cli_Mqtt
  imports Cli_Help Mqtt_Codec
begin

section \<open>The connection of the client (\<open>mqtt-cli/src/mqtt.rs\<close>, \<open>mqtt/keep_alive.rs\<close>, \<open>tcp.rs\<close>)\<close>

text \<open>
  Commands talk to the TCP thread and to the keep-alive thread through channels. The sending end
  of a channel is the list of what was sent to it, so that the effects of a command are
  visible; what arrives, and whether a thread still holds its receiver, comes from a
  \<open>cli_world\<close>: \<open>cw_recv n\<close> is the outcome of the \<open>n\<close>-th wait for a packet.
\<close>

datatype PacketTx = Tx_Mqtt bytes bool | Tx_Close

datatype PacketRx = Rx_Mqtt bytes | Rx_Disconnected

subsection \<open>The keep-alive thread\<close>

datatype ka_msg = Suspend | Resume | Reset | Kill

text \<open>What \<open>recv_timeout\<close> can return to the thread.\<close>

datatype ka_event = Woken ka_msg | TimedOut | SenderGone

text \<open>One turn of the loop of the thread: whether it goes on, its flag \<open>is_suspended\<close>, and the shell
  commands it sends.\<close>

fun keep_alive_turn :: "ka_event \<Rightarrow> bool \<Rightarrow> bool \<times> bool \<times> string list" where
  "keep_alive_turn (Woken Suspend) is_suspended = (True, True, [])"
| "keep_alive_turn (Woken Reset) is_suspended = (True, is_suspended, [])"
| "keep_alive_turn (Woken Resume) is_suspended = (True, False, [])"
| "keep_alive_turn (Woken Kill) is_suspended = (False, is_suspended, [])"
| "keep_alive_turn TimedOut is_suspended =
     (if is_suspended then (True, is_suspended, []) else (True, is_suspended, [''ping -n -q'']))"
| "keep_alive_turn SenderGone is_suspended = (False, is_suspended, [])"

fun keep_alive_run :: "ka_event list \<Rightarrow> bool \<Rightarrow> string list" where
  "keep_alive_run [] is_suspended = []"
| "keep_alive_run (e # es) is_suspended =
     (case keep_alive_turn e is_suspended of
        (again, is_suspended', out) \<Rightarrow> out @ (if again then keep_alive_run es is_suspended' else []))"

subsection \<open>The context of the commands\<close>

record MqttContext =
  x_prompt_string :: string
  x_debug :: bool
  x_client_id :: string
  x_hostname :: string
  x_port :: u16
  x_keep_alive_tx :: "(u16 \<times> ka_msg list) option"
  x_tcp_write_tx :: "PacketTx list option"
  x_tcp_read_rx :: bool
  x_recv_pos :: nat
  x_state :: shell_state

text \<open>\<open>x_recv_pos\<close> counts the waits for a packet so far; \<open>x_state\<close> is the shell's state, which callbacks
  change along with the context.\<close>

text \<open>A \<open>cli_world\<close> also says whether \<open>Signals::new\<close> succeeds, and \<open>cw_signals n\<close> are the signals that are
  pending before the \<open>n\<close>-th wait; \<open>cw_cmp\<close> is \<open>natural_lexical_cmp\<close>, and \<open>cw_names\<close> the order in which a map with
  given keys is visited.\<close>

datatype signal = SIGINT | SIGTERM | OtherSignal

record cli_world =
  cw_mqttrs :: mqttrs_api
  cw_recv :: "nat \<Rightarrow> recv_error + PacketRx"
  cw_tx_ok :: "nat \<Rightarrow> bool"
  cw_ka_ok :: "nat \<Rightarrow> bool"
  cw_connect :: "string \<Rightarrow> u16 \<Rightarrow> bool"
  cw_iter :: "cmd_flag set \<Rightarrow> cmd_flag list"
  cw_signals_new :: bool
  cw_signals :: "nat \<Rightarrow> signal list"
  cw_cmp :: "string comparator"
  cw_names :: "string set \<Rightarrow> string list"

type_synonym 'a cop = "(MqttContext, cli_error, 'a) op"

definition tcp_send :: "cli_world \<Rightarrow> PacketTx \<Rightarrow> unit cop" where
  "tcp_send W pkt = (\<lambda>x. case x_tcp_write_tx x of
     Some sent \<Rightarrow>
       if cw_tx_ok W (length sent) then (Inr (), x\<lparr>x_tcp_write_tx := Some (sent @ [pkt])\<rparr>)
       else (Inl ChannelSendError, x)
   | None \<Rightarrow> (Inl ChannelSendError, x))"

definition tcp_recv_timeout :: "cli_world \<Rightarrow> (MqttContext, recv_error, PacketRx) op" where
  "tcp_recv_timeout W = (\<lambda>x.
     if x_tcp_read_rx x then (cw_recv W (x_recv_pos x), x\<lparr>x_recv_pos := Suc (x_recv_pos x)\<rparr>)
     else (Inl RecvDisconnected, x))"

text \<open>\<open>recv\<close> waits however long it takes: a \<open>RecvTimeout\<close> of the world is a wait that goes on. Nothing in the program calls it.\<close>

partial_function (option) tcp_recv :: "cli_world \<Rightarrow> MqttContext \<Rightarrow> ((unit + PacketRx) \<times> MqttContext) option" where
  "tcp_recv W x =
     (case tcp_recv_timeout W x of
        (Inl RecvTimeout, x') \<Rightarrow> tcp_recv W x'
      | (Inl RecvDisconnected, x') \<Rightarrow> Some (Inl (), x')
      | (Inr pkt, x') \<Rightarrow> Some (Inr pkt, x'))"

definition decode_tcp_rx :: "mqttrs_api \<Rightarrow> PacketRx \<Rightarrow> cli_error + mqttrs_Packet" where
  "decode_tcp_rx X pkt =
     (case pkt of
        Rx_Mqtt buf \<Rightarrow>
          (case decode_slice X buf of
             Inl _ \<Rightarrow> Inl IoError
           | Inr (Some pkt) \<Rightarrow> Inr pkt
           | Inr None \<Rightarrow> Inl IoError)
      | Rx_Disconnected \<Rightarrow> Inl IoError)"

text \<open>Errors of other types become the error of the command, as \<open>map_err\<close> and \<open>?\<close> do.\<close>

definition err_into :: "('e \<Rightarrow> cli_error) \<Rightarrow> (MqttContext, 'e, 'a) op \<Rightarrow> 'a cop" where
  "err_into f m = (\<lambda>x. case m x of (r, x') \<Rightarrow> (map_sum f id r, x'))"

definition lift_result :: "cli_error + 'a \<Rightarrow> 'a cop" where
  "lift_result r = (\<lambda>x. (r, x))"

text \<open>\<open>vec![0u8; n]\<close>, then \<open>encode_slice(&pkt, &mut buf)?\<close>.\<close>

definition encode_into :: "mqttrs_api \<Rightarrow> nat \<Rightarrow> mqttrs_Packet \<Rightarrow> cli_error + bytes" where
  "encode_into X n pkt =
     (case encode_slice X pkt (replicate n 0) of
        Inl _ \<Rightarrow> Inl EncodeError
      | Inr (_, buf) \<Rightarrow> Inr buf)"

subsection \<open>Numbers as text\<close>

text \<open>\<open>str::parse\<close> for unsigned integers of \<open>w\<close> bits.\<close>

definition digit_val :: "char \<Rightarrow> nat option" where
  "digit_val c = (let n = of_char c :: nat in if 48 \<le> n \<and> n \<le> 57 then Some (n - 48) else None)"

fun digits_val :: "nat \<Rightarrow> string \<Rightarrow> nat option" where
  "digits_val acc [] = Some acc"
| "digits_val acc (c # cs) = (case digit_val c of None \<Rightarrow> None | Some d \<Rightarrow> digits_val (10 * acc + d) cs)"

definition parse_uint :: "nat \<Rightarrow> string \<Rightarrow> cli_error + nat" where
  "parse_uint w s =
     (let t = (if s \<noteq> [] \<and> hd s = CHR ''+'' then tl s else s) in
      if t = [] then Inl ParseIntError
      else
        (case digits_val 0 t of
           None \<Rightarrow> Inl ParseIntError
         | Some n \<Rightarrow> if n < 2 ^ w then Inr n else Inl ParseIntError))"

text \<open>\<open>Display\<close> of an unsigned integer.\<close>

fun show_nat :: "nat \<Rightarrow> string" where
  "show_nat n = (if n < 10 then [char_of (48 + n)] else show_nat (n div 10) @ [char_of (48 + n mod 10)])"

declare show_nat.simps [simp del]

subsection \<open>The TCP thread\<close>

text \<open>Reading from the stream. \<open>fill_buf\<close> is the outcome of one read, and \<open>clone_packet\<close> the function of the crate
  \<open>mqttrs\<close>, which returns the length of the packet it has copied and the buffer it was given with the
  packet in it; its error becomes an \<open>io::Error\<close> that is not a timeout.\<close>

datatype io_kind = IO_TimedOut | IO_WouldBlock | IO_Other

definition read_into_buf :: "(bytes \<Rightarrow> bytes \<Rightarrow> string + nat \<times> bytes) \<Rightarrow> io_kind + bytes \<Rightarrow> io_kind + bytes" where
  "read_into_buf clone_packet fill_buf =
     (case fill_buf of
        Inl e \<Rightarrow> Inl e
      | Inr received \<Rightarrow>
          (case clone_packet received received of
             Inl _ \<Rightarrow> Inl IO_Other
           | Inr (_, ret_buf) \<Rightarrow> Inr ret_buf))"

text \<open>
  One turn of the thread: the outcome of \<open>read_into_buf\<close>, then the messages that \<open>try_iter\<close> finds in
  its channel. In a \<open>tcp_world\<close>, \<open>tw_write n\<close> is the outcome of the \<open>n\<close>-th \<open>stream.write\<close>: an error, or
  the number of bytes that the call has taken, which may be fewer than were offered;
  \<open>tw_read_ok n\<close> tells whether the receiver of the \<open>n\<close>-th packet is still there, \<open>tw_shell_ok\<close> the
  same of the shell, and \<open>tw_ka_ok n\<close> whether a keep-alive thread exists and takes a message after the
  \<open>n\<close>-th write.
\<close>

datatype read_result = ReadBuf bytes | ReadTimeout | ReadError

fun read_result_of :: "io_kind + bytes \<Rightarrow> read_result" where
  "read_result_of (Inr buf) = ReadBuf buf"
| "read_result_of (Inl IO_Other) = ReadError"
| "read_result_of (Inl _) = ReadTimeout"

record tcp_world =
  tw_write :: "nat \<Rightarrow> nat option"
  tw_read_ok :: "nat \<Rightarrow> bool"
  tw_shell_ok :: bool
  tw_ka_ok :: "nat \<Rightarrow> bool"

record tcp_thread =
  t_written :: "bytes list"
  t_read_tx :: "PacketRx list"
  t_shell_cmds :: "string list"
  t_resets :: nat

fun tcp_writes :: "tcp_world \<Rightarrow> PacketTx list \<Rightarrow> tcp_thread \<Rightarrow> bool \<times> tcp_thread" where
  "tcp_writes V [] t = (True, t)"
| "tcp_writes V (Tx_Mqtt pkt keep_alive # msgs) t =
     (case tw_write V (length (t_written t)) of
        None \<Rightarrow> (False, t)
      | Some n \<Rightarrow>
          tcp_writes V msgs (t\<lparr>t_written := t_written t @ [take n pkt],
            t_resets := t_resets t + (if keep_alive \<and> tw_ka_ok V (length (t_written t)) then 1 else 0)\<rparr>))"
| "tcp_writes V (Tx_Close # msgs) t = (False, t)"

fun tcp_turn :: "tcp_world \<Rightarrow> read_result \<times> PacketTx list \<Rightarrow> tcp_thread \<Rightarrow> bool \<times> tcp_thread" where
  "tcp_turn V (ReadBuf buf, msgs) t =
     (if length buf = 0 then
        (False, if tw_shell_ok V then t\<lparr>t_shell_cmds := t_shell_cmds t @ [''disconnect -c'']\<rparr> else t)
      else if tw_read_ok V (length (t_read_tx t)) then
        tcp_writes V msgs (t\<lparr>t_read_tx := t_read_tx t @ [Rx_Mqtt buf]\<rparr>)
      else (False, t))"
| "tcp_turn V (ReadTimeout, msgs) t = tcp_writes V msgs t"
| "tcp_turn V (ReadError, msgs) t = (False, t)"

fun tcp_run :: "tcp_world \<Rightarrow> (read_result \<times> PacketTx list) list \<Rightarrow> tcp_thread \<Rightarrow> tcp_thread" where
  "tcp_run V [] t = t"
| "tcp_run V (i # is) t = (case tcp_turn V i t of (again, t') \<Rightarrow> if again then tcp_run V is t' else t')"

definition tcp_thread_new :: tcp_thread where
  "tcp_thread_new = \<lparr>t_written = [], t_read_tx = [], t_shell_cmds = [], t_resets = 0\<rparr>"

end
