(* ===== verification/Cli_Callbacks.thy ===== *)
theory Cli_Callbacks
  imports Cli_Mqtt
begin

section \<open>The callbacks of the commands (\<open>mqtt-cli/src/commands\<close>)\<close>

text \<open>
  What each command does when it is run, but for \<open>help\<close> and \<open>subscribe\<close>, which have their own
  theories. A callback is named by a \<open>builtin\<close>. What these callbacks print is not modelled.
\<close>

datatype builtin =
  B_help | B_exit | B_connect | B_connack | B_disconnect | B_ping | B_publish | B_subscribe
| B_unsubscribe | B_debug

datatype return_code = RC_Ok | RC_Abort

type_synonym callback = "builtin cmd \<Rightarrow> return_code cop"

definition get_flag :: "cli_world \<Rightarrow> 'cb cmd \<Rightarrow> char \<Rightarrow> cmd_flag option" where
  "get_flag W command short = cmd_query (cw_iter W) (Short short) (c_flags command)"

text \<open>\<open>if let Some(flag) = .. { flag.arg().get_as::<T>()?.unwrap() } else { default }\<close>.\<close>

definition flag_value :: "cli_world \<Rightarrow> 'cb cmd \<Rightarrow> char \<Rightarrow> (string \<Rightarrow> cli_error + 'a) \<Rightarrow> 'a \<Rightarrow> cli_error + 'a" where
  "flag_value W command short from_str other =
     (case get_flag W command short of
        None \<Rightarrow> Inr other
      | Some flag \<Rightarrow>
          (case arg_get_as from_str (cf_arg flag) of
             Inl e \<Rightarrow> Inl e
           | Inr None \<Rightarrow> Inl Panic
           | Inr (Some v) \<Rightarrow> Inr v))"

subsection \<open>\<open>util.rs\<close>, \<open>toggle_debug.rs\<close>, \<open>exit\<close>\<close>

definition generate_prompt :: "MqttContext \<Rightarrow> string" where
  "generate_prompt context =
     x_client_id context @ ''@'' @ x_hostname context @ '':'' @ show_nat (unat (x_port context))
       @ (if x_debug context then '' [DEBUG]'' else [])"

definition set_prompt :: "state_value \<Rightarrow> unit cop" where
  "set_prompt v = modify (\<lambda>x. x\<lparr>x_state := (x_state x)(''prompt'' \<mapsto> v)\<rparr>)"

definition toggle_debug :: callback where
  "toggle_debug command =
     andthen (modify (\<lambda>x. x\<lparr>x_debug := \<not> x_debug x\<rparr>))
       (bnd (\<lambda>x. (Inr x, x)) (\<lambda>context.
          andthen (set_prompt (SV_RichString (generate_prompt context))) (ok RC_Ok)))"

definition exit :: callback where
  "exit command = ok RC_Abort"

subsection \<open>\<open>connack.rs\<close>\<close>

definition string_to_connect_return_code :: "string \<Rightarrow> ConnectReturnCode" where
  "string_to_connect_return_code code =
     (if code = ''RefusedProtocolVersion'' then RefusedProtocolVersion
      else if code = ''RefusedIdentifierRejected'' then RefusedIdentifierRejected
      else if code = ''ServerUnavailable'' then ServerUnavailable
      else if code = ''BadUsernamePassword'' then BadUsernamePassword
      else if code = ''NotAuthorized'' then NotAuthorized
      else Accepted)"

definition connack :: "cli_world \<Rightarrow> callback" where
  "connack W command =
     (let session_present = get_flag W command (CHR ''s'') \<noteq> None;
          code = (case get_flag W command (CHR ''c'') of
                    Some f \<Rightarrow> string_to_connect_return_code (case arg_raw (cf_arg f) of None \<Rightarrow> [] | Some s \<Rightarrow> s)
                  | None \<Rightarrow> Accepted);
          pkt = M_Connack \<lparr>ca_session_present = session_present, ca_code = code\<rparr>
      in bnd (lift_result (encode_into (cw_mqttrs W) 10 pkt)) (\<lambda>buf.
           andthen (err_into (\<lambda>_. Message ''No tcp connection to send ping.'') (tcp_send W (Tx_Mqtt buf True)))
             (ok RC_Ok)))"

subsection \<open>\<open>ping.rs\<close>\<close>

definition ping :: "cli_world \<Rightarrow> callback" where
  "ping W command =
     (let keep_alive = (get_flag W command (CHR ''n'') = None) in
      bnd (lift_result (encode_into (cw_mqttrs W) 10 M_Pingreq)) (\<lambda>buf.
        andthen (err_into (\<lambda>_. Message ''No tcp connection to send ping.'') (tcp_send W (Tx_Mqtt buf keep_alive)))
          (bnd (err_into PingrespTimeoutError (tcp_recv_timeout W)) (\<lambda>rx_pkt.
             bnd (lift_result (decode_tcp_rx (cw_mqttrs W) rx_pkt)) (\<lambda>pkt.
               case pkt of
                 M_Pingresp \<Rightarrow> ok RC_Ok
               | _ \<Rightarrow> fail (UnexpectedPacket Await_Pingresp pkt))))))"

subsection \<open>\<open>disconnect.rs\<close>\<close>

definition ka_send :: "cli_world \<Rightarrow> ka_msg \<Rightarrow> unit cop" where
  "ka_send W msg = (\<lambda>x. case x_keep_alive_tx x of
     Some (d, sent) \<Rightarrow>
       if cw_ka_ok W (length sent) then (Inr (), x\<lparr>x_keep_alive_tx := Some (d, sent @ [msg])\<rparr>)
       else (Inl ChannelSendError, x)
   | None \<Rightarrow> ok () x)"

text \<open>\<open>if let Err(err) = .. { if !cleanup { return Err(..) } }\<close>.\<close>

definition tolerate :: "bool \<Rightarrow> unit cop \<Rightarrow> unit cop" where
  "tolerate quiet m = (\<lambda>x. case m x of (Inl e, x') \<Rightarrow> (if quiet then Inr () else Inl e, x') | (Inr u, x') \<Rightarrow> (Inr u, x'))"

definition disconnect :: "cli_world \<Rightarrow> callback" where
  "disconnect W command = (\<lambda>x0.
     let cleanup = (get_flag W command (CHR ''c'') \<noteq> None) in
     if \<not> cleanup \<and> x_tcp_write_tx x0 = None then (Inr RC_Ok, x0)
     else
       andthen
         (if \<not> cleanup then
            bnd (lift_result (encode_into (cw_mqttrs W) 2 M_Disconnect)) (\<lambda>buf. tcp_send W (Tx_Mqtt buf False))
          else ok ())
       (andthen (tolerate cleanup (ka_send W Kill))
       (andthen (modify (\<lambda>x. x\<lparr>x_keep_alive_tx := None\<rparr>))
       (andthen (tolerate cleanup (\<lambda>x. if x_tcp_write_tx x = None then ok () x else tcp_send W Tx_Close x))
       (andthen (modify (\<lambda>x. x\<lparr>x_tcp_write_tx := None, x_tcp_read_rx := False\<rparr>))
       (bnd (\<lambda>x. (Inr x, x)) (\<lambda>context.
          andthen (set_prompt (SV_String (x_prompt_string context))) (ok RC_Ok))))))) x0)"

subsection \<open>\<open>unsubscribe.rs\<close>\<close>

definition unsubscribe :: "cli_world \<Rightarrow> callback" where
  "unsubscribe W command =
     (if length (c_operands command) = 0
      then fail (Message ''Must provide at least one topic path to unsubscribe from.'')
      else
        (let topics = c_operands command;
             topics_size = fold (\<lambda>op n. n + str_len op) topics 0;
             pkt = M_Unsubscribe \<lparr>unsub_pid = pid_new (cw_mqttrs W), unsub_topics = topics\<rparr>;
             buf_sz = size_of (cw_mqttrs W) T_Unsubscribe + topics_size
         in bnd (lift_result (encode_into (cw_mqttrs W) buf_sz pkt)) (\<lambda>buf.
              andthen (err_into (\<lambda>_. Message ''Cannot unsubscribe without connection to broker.'')
                  (tcp_send W (Tx_Mqtt buf True)))
                (bnd (err_into UnsubackTimeoutError (tcp_recv_timeout W)) (\<lambda>rx_pkt.
                   bnd (lift_result (decode_tcp_rx (cw_mqttrs W) rx_pkt)) (\<lambda>pkt.
                     case pkt of
                       M_Unsuback _ \<Rightarrow> ok RC_Ok
                     | _ \<Rightarrow> fail (UnexpectedPacket Await_Unsuback pkt)))))))"

subsection \<open>\<open>connect.rs\<close>\<close>

definition will_qos_of :: "nat \<Rightarrow> QoS option" where
  "will_qos_of n =
     (if n = 0 then Some AtMostOnce else if n = 1 then Some AtLeastOnce else if n = 2 then Some ExactlyOnce else None)"

text \<open>The packet that the flags ask for, and the client identifier they set.\<close>

definition connect_last_will ::
    "string option \<Rightarrow> string \<Rightarrow> nat \<Rightarrow> bool \<Rightarrow> cli_error + mqttrs_LastWill option" where
  "connect_last_will will will_topic will_qos will_retain =
     (case will of
        None \<Rightarrow> Inr None
      | Some will_message \<Rightarrow>
          (case will_qos_of will_qos of
             None \<Rightarrow> Inl IoError
           | Some q \<Rightarrow>
               Inr (Some \<lparr>mlw_topic = will_topic, mlw_message = utf8 will_message, mlw_qos = q,
                 mlw_retain = will_retain\<rparr>)))"

definition has_cmd_tx :: "unit cop" where
  "has_cmd_tx = (\<lambda>x. if x_state x ''cmd_queue_tx'' = Some SV_Sender then (Inr (), x) else (Inl IoError, x))"

definition spawn_keep_alive :: "cli_world \<Rightarrow> u16 \<Rightarrow> unit cop" where
  "spawn_keep_alive W keep_alive =
     (if keep_alive > 0 then
        andthen has_cmd_tx
          (if cw_ka_ok W 0 then modify (\<lambda>x. x\<lparr>x_keep_alive_tx := Some (keep_alive, [Suspend])\<rparr>)
           else fail ChannelSendError)
      else ok ())"

definition connect_packet :: "u16 \<Rightarrow> string \<Rightarrow> mqttrs_LastWill option \<Rightarrow> mqttrs_Packet" where
  "connect_packet keep_alive cid last_will =
     M_Connect \<lparr>mcon_protocol = MQTT311, mcon_keep_alive = keep_alive, mcon_client_id = cid,
       mcon_clean_session = True, mcon_last_will = last_will, mcon_username = Some cid,
       mcon_password = None\<rparr>"

text \<open>From the encoded packet to the prompt.\<close>

definition connect_handshake_with :: "cli_world \<Rightarrow> string \<Rightarrow> u16 \<Rightarrow> bytes \<Rightarrow> return_code cop" where
  "connect_handshake_with W hostname port buf =
     andthen has_cmd_tx
     (andthen (\<lambda>x. if cw_connect W hostname port
         then (Inr (), x\<lparr>x_tcp_write_tx := Some [], x_tcp_read_rx := True\<rparr>) else (Inl IoError, x))
     (andthen (tcp_send W (Tx_Mqtt buf True))
     (bnd (err_into ConnackTimeoutError (tcp_recv_timeout W)) (\<lambda>rx_pkt.
      bnd (lift_result (decode_tcp_rx (cw_mqttrs W) rx_pkt)) (\<lambda>pkt.
        case pkt of
          M_Connack _ \<Rightarrow>
            andthen (ka_send W Resume)
              (bnd (\<lambda>x. (Inr x, x)) (\<lambda>context.
                 andthen (set_prompt (SV_RichString (generate_prompt context))) (ok RC_Ok)))
        | _ \<Rightarrow> fail (UnexpectedPacket Await_Connack pkt))))))"

definition connect :: "cli_world \<Rightarrow> callback" where
  "connect W command =
     bnd (\<lambda>x. (Inr x, x)) (\<lambda>context.
     bnd (lift_result (flag_value W command (CHR ''k'') (parse_uint 16) 0)) (\<lambda>keep_alive.
     bnd (lift_result (flag_value W command (CHR ''h'') Inr (x_hostname context))) (\<lambda>hostname.
     bnd (lift_result (flag_value W command (CHR ''p'') (parse_uint 16) (unat (x_port context)))) (\<lambda>port.
     bnd (lift_result (flag_value W command (CHR ''q'') (parse_uint 8) 0)) (\<lambda>will_qos.
     bnd (lift_result (flag_value W command (CHR ''t'') Inr [])) (\<lambda>will_topic.
     bnd (lift_result (case get_flag W command (CHR ''w'') of
            Some flag \<Rightarrow> arg_get_as Inr (cf_arg flag) | None \<Rightarrow> Inr None)) (\<lambda>will.
     bnd (case get_flag W command (CHR ''u'') of
            Some f \<Rightarrow>
              (case arg_get_as Inr (cf_arg f) of
                 Inr (Some cid) \<Rightarrow> andthen (modify (\<lambda>x. x\<lparr>x_client_id := cid\<rparr>)) (ok cid)
               | Inl Panic \<Rightarrow> fail Panic
               | _ \<Rightarrow> ok (x_client_id context))
          | None \<Rightarrow> ok (x_client_id context)) (\<lambda>cid.
     bnd (lift_result (connect_last_will will will_topic will_qos (get_flag W command (CHR ''r'') \<noteq> None))) (\<lambda>last_will.
     bnd (lift_result (encode_into (cw_mqttrs W) (size_of (cw_mqttrs W) T_mqttrs_Connect)
            (connect_packet (of_nat keep_alive) cid last_will))) (\<lambda>buf.
     andthen (spawn_keep_alive W (of_nat keep_alive))
       (connect_handshake_with W hostname (of_nat port) buf)))))))))))"

subsection \<open>\<open>publish.rs\<close>\<close>

definition MAX_RETRIES :: nat where
  "MAX_RETRIES = 5"

definition send_size :: "mqttrs_api \<Rightarrow> mqttrs_Packet \<Rightarrow> nat" where
  "send_size X pkt =
     size_of X T_mqttrs_Packet
       + (case pkt of
            M_Publish publish \<Rightarrow> size_of X T_mqttrs_Publish + 1 * length (mpub_payload publish)
          | M_Pubrel _ \<Rightarrow> size_of X T_Pid
          | M_Pubrec _ \<Rightarrow> size_of X T_Pid
          | _ \<Rightarrow> 0)"

definition send_packet :: "cli_world \<Rightarrow> mqttrs_Packet \<Rightarrow> unit cop" where
  "send_packet W pkt =
     bnd (lift_result (encode_into (cw_mqttrs W) (send_size (cw_mqttrs W) pkt) pkt)) (\<lambda>buf.
       err_into (\<lambda>_. Message ''Cannot send publish without connection.'') (tcp_send W (Tx_Mqtt buf True)))"

text \<open>\<open>if let Packet::Publish(ref mut publish) = pkt { publish.dup = true; }\<close>.\<close>

fun mark_dup :: "mqttrs_Packet \<Rightarrow> mqttrs_Packet" where
  "mark_dup (M_Publish publish) = M_Publish (publish\<lparr>mpub_dup := True\<rparr>)"
| "mark_dup pkt = pkt"

text \<open>\<open>for attempt in 0..max_retries\<close>: the attempt and the number of turns left. The packet, which the
  caller lends as \<open>&mut\<close>, is returned with the response.\<close>

fun wait_on_response_with_retry ::
    "cli_world \<Rightarrow> nat \<Rightarrow> nat \<Rightarrow> mqttrs_Packet \<Rightarrow> (mqttrs_Packet \<times> (PacketRx \<times> nat) option) cop" where
  "wait_on_response_with_retry W attempt 0 pkt x = ok (pkt, None) x"
| "wait_on_response_with_retry W attempt (Suc n) pkt x =
     (case tcp_recv_timeout W x of
        (Inl RecvTimeout, x') \<Rightarrow>
          andthen (send_packet W (mark_dup pkt))
            (wait_on_response_with_retry W (Suc attempt) n (mark_dup pkt)) x'
      | (Inl err, x') \<Rightarrow> (Inl (RecvTimeoutError err), x')
      | (Inr rx, x') \<Rightarrow> (Inr (pkt, Some (rx, attempt)), x'))"

datatype QoSState = PublishSent pid nat mqttrs_Packet | PubrelSent pid nat mqttrs_Packet

text \<open>One turn of the loop: \<open>Inl\<close> is what it returns, \<open>Inr\<close> the state it continues with.\<close>

definition qos_turn ::
    "cli_world \<Rightarrow> nat \<Rightarrow> QoSState \<Rightarrow> MqttContext \<Rightarrow> ((cli_error + unit) + QoSState) \<times> MqttContext" where
  "qos_turn W max_retries state x =
     (case state of
        PublishSent pid retries pkt \<Rightarrow>
          (case wait_on_response_with_retry W 0 (max_retries - retries) pkt x of
             (Inl e, x1) \<Rightarrow> (Inl (Inl e), x1)
           | (Inr (pkt', None), x1) \<Rightarrow> (Inl (Inl (QoSProtocolError pid pkt' ''Timeout waiting on pubrec.'')), x1)
           | (Inr (pkt', Some (rx_pkt, attempts)), x1) \<Rightarrow>
               (case decode_tcp_rx (cw_mqttrs W) rx_pkt of
                  Inl e \<Rightarrow> (Inl (Inl e), x1)
                | Inr rx \<Rightarrow>
                    if rx \<noteq> M_Pubrec pid then (Inr (PublishSent pid (retries + attempts) pkt'), x1)
                    else
                      (case send_packet W (M_Pubrel pid) x1 of
                         (Inl e, x2) \<Rightarrow> (Inl (Inl e), x2)
                       | (Inr _, x2) \<Rightarrow> (Inr (PubrelSent pid 0 (M_Pubrel pid)), x2))))
      | PubrelSent pid retries pkt \<Rightarrow>
          (case wait_on_response_with_retry W 0 (max_retries - retries) pkt x of
             (Inl e, x1) \<Rightarrow> (Inl (Inl e), x1)
           | (Inr (pkt', None), x1) \<Rightarrow> (Inl (Inl (QoSProtocolError pid pkt' ''Timeout waiting on pubcomp.'')), x1)
           | (Inr (pkt', Some (rx_pkt, attempts)), x1) \<Rightarrow>
               (case decode_tcp_rx (cw_mqttrs W) rx_pkt of
                  Inl e \<Rightarrow> (Inl (Inl e), x1)
                | Inr rx \<Rightarrow>
                    if rx \<noteq> M_Pubcomp pid then (Inr (PubrelSent pid (retries + attempts) pkt'), x1)
                    else (Inl (Inr ()), x1))))"

text \<open>The loop ends only when its responses end it: \<open>None\<close> means that the command does not return.\<close>

partial_function (option) handle_qos_exactly_once ::
    "cli_world \<Rightarrow> nat \<Rightarrow> QoSState \<Rightarrow> MqttContext \<Rightarrow> ((cli_error + unit) \<times> MqttContext) option" where
  "handle_qos_exactly_once W max_retries state x =
     (case qos_turn W max_retries state x of
        (Inl r, x') \<Rightarrow> Some (r, x')
      | (Inr state', x') \<Rightarrow> handle_qos_exactly_once W max_retries state' x')"

text \<open>The loop of QoS 1; its value is that of \<open>break\<close>.\<close>

partial_function (option) publish_at_least_once ::
    "cli_world \<Rightarrow> pid \<Rightarrow> nat \<Rightarrow> mqttrs_Packet \<Rightarrow> MqttContext \<Rightarrow> ((cli_error + bool) \<times> MqttContext) option" where
  "publish_at_least_once W pid num_retries pkt x =
     (case tcp_recv_timeout W x of
        (Inr rx_pkt, x1) \<Rightarrow>
          (case decode_tcp_rx (cw_mqttrs W) rx_pkt of
             Inl e \<Rightarrow> Some (Inl e, x1)
           | Inr rx \<Rightarrow>
               if rx = M_Puback pid then Some (Inr True, x1)
               else publish_at_least_once W pid num_retries pkt x1)
      | (Inl _, x1) \<Rightarrow>
          if num_retries \<ge> MAX_RETRIES then Some (Inr False, x1)
          else
            (case send_packet W (mark_dup pkt) x1 of
               (Inl e, x2) \<Rightarrow> Some (Inl e, x2)
             | (Inr _, x2) \<Rightarrow> publish_at_least_once W pid (num_retries + 1) (mark_dup pkt) x2))"

definition publish_qos :: "nat \<Rightarrow> QoS" where
  "publish_qos n = (if n = 1 then AtLeastOnce else if n = 2 then ExactlyOnce else AtMostOnce)"

definition publish_packet :: "pid \<Rightarrow> QoS \<Rightarrow> string \<Rightarrow> string \<Rightarrow> mqttrs_Packet" where
  "publish_packet pid qos topic message =
     M_Publish \<lparr>mpub_dup = False,
       mpub_qospid = (case qos of AtMostOnce \<Rightarrow> QP_AtMostOnce | AtLeastOnce \<Rightarrow> QP_AtLeastOnce pid
                      | ExactlyOnce \<Rightarrow> QP_ExactlyOnce pid),
       mpub_retain = False, mpub_topic_name = topic, mpub_payload = utf8 message\<rparr>"

definition publish :: "cli_world \<Rightarrow> builtin cmd \<Rightarrow> MqttContext \<Rightarrow> ((cli_error + return_code) \<times> MqttContext) option" where
  "publish W command x =
     (case flag_value W command (CHR ''q'') (parse_uint 8) 0 of
        Inl e \<Rightarrow> Some (Inl e, x)
      | Inr n \<Rightarrow>
          (case c_operands command of
             [] \<Rightarrow> Some (Inl (Message ''need to specify topic to publish.''), x)
           | [topic] \<Rightarrow> Some (Inl (Message ''need to specify message to publish''), x)
           | topic # message # _ \<Rightarrow>
               (let pid = pid_new (cw_mqttrs W);
                    qos = publish_qos n;
                    pkt = publish_packet pid qos topic message
                in case send_packet W pkt x of
                     (Inl e, x1) \<Rightarrow> Some (Inl e, x1)
                   | (Inr _, x1) \<Rightarrow>
                       (case qos of
                          AtMostOnce \<Rightarrow> Some (Inr RC_Ok, x1)
                        | AtLeastOnce \<Rightarrow>
                            map_option (\<lambda>(r, x2). (map_sum id (\<lambda>_. RC_Ok) r, x2))
                              (publish_at_least_once W pid 0 pkt x1)
                        | ExactlyOnce \<Rightarrow>
                            map_option (\<lambda>(r, x2). (Inr RC_Ok, x2))
                              (handle_qos_exactly_once W MAX_RETRIES (PublishSent pid 0 pkt) x1)))))"

end
