(* ===== verification/Cli_Subscribe.thy ===== *)
theory Cli_Subscribe
  imports Cli_Callbacks
begin

section \<open>The command \<open>subscribe\<close> (\<open>mqtt-cli/src/commands/subscribe.rs\<close>)\<close>

text \<open>
  The callback subscribes, shows what arrives until a signal cancels it, and unsubscribes. It
  blocks the shell meanwhile: \<open>None\<close> means that it does not return. The file has its own copies
  of \<open>send_packet\<close> and \<open>wait_on_response_with_retry\<close>, which are modelled as they are written.
\<close>

subsection \<open>The helpers of the file\<close>

definition sub_send_size :: "mqttrs_api \<Rightarrow> mqttrs_Packet \<Rightarrow> nat" where
  "sub_send_size X pkt =
     size_of X T_mqttrs_Packet
       + (case pkt of
            M_Publish pub \<Rightarrow> size_of X T_mqttrs_Publish + 1 * length (mpub_payload pub)
          | M_Pubrel _ \<Rightarrow> size_of X T_Pid
          | M_Pubrec _ \<Rightarrow> size_of X T_Pid
          | _ \<Rightarrow> 0)"

definition sub_send_packet :: "cli_world \<Rightarrow> mqttrs_Packet \<Rightarrow> unit cop" where
  "sub_send_packet W pkt =
     bnd (lift_result (encode_into (cw_mqttrs W) (sub_send_size (cw_mqttrs W) pkt) pkt)) (\<lambda>buf.
       err_into (\<lambda>_. Message ''Cannot send publish without connection.'') (tcp_send W (Tx_Mqtt buf True)))"

fun sub_wait_on_response_with_retry ::
    "cli_world \<Rightarrow> nat \<Rightarrow> nat \<Rightarrow> mqttrs_Packet \<Rightarrow> (PacketRx \<times> nat) option cop" where
  "sub_wait_on_response_with_retry W attempt 0 pkt x = ok None x"
| "sub_wait_on_response_with_retry W attempt (Suc n) pkt x =
     (case tcp_recv_timeout W x of
        (Inl RecvTimeout, x') \<Rightarrow>
          andthen (sub_send_packet W pkt) (sub_wait_on_response_with_retry W (Suc attempt) n pkt) x'
      | (Inl err, x') \<Rightarrow> (Inl (RecvTimeoutError err), x')
      | (Inr rx, x') \<Rightarrow> (Inr (Some (rx, attempt)), x'))"

subsection \<open>Receiving with QoS 2\<close>

definition SUB_MAX_RETRIES :: nat where
  "SUB_MAX_RETRIES = 5"

text \<open>The loop \<open>while MAX_RETRIES - num_retries > 0\<close>. The subtraction is of \<open>usize\<close>: it panics below zero.\<close>

partial_function (option) await_pubrel ::
    "cli_world \<Rightarrow> pid \<Rightarrow> nat \<Rightarrow> MqttContext \<Rightarrow> ((cli_error + unit) \<times> MqttContext) option" where
  "await_pubrel W pid num_retries x =
     (if num_retries > SUB_MAX_RETRIES then Some (Inl Panic, x)
      else if SUB_MAX_RETRIES - num_retries > 0 then
        (case sub_wait_on_response_with_retry W 0 (SUB_MAX_RETRIES - num_retries) (M_Pubrec pid) x of
           (Inl e, x1) \<Rightarrow> Some (Inl e, x1)
         | (Inr None, x1) \<Rightarrow> Some (Inl (MQTTError ''Timeout waiting on pubrel.''), x1)
         | (Inr (Some (rx_pkt, attempts)), x1) \<Rightarrow>
             (case decode_tcp_rx (cw_mqttrs W) rx_pkt of
                Inl e \<Rightarrow> Some (Inl e, x1)
              | Inr rx \<Rightarrow>
                  if rx = M_Pubrel pid then Some (Inr (), x1)
                  else await_pubrel W pid (num_retries + attempts) x1))
      else Some (Inr (), x))"

definition receive_exactly_once ::
    "cli_world \<Rightarrow> pid \<Rightarrow> MqttContext \<Rightarrow> ((cli_error + unit) \<times> MqttContext) option" where
  "receive_exactly_once W pid x =
     (case sub_send_packet W (M_Pubrec pid) x of
        (Inl e, x1) \<Rightarrow> Some (Inl e, x1)
      | (Inr _, x1) \<Rightarrow>
          (case await_pubrel W pid 0 x1 of
             None \<Rightarrow> None
           | Some (Inl e, x2) \<Rightarrow> Some (Inl e, x2)
           | Some (Inr _, x2) \<Rightarrow> Some (sub_send_packet W (M_Pubcomp pid) x2)))"

subsection \<open>The loop of the command\<close>

text \<open>What the loop has shown to the user, and the vector \<open>subscriptions\<close>.\<close>

record sub_state =
  ss_shown :: "(string \<times> bytes) list"
  ss_codes :: "SubscribeReturnCodes list"

text \<open>The \<open>match\<close> on the quality of service of a publish.\<close>

definition acknowledge ::
    "cli_world \<Rightarrow> QosPid \<Rightarrow> MqttContext \<Rightarrow> ((cli_error + unit) \<times> MqttContext) option" where
  "acknowledge W qospid x =
     (case qospid of
        QP_AtMostOnce \<Rightarrow> Some (Inr (), x)
      | QP_AtLeastOnce pid \<Rightarrow>
          Some (bnd (lift_result (encode_into (cw_mqttrs W)
                 (size_of (cw_mqttrs W) T_mqttrs_Packet + size_of (cw_mqttrs W) T_Pid) (M_Puback pid)))
               (\<lambda>buf. err_into (\<lambda>_. Message ''Cannot puback without being connected to broker.'')
                  (tcp_send W (Tx_Mqtt buf True))) x)
      | QP_ExactlyOnce pid \<Rightarrow> receive_exactly_once W pid x)"

text \<open>The \<open>for\<close> loop over the return codes of a \<open>Suback\<close>: both arms index \<open>topics\<close>, for the comparison of the
  quality of service or for the warning.\<close>

fun suback_codes :: "'t list \<Rightarrow> nat \<Rightarrow> SubscribeReturnCodes list \<Rightarrow> SubscribeReturnCodes list \<Rightarrow>
    cli_error + SubscribeReturnCodes list" where
  "suback_codes topics idx [] subscriptions = Inr subscriptions"
| "suback_codes topics idx (return_code # codes) subscriptions =
     (if idx < length topics then suback_codes topics (Suc idx) codes (subscriptions @ [return_code])
      else Inl Panic)"

text \<open>The \<open>for\<close> loop over the pending signals: an unexpected one ends it.\<close>

fun cancelled :: "signal list \<Rightarrow> bool" where
  "cancelled [] \<longleftrightarrow> False"
| "cancelled (sig # sigs) \<longleftrightarrow> sig = SIGINT \<or> sig = SIGTERM"

text \<open>How a turn of the loop ends: \<open>break 'subscribe\<close>, a \<open>return\<close>, or the next turn.\<close>

datatype sub_exit = Sub_Cancelled | Sub_Return "cli_error + return_code" | Sub_Again

definition sub_packet :: "cli_world \<Rightarrow> pid \<Rightarrow> string list \<Rightarrow> PacketRx \<Rightarrow> sub_state \<Rightarrow> MqttContext \<Rightarrow>
    (sub_exit \<times> sub_state \<times> MqttContext) option" where
  "sub_packet W pid topics rx_pkt st x =
     (case decode_tcp_rx (cw_mqttrs W) rx_pkt of
        Inr (M_Publish pub) \<Rightarrow>
          (let st' = st\<lparr>ss_shown := ss_shown st @ [(mpub_topic_name pub, mpub_payload pub)]\<rparr> in
           case acknowledge W (mpub_qospid pub) x of
             None \<Rightarrow> None
           | Some (Inl e, x') \<Rightarrow> Some (Sub_Return (Inl e), st', x')
           | Some (Inr _, x') \<Rightarrow> Some (Sub_Again, st', x'))
      | Inr (M_Suback suback) \<Rightarrow>
          if pid \<noteq> sa_pid suback then
            Some (Sub_Return (Inl (MQTTError ''MQTT Suback protocol violation detected.'')), st, x)
          else
            (case suback_codes topics 0 (sa_return_codes suback) (ss_codes st) of
               Inl e \<Rightarrow> Some (Sub_Return (Inl e), st, x)
             | Inr codes \<Rightarrow> Some (Sub_Again, st\<lparr>ss_codes := codes\<rparr>, x))
      | _ \<Rightarrow> Some (Sub_Again, st, x))"

definition sub_turn :: "cli_world \<Rightarrow> pid \<Rightarrow> string list \<Rightarrow> sub_state \<Rightarrow> MqttContext \<Rightarrow>
    (sub_exit \<times> sub_state \<times> MqttContext) option" where
  "sub_turn W pid topics st x =
     (if cancelled (cw_signals W (x_recv_pos x)) then Some (Sub_Cancelled, st, x)
      else
        (case tcp_recv_timeout W x of
           (Inl RecvTimeout, x') \<Rightarrow> Some (Sub_Again, st, x')
         | (Inl RecvDisconnected, x') \<Rightarrow> Some (Sub_Return (Inr RC_Ok), st, x')
         | (Inr rx_pkt, x') \<Rightarrow> sub_packet W pid topics rx_pkt st x'))"

text \<open>The result is \<open>Inl\<close> of the value that the callback returns, or \<open>Inr\<close> when the loop was cancelled.\<close>

partial_function (option) sub_loop :: "cli_world \<Rightarrow> pid \<Rightarrow> string list \<Rightarrow> sub_state \<Rightarrow> MqttContext \<Rightarrow>
    (((cli_error + return_code) + unit) \<times> sub_state \<times> MqttContext) option" where
  "sub_loop W pid topics st x =
     (case sub_turn W pid topics st x of
        None \<Rightarrow> None
      | Some (Sub_Cancelled, st', x') \<Rightarrow> Some (Inr (), st', x')
      | Some (Sub_Return r, st', x') \<Rightarrow> Some (Inl r, st', x')
      | Some (Sub_Again, st', x') \<Rightarrow> sub_loop W pid topics st' x')"

text \<open>After the loop: unsubscribe and wait for one packet.\<close>

definition sub_finish :: "cli_world \<Rightarrow> pid \<Rightarrow> string list \<Rightarrow> return_code cop" where
  "sub_finish W pid topics =
     (let topics_size = fold (\<lambda>op n. n + str_len op) topics 0;
          pkt = M_Unsubscribe \<lparr>unsub_pid = pid, unsub_topics = topics\<rparr>;
          buf_sz = size_of (cw_mqttrs W) T_Unsubscribe + topics_size
      in bnd (lift_result (encode_into (cw_mqttrs W) buf_sz pkt)) (\<lambda>buf.
           andthen (err_into (\<lambda>_. Message ''Cannot subscribe without being connected to broker.'')
               (tcp_send W (Tx_Mqtt buf True)))
             (bnd (err_into UnsubAckTimeoutError (tcp_recv_timeout W)) (\<lambda>rx_pkt.
                bnd (lift_result (decode_tcp_rx (cw_mqttrs W) rx_pkt)) (\<lambda>pkt.
                  case pkt of
                    M_Unsuback _ \<Rightarrow> ok RC_Ok
                  | _ \<Rightarrow> fail (UnexpectedPacket Await_Pingresp pkt))))))"

definition sub_request :: "cli_world \<Rightarrow> string list \<Rightarrow> unit cop" where
  "sub_request W topics =
     (let topics_size = fold (\<lambda>op n. n + str_len op) topics 0;
          pkt = M_Subscribe \<lparr>sub_pid = pid_new (cw_mqttrs W),
            sub_topics = map (\<lambda>op. \<lparr>mst_topic_path = op, mst_qos = AtMostOnce\<rparr>) topics\<rparr>;
          buf_sz = size_of (cw_mqttrs W) T_Subscribe + topics_size
      in bnd (lift_result (encode_into (cw_mqttrs W) buf_sz pkt)) (\<lambda>buf.
           err_into (\<lambda>_. Message ''Cannot subscribe without being connected to broker.'')
             (tcp_send W (Tx_Mqtt buf True))))"

text \<open>The callback, with what it has shown.\<close>

definition subscribe_run :: "cli_world \<Rightarrow> string list \<Rightarrow> MqttContext \<Rightarrow>
    ((cli_error + return_code) \<times> sub_state \<times> MqttContext) option" where
  "subscribe_run W topics x =
     (let st0 = \<lparr>ss_shown = [], ss_codes = []\<rparr> in
      if \<not> cw_signals_new W then Some (Inl IoError, st0, x)
      else if length topics = 0 then
        Some (Inl (Message ''Must provide at least one topic path to subscribe to.''), st0, x)
      else
        (case sub_request W topics x of
           (Inl e, x1) \<Rightarrow> Some (Inl e, st0, x1)
         | (Inr _, x1) \<Rightarrow>
             (case sub_loop W (pid_new (cw_mqttrs W)) topics st0 x1 of
                None \<Rightarrow> None
              | Some (Inl r, st, x2) \<Rightarrow> Some (r, st, x2)
              | Some (Inr _, st, x2) \<Rightarrow>
                  (case sub_finish W (pid_new (cw_mqttrs W)) topics x2 of (r, x3) \<Rightarrow> Some (r, st, x3)))))"

definition subscribe :: "cli_world \<Rightarrow> builtin cmd \<Rightarrow> MqttContext \<Rightarrow> ((cli_error + return_code) \<times> MqttContext) option" where
  "subscribe W command x =
     map_option (\<lambda>(r, st, x'). (r, x')) (subscribe_run W (c_operands command) x)"

end
