(* ===== verification/Cli_Commands.thy ===== *)
theory Cli_Commands
  imports Cli_Subscribe
begin

section \<open>The commands of the client (\<open>mqtt-cli/src/commands\<close>, \<open>mqtt-cli/src/main.rs\<close>)\<close>

text \<open>
  The specification of every command, the table of commands, and one turn of the shell's
  execution thread; \<open>enabled\<close> is what the commands' \<open>set_enable\<close> say.
\<close>

subsection \<open>The specifications of the commands\<close>

definition command_text :: "string \<Rightarrow> string \<Rightarrow> 'cb spec_command \<Rightarrow> 'cb spec_command" where
  "command_text description usage self = set_usage usage (set_description description self)"

lemmas builder_defs = add_flag_def command_text_def set_description_def set_usage_def command_build_def

definition spec_exit :: "builtin spec_command" where
  "spec_exit = command_text ''Quit the command line interface'' ''{$name}'' (command_build ''exit'' B_exit)"

definition spec_help :: "builtin spec_command" where
  "spec_help = command_text ''Print this help message or print help for a specific command''
     ''{$name} [command_name]'' (command_build ''help'' B_help)"

definition spec_connect :: "builtin spec_command" where
  "spec_connect =
     add_flag ''will'' (CHR ''w'') SA_Required
       ''Specify will message contents. Topic flag must be set if this is set.''
     (add_flag ''username'' (CHR ''u'') SA_Required
       ''Enter a username for the broker to authenticate. (Also known as 'client id'.)''
     (add_flag ''topic'' (CHR ''t'') SA_Required
       ''Specify will topic. Message flag must be set if this is set.''
     (add_flag ''retain'' (CHR ''r'') SA_None
       ''Specify to the broker to retain published messages from this client.''
     (add_flag ''qos'' (CHR ''q'') SA_Required
       ''Set the QoS level of the Will Message. Will flag must be set if this is set.''
     (add_flag ''port'' (CHR ''p'') SA_Required
       ''Port num to use. Defaults to 1883 if not passed.''
     (add_flag ''password'' (CHR ''s'') SA_Required
       ''Password for broker to authenticate. Username required if this flag is set.''
     (add_flag ''keep-alive'' (CHR ''k'') SA_Required
       ''Specify keep alive interval (max seconds to ping broker if inactive). Default 0.''
     (add_flag ''hostname'' (CHR ''h'') SA_Required
       ''Hostname string or ip address of broker with optional port. E.g. -h 127.0.0.1:1883''
     (add_flag ''clean-session'' (CHR ''c'') SA_None
       ''Specify to the broker to use a clean session.''
     (command_text ''Open an MQTT connection to a broker'' ''{$name} {$flags}''
     (command_build ''connect'' B_connect)))))))))))"

definition spec_connack :: "builtin spec_command" where
  "spec_connack =
     add_flag ''code'' (CHR ''c'') SA_Required
       ''Specify the Connect Reason Code. Defaults to Accepted if not present.''
     (add_flag ''session-present'' (CHR ''s'') SA_None
       ''If this flag is present, the session-present bit will be set.''
     (command_text ''[Debug] Send a connack request to the broker. (This is illegal.)'' ''{$name} {$flags}''
     (command_build ''connack'' B_connack)))"

definition spec_disconnect :: "builtin spec_command" where
  "spec_disconnect =
     add_flag ''cleanup'' (CHR ''c'') SA_None
       ''Run all disconnect actions except closing tcp connection. (For internal usage.)''
     (command_text ''Disconnect from the broker'' ''{$name} {$flags}'' (command_build ''disconnect'' B_disconnect))"

definition spec_ping :: "builtin spec_command" where
  "spec_ping =
     add_flag ''quiet'' (CHR ''q'') SA_None
       ''Suppress stdout messages.''
     (add_flag ''no-keep-alive'' (CHR ''n'') SA_None
       ''If this flag is present, this command will not reset the keep_alive timer.''
     (command_text ''Send a ping request to the broker'' ''{$name} {$flags}'' (command_build ''ping'' B_ping)))"

definition spec_publish :: "builtin spec_command" where
  "spec_publish =
     add_flag ''retain'' (CHR ''r'') SA_None
       ''Tell the server it must retain this message.''
     (add_flag ''qos'' (CHR ''q'') SA_Required
       ''Specify the QoS level to be associated with this message.''
     (add_flag ''dup'' (CHR ''d'') SA_None
       ''Set dup field. Retransmissions of packets must have this set. (For debug purposes only.)''
     (command_text ''Publish a message to a specific topic path'' ''{$name} {$flags} topic_path message''
     (command_build ''publish'' B_publish))))"

definition spec_subscribe :: "builtin spec_command" where
  "spec_subscribe = command_text
     ''Subscribe to one or more topics from broker; Blocks the console until Ctrl-c is pressed''
     ''{$name} topic1 [topic2 ...]'' (command_build ''subscribe'' B_subscribe)"

definition spec_unsubscribe :: "builtin spec_command" where
  "spec_unsubscribe = command_text ''Unsubscribe from one or more topics'' ''{$name} topic1 [topic2 ...]''
     (command_build ''unsubscribe'' B_unsubscribe)"

definition spec_toggle_debug :: "builtin spec_command" where
  "spec_toggle_debug = command_text ''Enter/exit debug mode. Gives access to debug commands.'' ''{$name}''
     (command_build ''debug'' B_debug)"

text \<open>The command set of \<open>main.rs\<close>.\<close>

definition builtin_specs :: "builtin spec_command list" where
  "builtin_specs = [spec_connect, spec_connack, spec_disconnect, spec_exit, spec_help, spec_ping,
     spec_publish, spec_subscribe, spec_unsubscribe, spec_toggle_debug]"

definition command_set :: "string \<rightharpoonup> builtin spec_command" where
  "command_set = map_of (map (\<lambda>c. (sc_name c, c)) builtin_specs)"

text \<open>The enable callbacks.\<close>

fun enabled :: "MqttContext \<Rightarrow> builtin \<Rightarrow> bool" where
  "enabled x B_connect \<longleftrightarrow> x_tcp_write_tx x = None"
| "enabled x B_connack \<longleftrightarrow> x_debug x"
| "enabled x B_disconnect \<longleftrightarrow> x_tcp_write_tx x \<noteq> None"
| "enabled x B_ping \<longleftrightarrow> x_tcp_write_tx x \<noteq> None"
| "enabled x B_publish \<longleftrightarrow> x_tcp_write_tx x \<noteq> None"
| "enabled x B_subscribe \<longleftrightarrow> x_tcp_write_tx x \<noteq> None"
| "enabled x B_unsubscribe \<longleftrightarrow> x_tcp_write_tx x \<noteq> None"
| "enabled x _ \<longleftrightarrow> True"

text \<open>\<open>help\<close> only prints; it fails on a name that is not an enabled command.\<close>

definition help_callback :: "cli_world \<Rightarrow> (spec_flag set \<Rightarrow> spec_flag list) \<Rightarrow> builtin shell \<Rightarrow> callback" where
  "help_callback W it sh command =
     (case c_operands command of
        [] \<Rightarrow> bnd (lift_result (shell_help (cw_cmp W) (cw_names W) sh)) (\<lambda>_. ok RC_Ok)
      | command_name # _ \<Rightarrow>
          (case find_command_spec sh command_name of
             None \<Rightarrow> fail (UnknownCommandError command_name)
           | Some command_spec \<Rightarrow>
               bnd (lift_result (command_help (cw_cmp W) it command_spec)) (\<lambda>_. ok RC_Ok)))"

definition execute :: "cli_world \<Rightarrow> (spec_flag set \<Rightarrow> spec_flag list) \<Rightarrow> builtin shell \<Rightarrow> builtin cmd \<Rightarrow> MqttContext \<Rightarrow>
    ((cli_error + return_code) \<times> MqttContext) option" where
  "execute W it sh c x =
     (case sc_callback (c_spec c) of
        B_help \<Rightarrow> Some (help_callback W it sh c x)
      | B_exit \<Rightarrow> Some (exit c x)
      | B_connect \<Rightarrow> Some (connect W c x)
      | B_connack \<Rightarrow> Some (connack W c x)
      | B_disconnect \<Rightarrow> Some (disconnect W c x)
      | B_ping \<Rightarrow> Some (ping W c x)
      | B_publish \<Rightarrow> publish W c x
      | B_subscribe \<Rightarrow> subscribe W c x
      | B_unsubscribe \<Rightarrow> Some (unsubscribe W c x)
      | B_debug \<Rightarrow> Some (toggle_debug c x))"

definition parse_and_execute :: "cli_world \<Rightarrow> (spec_flag set \<Rightarrow> spec_flag list) \<Rightarrow> builtin shell \<Rightarrow> string \<Rightarrow> MqttContext \<Rightarrow>
    ((cli_error + return_code) \<times> MqttContext) option" where
  "parse_and_execute W it sh input_text x =
     (case parse it sh input_text of
        Inl e \<Rightarrow> Some (Inl e, x)
      | Inr None \<Rightarrow> Some (Inr RC_Ok, x)
      | Inr (Some c) \<Rightarrow> execute W it sh c x)"

text \<open>One turn of the execution thread: an error is printed and counts as \<open>Ok\<close>, \<open>Abort\<close> ends the loop, and a panic of
  the callback ends the thread.\<close>

datatype turn_end = T_Again | T_Abort | T_Panic

fun turn_of :: "cli_error + return_code \<Rightarrow> turn_end" where
  "turn_of (Inr RC_Abort) = T_Abort"
| "turn_of (Inl Panic) = T_Panic"
| "turn_of _ = T_Again"

definition shell_turn :: "cli_world \<Rightarrow> (spec_flag set \<Rightarrow> spec_flag list) \<Rightarrow> string \<Rightarrow> builtin shell \<times> MqttContext \<Rightarrow>
    (turn_end \<times> builtin shell \<times> MqttContext) option" where
  "shell_turn W it input_text = (\<lambda>(sh, x).
     let sh' = update_enable_set (\<lambda>c. enabled x (sc_callback c)) sh
     in map_option (\<lambda>(r, x'). (turn_of r, sh', x')) (parse_and_execute W it sh' input_text x))"

lemma builtin_distinguishable:
  "sp \<in> set builtin_specs \<Longrightarrow> finite (sc_flags sp) \<and> distinguishable (sc_flags sp)"
  by (auto simp: builtin_specs_def spec_connect_def spec_connack_def spec_disconnect_def spec_exit_def
      spec_help_def spec_ping_def spec_publish_def spec_subscribe_def spec_unsubscribe_def spec_toggle_debug_def builder_defs flagset_insert_def spec_flag_eq_def distinguishable_def
      spec_flag_new_def)

end
