(* ===== verification/Cli_Properties.thy ===== *)
theory Cli_Properties
  imports Cli_Commands
begin

section \<open>What the client guarantees\<close>

text \<open>
  Properties of the commands of \<open>mqtt-cli/src/commands\<close>, of the shell's turn on one input and of the
  keep-alive thread.
\<close>

subsection \<open>Packets on the channel to the TCP thread\<close>

definition sent_as :: "cli_world \<Rightarrow> mqttrs_Packet \<Rightarrow> PacketTx" where
  "sent_as W pkt =
     Tx_Mqtt (case encode_into (cw_mqttrs W) (send_size (cw_mqttrs W) pkt) pkt of Inr buf \<Rightarrow> buf | Inl _ \<Rightarrow> []) True"

lemma mark_dup_idem [simp]: "mark_dup (mark_dup pkt) = mark_dup pkt"
  by (cases pkt) simp_all

lemma send_packet_cases:
  assumes "send_packet W pkt x = (r, x')" "x_tcp_write_tx x = Some sent"
  shows "(\<exists>u. r = Inr u) \<and> x' = x\<lparr>x_tcp_write_tx := Some (sent @ [sent_as W pkt])\<rparr> \<or> (\<exists>e. r = Inl e) \<and> x' = x"
  using assms
  by (auto simp: send_packet_def lift_result_def err_into_def tcp_send_def sent_as_def bnd_def
      split: sum.splits if_splits)

lemma recv_cases:
  assumes "tcp_recv_timeout W x = (r, x')"
  shows "x_tcp_write_tx x' = x_tcp_write_tx x \<and> (r = Inl RecvDisconnected \<and> x' = x \<and> \<not> x_tcp_read_rx x \<or>
    r = cw_recv W (x_recv_pos x) \<and> x' = x\<lparr>x_recv_pos := Suc (x_recv_pos x)\<rparr> \<and> x_tcp_read_rx x)"
  using assms by (auto simp: tcp_recv_timeout_def split: if_splits)

subsection \<open>Waiting with retries\<close>

text \<open>What a wait of at most \<open>n\<close> turns has sent, and how it counts its attempts.\<close>

lemma wait_sends:
  assumes "wait_on_response_with_retry W a n pkt x = (r, x')" "x_tcp_write_tx x = Some sent"
  shows "\<exists>k \<le> n. x_tcp_write_tx x' = Some (sent @ replicate k (sent_as W (mark_dup pkt))) \<and>
    (\<forall>pkt' res. r = Inr (pkt', res) \<longrightarrow> mark_dup pkt' = mark_dup pkt \<and>
       (\<forall>rx att. res = Some (rx, att) \<longrightarrow> att = a + k \<and> k < n))"
  using assms
proof (induction n arbitrary: a pkt x sent)
  case (Suc n)
  obtain r1 x1 where recv: "tcp_recv_timeout W x = (r1, x1)" by fastforce
  then have w1: "x_tcp_write_tx x1 = Some sent" using recv_cases Suc.prems(2) by metis
  show ?case
  proof (cases "r1 = Inl RecvTimeout")
    case False
    then show ?thesis
      using Suc.prems(1) recv w1
      by (intro exI [of _ 0]) (auto split: sum.splits recv_error.splits)
  next
    case True
    obtain r2 x2 where send: "send_packet W (mark_dup pkt) x1 = (r2, x2)" by fastforce
    show ?thesis
    proof (cases r2)
      case (Inl e)
      then show ?thesis
        using Suc.prems(1) recv True send send_packet_cases [OF send w1] w1 by (intro exI [of _ 0]) auto
    next
      case (Inr u)
      then have w2: "x_tcp_write_tx x2 = Some (sent @ [sent_as W (mark_dup pkt)])"
        using send_packet_cases [OF send w1] by auto
      have run: "wait_on_response_with_retry W (Suc a) n (mark_dup pkt) x2 = (r, x')"
        using Suc.prems(1) recv True send Inr by simp
      from Suc.IH [OF run w2] obtain k where k: "k \<le> n"
          "x_tcp_write_tx x' = Some ((sent @ [sent_as W (mark_dup pkt)]) @ replicate k (sent_as W (mark_dup (mark_dup pkt))))"
          "\<forall>pkt' res. r = Inr (pkt', res) \<longrightarrow> mark_dup pkt' = mark_dup (mark_dup pkt) \<and>
            (\<forall>rx att. res = Some (rx, att) \<longrightarrow> att = Suc a + k \<and> k < n)" by blast
      then show ?thesis by (intro exI [of _ "Suc k"]) auto
    qed
  qed
qed auto

lemma wait_silent:
  assumes "\<And>i. cw_recv W i = Inl RecvTimeout" "\<And>i. cw_tx_ok W i"
    and "encode_into (cw_mqttrs W) (send_size (cw_mqttrs W) (mark_dup pkt)) (mark_dup pkt) = Inr buf"
    and "x_tcp_read_rx x" "x_tcp_write_tx x = Some sent"
  shows "\<exists>pkt' x'. wait_on_response_with_retry W a n pkt x = (Inr (pkt', None), x') \<and>
    x_tcp_write_tx x' = Some (sent @ replicate n (sent_as W (mark_dup pkt)))"
  using assms(3-)
proof (induction n arbitrary: a pkt x sent)
  case (Suc n)
  let ?x1 = "x\<lparr>x_recv_pos := Suc (x_recv_pos x)\<rparr>"
  let ?x2 = "?x1\<lparr>x_tcp_write_tx := Some (sent @ [sent_as W (mark_dup pkt)])\<rparr>"
  have "tcp_recv_timeout W x = (Inl RecvTimeout, ?x1)"
    using Suc.prems(2) assms(1) by (simp add: tcp_recv_timeout_def)
  moreover have "send_packet W (mark_dup pkt) ?x1 = (Inr (), ?x2)"
    using Suc.prems(1,3) assms(2)
    by (simp add: send_packet_def lift_result_def err_into_def tcp_send_def sent_as_def bnd_def)
  moreover have "\<exists>pkt' x'. wait_on_response_with_retry W (Suc a) n (mark_dup pkt) ?x2 = (Inr (pkt', None), x') \<and>
      x_tcp_write_tx x' = Some ((sent @ [sent_as W (mark_dup pkt)]) @ replicate n (sent_as W (mark_dup (mark_dup pkt))))"
    using Suc.prems by (intro Suc.IH) simp_all
  ultimately show ?case by simp
qed simp

subsection \<open>Publishing with QoS 2\<close>

text \<open>What the rest of a transaction may send: at most the retries that are left for the packet it waits
  on, then, if the broker has answered \<open>Pubrec\<close>, one \<open>Pubrel\<close> and its retries.\<close>

fun qos2_sends :: "cli_world \<Rightarrow> nat \<Rightarrow> QoSState \<Rightarrow> PacketTx list \<Rightarrow> cli_error + unit \<Rightarrow> PacketTx list \<Rightarrow> bool" where
  "qos2_sends W lim (PublishSent p retries pkt) sent r sent' \<longleftrightarrow>
     (\<exists>k tail. sent' = sent @ replicate k (sent_as W (mark_dup pkt)) @ tail \<and> k \<le> lim - retries \<and>
        (tail = [] \<and> r \<noteq> Inr () \<or> (\<exists>j \<le> lim. tail = replicate (Suc j) (sent_as W (M_Pubrel p)))))"
| "qos2_sends W lim (PubrelSent p retries pkt) sent r sent' \<longleftrightarrow>
     (\<exists>j \<le> lim - retries. sent' = sent @ replicate j (sent_as W (mark_dup pkt)))"

lemma qos2_sends_more:
  assumes "qos2_sends W lim (PublishSent p (retries + k) pkt') (sent @ replicate k (sent_as W (mark_dup pkt))) r sent'"
    and "mark_dup pkt' = mark_dup pkt" "k < lim - retries"
  shows "qos2_sends W lim (PublishSent p retries pkt) sent r sent'"
proof -
  obtain k' tail where "sent' = (sent @ replicate k (sent_as W (mark_dup pkt))) @ replicate k' (sent_as W (mark_dup pkt)) @ tail"
      "k' \<le> lim - (retries + k)"
      "tail = [] \<and> r \<noteq> Inr () \<or> (\<exists>j \<le> lim. tail = replicate (Suc j) (sent_as W (M_Pubrel p)))"
    using assms(1,2) by auto
  then show ?thesis
    unfolding qos2_sends.simps
    using assms(3) by (intro exI [of _ "k + k'"] exI [of _ tail]) (simp add: replicate_add)
qed

lemma qos2_sends_pubrel_more:
  assumes "qos2_sends W lim (PubrelSent p (retries + k) pkt') (sent @ replicate k (sent_as W (mark_dup pkt))) r sent'"
    and "mark_dup pkt' = mark_dup pkt" "k < lim - retries"
  shows "qos2_sends W lim (PubrelSent p retries pkt) sent r sent'"
proof -
  obtain j where "sent' = (sent @ replicate k (sent_as W (mark_dup pkt))) @ replicate j (sent_as W (mark_dup pkt))"
      "j \<le> lim - (retries + k)"
    using assms(1,2) by auto
  then show ?thesis
    using assms(3) by (auto simp: replicate_add intro!: exI [of _ "k + j"])
qed

text \<open>One turn of the loop, by the state it started in.\<close>

lemma publish_sent_turn:
  assumes "qos_turn W lim (PublishSent p retries pkt) x = (res, x')" "x_tcp_write_tx x = Some sent"
  obtains (stop) k e where "k \<le> lim - retries" "res = Inl (Inl e)"
      "x_tcp_write_tx x' = Some (sent @ replicate k (sent_as W (mark_dup pkt)))"
  | (again) k pkt' where "k < lim - retries" "res = Inr (PublishSent p (retries + k) pkt')" "mark_dup pkt' = mark_dup pkt"
      "x_tcp_write_tx x' = Some (sent @ replicate k (sent_as W (mark_dup pkt)))"
  | (answered) k where "k < lim - retries" "res = Inr (PubrelSent p 0 (M_Pubrel p))"
      "x_tcp_write_tx x' = Some ((sent @ replicate k (sent_as W (mark_dup pkt))) @ [sent_as W (M_Pubrel p)])"
proof -
  obtain r1 x1 where wait: "wait_on_response_with_retry W 0 (lim - retries) pkt x = (r1, x1)" by fastforce
  obtain k where k: "k \<le> lim - retries" "x_tcp_write_tx x1 = Some (sent @ replicate k (sent_as W (mark_dup pkt)))"
      "\<forall>pkt' res. r1 = Inr (pkt', res) \<longrightarrow> mark_dup pkt' = mark_dup pkt \<and>
        (\<forall>rx att. res = Some (rx, att) \<longrightarrow> att = k \<and> k < lim - retries)"
    using wait_sends [OF wait assms(2)] by auto
  obtain r2 x2 where send: "send_packet W (M_Pubrel p) x1 = (r2, x2)" by fastforce
  note sent = send_packet_cases [OF send k(2)]
  show thesis
    using assms(1) wait k send sent stop [of k] again [of k] answered [of k]
    by (auto simp: qos_turn_def split: sum.splits option.splits prod.splits if_splits)
qed

lemma pubrel_sent_turn:
  assumes "qos_turn W lim (PubrelSent p retries pkt) x = (res, x')" "x_tcp_write_tx x = Some sent"
  obtains (stop) k r where "k \<le> lim - retries" "res = Inl r"
      "x_tcp_write_tx x' = Some (sent @ replicate k (sent_as W (mark_dup pkt)))"
  | (again) k pkt' where "k < lim - retries" "res = Inr (PubrelSent p (retries + k) pkt')" "mark_dup pkt' = mark_dup pkt"
      "x_tcp_write_tx x' = Some (sent @ replicate k (sent_as W (mark_dup pkt)))"
proof -
  obtain r1 x1 where wait: "wait_on_response_with_retry W 0 (lim - retries) pkt x = (r1, x1)" by fastforce
  obtain k where k: "k \<le> lim - retries" "x_tcp_write_tx x1 = Some (sent @ replicate k (sent_as W (mark_dup pkt)))"
      "\<forall>pkt' res. r1 = Inr (pkt', res) \<longrightarrow> mark_dup pkt' = mark_dup pkt \<and>
        (\<forall>rx att. res = Some (rx, att) \<longrightarrow> att = k \<and> k < lim - retries)"
    using wait_sends [OF wait assms(2)] by auto
  show thesis
    using assms(1) wait k stop [of k] again [of k]
    by (auto simp: qos_turn_def split: sum.splits option.splits prod.splits if_splits)
qed

definition qos2_ok :: "cli_world \<Rightarrow> nat \<Rightarrow> QoSState \<Rightarrow> MqttContext \<Rightarrow> (cli_error + unit) \<times> MqttContext \<Rightarrow> bool" where
  "qos2_ok W lim state x y \<longleftrightarrow> (\<forall>sent. x_tcp_write_tx x = Some sent \<longrightarrow>
     (\<exists>sent'. x_tcp_write_tx (snd y) = Some sent' \<and> qos2_sends W lim state sent (fst y) sent'))"

lemma qos2_ok_turn:
  assumes turn: "qos_turn W lim state x = (res, x')"
    and stop: "\<And>r. res = Inl r \<Longrightarrow> y = (r, x')"
    and again: "\<And>state'. res = Inr state' \<Longrightarrow> qos2_ok W lim state' x' y"
  shows "qos2_ok W lim state x y"
  unfolding qos2_ok_def
proof (intro allI impI)
  fix sent
  assume sent: "x_tcp_write_tx x = Some sent"
  show "\<exists>sent'. x_tcp_write_tx (snd y) = Some sent' \<and> qos2_sends W lim state sent (fst y) sent'"
  proof (cases state)
    case (PublishSent p retries pkt)
    show ?thesis
    proof (rule publish_sent_turn [OF turn [unfolded PublishSent] sent])
      fix k e
      assume "k \<le> lim - retries" "res = Inl (Inl e)"
        "x_tcp_write_tx x' = Some (sent @ replicate k (sent_as W (mark_dup pkt)))"
      then show ?thesis using stop PublishSent by auto
    next
      fix k pkt'
      assume k: "k < lim - retries" "res = Inr (PublishSent p (retries + k) pkt')" "mark_dup pkt' = mark_dup pkt"
        "x_tcp_write_tx x' = Some (sent @ replicate k (sent_as W (mark_dup pkt)))"
      from again [OF k(2)] k(4) obtain sent' where "x_tcp_write_tx (snd y) = Some sent'"
          "qos2_sends W lim (PublishSent p (retries + k) pkt') (sent @ replicate k (sent_as W (mark_dup pkt))) (fst y) sent'"
        unfolding qos2_ok_def by blast
      then show ?thesis using qos2_sends_more [OF _ k(3,1)] PublishSent by blast
    next
      fix k
      assume k: "k < lim - retries" "res = Inr (PubrelSent p 0 (M_Pubrel p))"
        "x_tcp_write_tx x' = Some ((sent @ replicate k (sent_as W (mark_dup pkt))) @ [sent_as W (M_Pubrel p)])"
      from again [OF k(2)] k(3) obtain j where "j \<le> lim" "x_tcp_write_tx (snd y) =
          Some (((sent @ replicate k (sent_as W (mark_dup pkt))) @ [sent_as W (M_Pubrel p)]) @ replicate j (sent_as W (M_Pubrel p)))"
        unfolding qos2_ok_def by fastforce
      then show ?thesis
        unfolding PublishSent qos2_sends.simps using k(1)
        by (intro exI [of _ "sent @ replicate k (sent_as W (mark_dup pkt)) @ replicate (Suc j) (sent_as W (M_Pubrel p))"]
            conjI exI [of _ k] exI [of _ "replicate (Suc j) (sent_as W (M_Pubrel p))"] disjI2 exI [of _ j]) simp_all
    qed
  next
    case (PubrelSent p retries pkt)
    show ?thesis
    proof (rule pubrel_sent_turn [OF turn [unfolded PubrelSent] sent])
      fix k r
      assume "k \<le> lim - retries" "res = Inl r"
        "x_tcp_write_tx x' = Some (sent @ replicate k (sent_as W (mark_dup pkt)))"
      then show ?thesis using stop PubrelSent by auto
    next
      fix k pkt'
      assume k: "k < lim - retries" "res = Inr (PubrelSent p (retries + k) pkt')" "mark_dup pkt' = mark_dup pkt"
        "x_tcp_write_tx x' = Some (sent @ replicate k (sent_as W (mark_dup pkt)))"
      from again [OF k(2)] k(4) obtain sent' where "x_tcp_write_tx (snd y) = Some sent'"
          "qos2_sends W lim (PubrelSent p (retries + k) pkt') (sent @ replicate k (sent_as W (mark_dup pkt))) (fst y) sent'"
        unfolding qos2_ok_def by blast
      then show ?thesis using qos2_sends_pubrel_more [OF _ k(3,1)] PubrelSent by blast
    qed
  qed
qed

lemma qos2_transaction_ok:
  assumes "handle_qos_exactly_once W lim state x = Some y"
  shows "qos2_ok W lim state x y"
proof (rule handle_qos_exactly_once.raw_induct [of qos2_ok "(((W, lim), state), x)" y, unfolded prod.case])
  fix f :: "cli_world \<Rightarrow> nat \<Rightarrow> QoSState \<Rightarrow> MqttContext \<Rightarrow> ((cli_error + unit) \<times> MqttContext) option"
    and W lim state x y
  assume IH: "\<And>W lim state x y. f W lim state x = Some y \<Longrightarrow> qos2_ok W lim state x y"
    and eq: "(case qos_turn W lim state x of
        (Inl r, x') \<Rightarrow> Some (r, x') | (Inr state', x') \<Rightarrow> f W lim state' x') = Some y"
  obtain res x' where turn: "qos_turn W lim state x = (res, x')" by fastforce
  show "qos2_ok W lim state x y"
    by (rule qos2_ok_turn [OF turn]) (use eq turn IH in auto)
qed (rule assms)

text \<open>A QoS 2 publish is retransmitted a bounded number of times: when the transaction returns, it
  has sent at most five copies of the publish, all marked as duplicates, and then either nothing
  and has failed, or, after the broker's \<open>Pubrec\<close>, a \<open>Pubrel\<close> and at most five copies of it.\<close>

theorem qos2_publish_bounded:
  assumes "handle_qos_exactly_once W MAX_RETRIES (PublishSent p 0 pkt) x = Some (r, x')"
    and "x_tcp_write_tx x = Some sent"
  shows "\<exists>k j. k \<le> 5 \<and> j \<le> 6 \<and>
    x_tcp_write_tx x' = Some (sent @ replicate k (sent_as W (mark_dup pkt)) @ replicate j (sent_as W (M_Pubrel p))) \<and>
    (r = Inr () \<longrightarrow> j \<ge> 1)"
proof -
  obtain k tail where k: "x_tcp_write_tx x' = Some (sent @ replicate k (sent_as W (mark_dup pkt)) @ tail)" "k \<le> 5"
      "tail = [] \<and> r \<noteq> Inr () \<or> (\<exists>j \<le> 5. tail = replicate (Suc j) (sent_as W (M_Pubrel p)))"
    using qos2_transaction_ok [OF assms(1)] assms(2) by (auto simp: qos2_ok_def MAX_RETRIES_def)
  show ?thesis
  proof (cases "tail = []")
    case True
    with k show ?thesis by (intro exI [of _ k] exI [of _ 0]) auto
  next
    case False
    with k(3) obtain j where "j \<le> 5" "tail = replicate (Suc j) (sent_as W (M_Pubrel p))" by blast
    with k show ?thesis by (intro exI [of _ k] exI [of _ "Suc j"]) auto
  qed
qed

text \<open>A broker that never answers, and one that answers at once; the codec is the one of the type
  of the packet, with buffers of any size.\<close>

definition toy_api :: mqttrs_api where
  "toy_api =
     \<lparr>encode_slice = (\<lambda>p buf. Inr (0, buf)),
      decode_slice = (\<lambda>b. if b = [1] then Inr (Some (M_Pubrec (Pid 1)))
        else if b = [2] then Inr (Some (M_Pubcomp (Pid 1)))
        else if b = [3] then Inr (Some M_Pingresp)
        else if b = [4] then Inr (Some (M_Connack \<lparr>ca_session_present = False, ca_code = NotAuthorized\<rparr>))
        else Inr None),
      pid_new = Pid 1, size_of = (\<lambda>_. 0)\<rparr>"

definition toy_world :: "(nat \<Rightarrow> recv_error + PacketRx) \<Rightarrow> cli_world" where
  "toy_world recv =
     \<lparr>cw_mqttrs = toy_api, cw_recv = recv, cw_tx_ok = (\<lambda>_. True), cw_ka_ok = (\<lambda>_. True),
      cw_connect = (\<lambda>_ _. True), cw_iter = (\<lambda>_. []),
      cw_signals_new = True, cw_signals = (\<lambda>_. []),
      cw_cmp = plain_order, cw_names = name_order\<rparr>"

definition toy_context :: MqttContext where
  "toy_context =
     \<lparr>x_prompt_string = ''mqtt'', x_debug = False, x_client_id = ''mqtt-cli'', x_hostname = ''127.0.0.1'',
      x_port = 1883, x_keep_alive_tx = None, x_tcp_write_tx = Some [], x_tcp_read_rx = True,
      x_recv_pos = 0, x_state = [''cmd_queue_tx'' \<mapsto> SV_Sender]\<rparr>"

lemma toy_encode [simp]: "encode_into (cw_mqttrs (toy_world recv)) n pkt = Inr (replicate n 0)"
  by (simp add: encode_into_def toy_world_def toy_api_def)

text \<open>A transaction whose two packets are answered at once.\<close>

lemma qos2_answered:
  assumes x: "x_tcp_read_rx x" "x_tcp_write_tx x = Some sent" "\<And>i. cw_tx_ok W i"
    and fits: "encode_into (cw_mqttrs W) (send_size (cw_mqttrs W) (M_Pubrel p)) (M_Pubrel p) = Inr buf"
    and ab: "cw_recv W (x_recv_pos x) = Inr a" "decode_tcp_rx (cw_mqttrs W) a = Inr (M_Pubrec p)"
      "cw_recv W (Suc (x_recv_pos x)) = Inr b" "decode_tcp_rx (cw_mqttrs W) b = Inr (M_Pubcomp p)"
  shows "handle_qos_exactly_once W MAX_RETRIES (PublishSent p 0 pkt) x = Some (Inr (),
    x\<lparr>x_recv_pos := Suc (Suc (x_recv_pos x)), x_tcp_write_tx := Some (sent @ [sent_as W (M_Pubrel p)])\<rparr>)"
proof -
  let ?x1 = "x\<lparr>x_recv_pos := Suc (x_recv_pos x)\<rparr>"
  let ?x2 = "?x1\<lparr>x_tcp_write_tx := Some (sent @ [sent_as W (M_Pubrel p)])\<rparr>"
  have recv: "tcp_recv_timeout W x = (Inr a, ?x1)"
      "tcp_recv_timeout W ?x2 = (Inr b, ?x2\<lparr>x_recv_pos := Suc (Suc (x_recv_pos x))\<rparr>)"
    using x(1) ab by (simp_all add: tcp_recv_timeout_def)
  have send: "send_packet W (M_Pubrel p) ?x1 = (Inr (), ?x2)"
    using x fits by (auto simp: send_packet_def lift_result_def err_into_def tcp_send_def sent_as_def bnd_def)
  have t1: "qos_turn W MAX_RETRIES (PublishSent p 0 pkt) x = (Inr (PubrelSent p 0 (M_Pubrel p)), ?x2)"
    using recv(1) ab(2) send by (simp add: qos_turn_def MAX_RETRIES_def numeral_eq_Suc)
  have t2: "qos_turn W MAX_RETRIES (PubrelSent p 0 (M_Pubrel p)) ?x2
      = (Inl (Inr ()), ?x2\<lparr>x_recv_pos := Suc (Suc (x_recv_pos x))\<rparr>)"
    using recv(2) ab(4) by (simp add: qos_turn_def MAX_RETRIES_def numeral_eq_Suc)
  show ?thesis
    by (subst handle_qos_exactly_once.simps, simp only: t1 prod.case sum.case)
      (subst handle_qos_exactly_once.simps, simp add: t2)
qed

text \<open>C37: a QoS 2 publish returns to the shell: when the broker stays silent, with failure after exactly
  five retransmissions; when it answers with \<open>Pubrec\<close> and \<open>Pubcomp\<close>, with success after one
  \<open>Pubrel\<close> and no retransmission.\<close>

theorem qos2_publish_returns:
  assumes "x_tcp_read_rx x" "x_tcp_write_tx x = Some sent" "\<forall>i. cw_tx_ok W i"
    and "\<forall>k \<in> {mark_dup pkt, M_Pubrel p}. \<exists>buf. encode_into (cw_mqttrs W) (send_size (cw_mqttrs W) k) k = Inr buf"
  shows "((\<forall>i. cw_recv W i = Inl RecvTimeout) \<longrightarrow>
      (\<exists>e x'. handle_qos_exactly_once W MAX_RETRIES (PublishSent p 0 pkt) x = Some (Inl e, x') \<and>
         x_tcp_write_tx x' = Some (sent @ replicate 5 (sent_as W (mark_dup pkt))))) \<and>
    ((\<exists>a b. cw_recv W (x_recv_pos x) = Inr a \<and> decode_tcp_rx (cw_mqttrs W) a = Inr (M_Pubrec p) \<and>
        cw_recv W (Suc (x_recv_pos x)) = Inr b \<and> decode_tcp_rx (cw_mqttrs W) b = Inr (M_Pubcomp p)) \<longrightarrow>
      (\<exists>x'. handle_qos_exactly_once W MAX_RETRIES (PublishSent p 0 pkt) x = Some (Inr (), x') \<and>
         x_tcp_write_tx x' = Some (sent @ [sent_as W (M_Pubrel p)])))"
proof (intro conjI impI)
  assume silent: "\<forall>i. cw_recv W i = Inl RecvTimeout"
  obtain buf where "encode_into (cw_mqttrs W) (send_size (cw_mqttrs W) (mark_dup pkt)) (mark_dup pkt) = Inr buf"
    using assms(4) by blast
  from wait_silent [OF _ _ this assms(1,2), of 0 5] silent assms(3)
  obtain pkt' x' where "wait_on_response_with_retry W 0 5 pkt x = (Inr (pkt', None), x')"
      "x_tcp_write_tx x' = Some (sent @ replicate 5 (sent_as W (mark_dup pkt)))" by blast
  then show "\<exists>e x'. handle_qos_exactly_once W MAX_RETRIES (PublishSent p 0 pkt) x = Some (Inl e, x') \<and>
      x_tcp_write_tx x' = Some (sent @ replicate 5 (sent_as W (mark_dup pkt)))"
    by (subst handle_qos_exactly_once.simps) (simp add: qos_turn_def MAX_RETRIES_def)
next
  assume "\<exists>a b. cw_recv W (x_recv_pos x) = Inr a \<and> decode_tcp_rx (cw_mqttrs W) a = Inr (M_Pubrec p) \<and>
      cw_recv W (Suc (x_recv_pos x)) = Inr b \<and> decode_tcp_rx (cw_mqttrs W) b = Inr (M_Pubcomp p)"
  then obtain a b where ab: "cw_recv W (x_recv_pos x) = Inr a" "decode_tcp_rx (cw_mqttrs W) a = Inr (M_Pubrec p)"
      "cw_recv W (Suc (x_recv_pos x)) = Inr b" "decode_tcp_rx (cw_mqttrs W) b = Inr (M_Pubcomp p)" by blast
  obtain buf where "encode_into (cw_mqttrs W) (send_size (cw_mqttrs W) (M_Pubrel p)) (M_Pubrel p) = Inr buf"
    using assms(4) by blast
  from qos2_answered [OF assms(1,2) _ this ab] assms(3)
  show "\<exists>x'. handle_qos_exactly_once W MAX_RETRIES (PublishSent p 0 pkt) x = Some (Inr (), x') \<and>
      x_tcp_write_tx x' = Some (sent @ [sent_as W (M_Pubrel p)])" by simp
qed

theorem qos2_publish_returns_witness:
  "\<exists>e x'. handle_qos_exactly_once (toy_world (\<lambda>_. Inl RecvTimeout)) MAX_RETRIES
      (PublishSent (Pid 1) 0 (publish_packet (Pid 1) ExactlyOnce ''t'' ''m'')) toy_context = Some (Inl e, x')"
proof -
  let ?W = "toy_world (\<lambda>_. Inl RecvTimeout)"
  have "x_tcp_read_rx toy_context" "x_tcp_write_tx toy_context = Some []" by (simp_all add: toy_context_def)
  from qos2_publish_returns [OF this, of ?W "publish_packet (Pid 1) ExactlyOnce ''t'' ''m''" "Pid 1"]
  show ?thesis by (auto simp: toy_world_def encode_into_def toy_api_def)
qed

theorem qos2_publish_bounded_witness:
  "\<exists>r x' k j. handle_qos_exactly_once (toy_world (\<lambda>i. if i = 0 then Inr (Rx_Mqtt [1]) else Inr (Rx_Mqtt [2]))) MAX_RETRIES
      (PublishSent (Pid 1) 0 (publish_packet (Pid 1) ExactlyOnce ''t'' ''m'')) toy_context = Some (r, x') \<and>
     k \<le> (5 :: nat) \<and> j \<le> (6 :: nat) \<and> (r = Inr () \<longrightarrow> j \<ge> 1)"
proof -
  let ?W = "toy_world (\<lambda>i. if i = 0 then Inr (Rx_Mqtt [1]) else Inr (Rx_Mqtt [2]))"
  let ?s = "PublishSent (Pid 1) 0 (publish_packet (Pid 1) ExactlyOnce ''t'' ''m'')"
  have "\<exists>r x'. handle_qos_exactly_once ?W MAX_RETRIES ?s toy_context = Some (r, x')"
    by (subst handle_qos_exactly_once.simps, simp add: qos_turn_def MAX_RETRIES_def numeral_eq_Suc tcp_recv_timeout_def
        toy_context_def toy_world_def decode_tcp_rx_def toy_api_def send_packet_def lift_result_def encode_into_def
        err_into_def tcp_send_def bnd_def)
      (subst handle_qos_exactly_once.simps, simp add: qos_turn_def numeral_eq_Suc tcp_recv_timeout_def decode_tcp_rx_def)
  then obtain r x' where run: "handle_qos_exactly_once ?W MAX_RETRIES ?s toy_context = Some (r, x')" by blast
  moreover have "x_tcp_write_tx toy_context = Some []" by (simp add: toy_context_def)
  ultimately show ?thesis using qos2_publish_bounded [OF run] by blast
qed

subsection \<open>Publishing with QoS 1\<close>

text \<open>A broker that is never silent and never sends the awaited \<open>Puback\<close>.\<close>

definition chatty :: "cli_world \<Rightarrow> pid \<Rightarrow> bool" where
  "chatty W p \<longleftrightarrow> (\<forall>i. \<exists>a k. cw_recv W i = Inr a \<and> decode_tcp_rx (cw_mqttrs W) a = Inr k \<and> k \<noteq> M_Puback p)"

lemma chatty_recv:
  assumes "chatty W p" "x_tcp_read_rx x"
  obtains a k where "tcp_recv_timeout W x = (Inr a, x\<lparr>x_recv_pos := Suc (x_recv_pos x)\<rparr>)"
    "decode_tcp_rx (cw_mqttrs W) a = Inr k" "k \<noteq> M_Puback p"
  using assms(1) [unfolded chatty_def, rule_format, of "x_recv_pos x"] assms(2)
  by (auto simp: tcp_recv_timeout_def)

lemma qos1_chatty:
  assumes "publish_at_least_once W p n pkt x = Some y" "chatty W p" "x_tcp_read_rx x"
  shows False
proof -
  have "chatty W p \<longrightarrow> x_tcp_read_rx x \<longrightarrow> False"
  proof (rule publish_at_least_once.raw_induct [of "\<lambda>W p n pkt x y. chatty W p \<longrightarrow> x_tcp_read_rx x \<longrightarrow> False"
        "((((W, p), n), pkt), x)" y, unfolded prod.case])
    fix f :: "cli_world \<Rightarrow> pid \<Rightarrow> nat \<Rightarrow> mqttrs_Packet \<Rightarrow> MqttContext \<Rightarrow> ((cli_error + bool) \<times> MqttContext) option"
      and W p n pkt x y
    assume IH: "\<And>W p n pkt x y. f W p n pkt x = Some y \<Longrightarrow> chatty W p \<longrightarrow> x_tcp_read_rx x \<longrightarrow> False"
      and eq: "(case tcp_recv_timeout W x of
          (Inr rx_pkt, x1) \<Rightarrow>
            (case decode_tcp_rx (cw_mqttrs W) rx_pkt of
               Inl e \<Rightarrow> Some (Inl e, x1)
             | Inr rx \<Rightarrow> if rx = M_Puback p then Some (Inr True, x1) else f W p n pkt x1)
        | (Inl _, x1) \<Rightarrow>
            if n \<ge> MAX_RETRIES then Some (Inr False, x1)
            else
              (case send_packet W (mark_dup pkt) x1 of
                 (Inl e, x2) \<Rightarrow> Some (Inl e, x2)
               | (Inr _, x2) \<Rightarrow> f W p (n + 1) (mark_dup pkt) x2)) = Some y"
    show "chatty W p \<longrightarrow> x_tcp_read_rx x \<longrightarrow> False"
    proof (intro impI)
      assume c: "chatty W p" "x_tcp_read_rx x"
      then obtain a k where "tcp_recv_timeout W x = (Inr a, x\<lparr>x_recv_pos := Suc (x_recv_pos x)\<rparr>)"
          "decode_tcp_rx (cw_mqttrs W) a = Inr k" "k \<noteq> M_Puback p"
        by (rule chatty_recv)
      with eq have "f W p n pkt (x\<lparr>x_recv_pos := Suc (x_recv_pos x)\<rparr>) = Some y" by simp
      from IH [OF this] c show False by simp
    qed
  qed (rule assms(1))
  with assms show False by blast
qed

lemma qos1_silent:
  assumes "\<And>i. cw_recv W i = Inl RecvTimeout" "\<And>i. cw_tx_ok W i"
    and "encode_into (cw_mqttrs W) (send_size (cw_mqttrs W) (mark_dup pkt)) (mark_dup pkt) = Inr buf"
  shows "x_tcp_read_rx x \<Longrightarrow> x_tcp_write_tx x = Some sent \<Longrightarrow> n \<le> MAX_RETRIES \<Longrightarrow> mark_dup pkt' = mark_dup pkt \<Longrightarrow>
    \<exists>x'. publish_at_least_once W p n pkt' x = Some (Inr False, x') \<and>
      x_tcp_write_tx x' = Some (sent @ replicate (MAX_RETRIES - n) (sent_as W (mark_dup pkt)))"
proof (induction "MAX_RETRIES - n" arbitrary: n pkt' x sent)
  case 0
  have "tcp_recv_timeout W x = (Inl RecvTimeout, x\<lparr>x_recv_pos := Suc (x_recv_pos x)\<rparr>)"
    using 0 assms(1) by (simp add: tcp_recv_timeout_def)
  with 0 show ?case by (subst publish_at_least_once.simps) simp
next
  case (Suc m)
  let ?x1 = "x\<lparr>x_recv_pos := Suc (x_recv_pos x)\<rparr>"
  let ?x2 = "?x1\<lparr>x_tcp_write_tx := Some (sent @ [sent_as W (mark_dup pkt)])\<rparr>"
  have "tcp_recv_timeout W x = (Inl RecvTimeout, ?x1)"
    using Suc.prems assms(1) by (simp add: tcp_recv_timeout_def)
  moreover have "send_packet W (mark_dup pkt') ?x1 = (Inr (), ?x2)"
    using Suc.prems assms(2,3)
    by (simp add: send_packet_def lift_result_def err_into_def tcp_send_def sent_as_def bnd_def)
  moreover have "\<not> n \<ge> MAX_RETRIES" using Suc.hyps(2) by simp
  ultimately have step: "publish_at_least_once W p n pkt' x = publish_at_least_once W p (n + 1) (mark_dup pkt) ?x2"
    using Suc.prems(4) by (subst publish_at_least_once.simps) simp
  have "m = MAX_RETRIES - (n + 1)" "n + 1 \<le> MAX_RETRIES" using Suc.hyps(2) by simp_all
  with Suc.hyps(1) [of "n + 1" ?x2 "sent @ [sent_as W (mark_dup pkt)]" "mark_dup pkt"] Suc.prems
  obtain x' where "publish_at_least_once W p (n + 1) (mark_dup pkt) ?x2 = Some (Inr False, x')"
      "x_tcp_write_tx x' = Some ((sent @ [sent_as W (mark_dup pkt)]) @ replicate m (sent_as W (mark_dup pkt)))"
    by auto
  with step show ?case by (simp flip: Suc.hyps(2))
qed

text \<open>C38: a QoS 1 publish gives up after five retransmissions when the broker stays silent; but packets
  that it does not wait for restart its timeout without counting, so while the broker sends
  other packets often enough it neither retransmits nor gives up: the command never returns.\<close>

theorem qos1_publish_returns_only_in_silence:
  assumes "x_tcp_read_rx x" "x_tcp_write_tx x = Some sent" "\<forall>i. cw_tx_ok W i"
    and "encode_into (cw_mqttrs W) (send_size (cw_mqttrs W) (mark_dup pkt)) (mark_dup pkt) = Inr buf"
  shows "((\<forall>i. cw_recv W i = Inl RecvTimeout) \<longrightarrow>
      (\<exists>x'. publish_at_least_once W p 0 pkt x = Some (Inr False, x') \<and>
         x_tcp_write_tx x' = Some (sent @ replicate 5 (sent_as W (mark_dup pkt))))) \<and>
    (chatty W p \<longrightarrow> publish_at_least_once W p 0 pkt x = None)"
proof (intro conjI impI)
  assume "\<forall>i. cw_recv W i = Inl RecvTimeout"
  then show "\<exists>x'. publish_at_least_once W p 0 pkt x = Some (Inr False, x') \<and>
      x_tcp_write_tx x' = Some (sent @ replicate 5 (sent_as W (mark_dup pkt)))"
    using qos1_silent [OF _ _ assms(4), of x sent 0 pkt p] assms(1-3) by (simp add: MAX_RETRIES_def)
next
  assume "chatty W p"
  then show "publish_at_least_once W p 0 pkt x = None"
    using qos1_chatty [of W p 0 pkt x] assms(1) by (cases "publish_at_least_once W p 0 pkt x") auto
qed

theorem qos1_publish_returns_only_in_silence_witness:
  "publish_at_least_once (toy_world (\<lambda>_. Inr (Rx_Mqtt [3]))) (Pid 1) 0
     (publish_packet (Pid 1) AtLeastOnce ''t'' ''m'') toy_context = None"
proof -
  let ?W = "toy_world (\<lambda>_. Inr (Rx_Mqtt [3]))"
  have "chatty ?W (Pid 1)"
    by (simp add: chatty_def toy_world_def decode_tcp_rx_def toy_api_def)
  then show ?thesis
    using qos1_publish_returns_only_in_silence [of toy_context "[]" ?W "publish_packet (Pid 1) AtLeastOnce ''t'' ''m''" _ "Pid 1"]
    by (simp add: toy_context_def) (simp add: toy_world_def)
qed

subsection \<open>Connecting and disconnecting\<close>

lemma ka_send_resume:
  assumes "\<And>i. cw_ka_ok W i"
  shows "\<exists>x'. ka_send W m x = (Inr (), x') \<and> x_tcp_write_tx x' = x_tcp_write_tx x \<and>
    generate_prompt x' = generate_prompt x \<and> x_state x' = x_state x"
  using assms by (cases "x_keep_alive_tx x") (auto simp: ka_send_def generate_prompt_def)

text \<open>Once the TCP connection stands, \<open>connect\<close> succeeds exactly when some \<open>Connack\<close> arrives, whatever
  return code it carries: a refused connection is reported as connected. In every case, also
  after a timeout or an unexpected packet, the client counts as connected afterwards:
  \<open>connect\<close> is not available any more and \<open>ping\<close> is. The prompt shows the default broker, not
  the host and port connected to.\<close>

theorem connect_outcome:
  assumes "x_state x ''cmd_queue_tx'' = Some SV_Sender" "cw_connect W hostname port" "cw_tx_ok W 0" "\<forall>i. cw_ka_ok W i"
  shows "\<exists>r x'. connect_handshake_with W hostname port buf x = (r, x') \<and>
    x_tcp_write_tx x' = Some [Tx_Mqtt buf True] \<and> \<not> enabled x' B_connect \<and> enabled x' B_ping \<and>
    (r = Inr RC_Ok \<longleftrightarrow> (\<exists>a ca. cw_recv W (x_recv_pos x) = Inr a \<and>
       decode_tcp_rx (cw_mqttrs W) a = Inr (M_Connack ca))) \<and>
    (r = Inr RC_Ok \<longrightarrow> make_shell_prompt (x_state x') = generate_prompt x @ ''>'')"
proof -
  let ?x2 = "x\<lparr>x_tcp_read_rx := True, x_tcp_write_tx := Some [Tx_Mqtt buf True], x_recv_pos := Suc (x_recv_pos x)\<rparr>"
  define after where "after = (\<lambda>rx_pkt. bnd (lift_result (decode_tcp_rx (cw_mqttrs W) rx_pkt)) (\<lambda>pkt.
        case pkt of
          M_Connack _ \<Rightarrow>
            andthen (ka_send W Resume)
              (bnd (\<lambda>x. (Inr x, x)) (\<lambda>context.
                 andthen (set_prompt (SV_RichString (generate_prompt context))) (ok RC_Ok)))
        | _ \<Rightarrow> fail (UnexpectedPacket Await_Connack pkt)))"
  have run: "connect_handshake_with W hostname port buf x =
      (case cw_recv W (x_recv_pos x) of Inl e \<Rightarrow> (Inl (ConnackTimeoutError e), ?x2) | Inr a \<Rightarrow> after a ?x2)"
    using assms(1-3)
    by (simp add: connect_handshake_with_def has_cmd_tx_def tcp_send_def err_into_def tcp_recv_timeout_def
        andthen_def bnd_def after_def split: sum.split)
  obtain x3 where ka: "ka_send W Resume ?x2 = (Inr (), x3)" "x_tcp_write_tx x3 = Some [Tx_Mqtt buf True]"
      "generate_prompt x3 = generate_prompt ?x2" "x_state x3 = x_state ?x2"
    using ka_send_resume [of W Resume ?x2] assms(4) by auto
  have p: "generate_prompt ?x2 = generate_prompt x" by (simp add: generate_prompt_def)
  have connack: "after a ?x2 = (Inr RC_Ok, x3\<lparr>x_state := (x_state x3)(''prompt'' \<mapsto> SV_RichString (generate_prompt x3))\<rparr>)"
    if "decode_tcp_rx (cw_mqttrs W) a = Inr (M_Connack ca)" for a ca
    using that ka(1) by (simp add: after_def lift_result_def set_prompt_def bnd_apply)
  have other: "\<exists>e. after a ?x2 = (Inl e, ?x2)"
    if "\<forall>ca. decode_tcp_rx (cw_mqttrs W) a \<noteq> Inr (M_Connack ca)" for a
    using that by (auto simp: after_def lift_result_def bnd_def split: sum.splits mqttrs_Packet.splits)
  show ?thesis
  proof (cases "\<exists>a ca. cw_recv W (x_recv_pos x) = Inr a \<and> decode_tcp_rx (cw_mqttrs W) a = Inr (M_Connack ca)")
    case True
    then show ?thesis using run connack ka(2,3) p by (auto simp: make_shell_prompt_def)
  next
    case False
    have "\<exists>e. connect_handshake_with W hostname port buf x = (Inl e, ?x2)"
    proof (cases "cw_recv W (x_recv_pos x)")
      case (Inr a)
      with False run other [of a] show ?thesis by auto
    qed (simp add: run)
    then show ?thesis using False by auto
  qed
qed

theorem connect_outcome_witness:
  "\<exists>x'. connect_handshake_with (toy_world (\<lambda>_. Inr (Rx_Mqtt [4]))) ''example.org'' 8883 [] toy_context = (Inr RC_Ok, x') \<and>
     make_shell_prompt (x_state x') = generate_prompt toy_context @ ''>''"
proof -
  let ?W = "toy_world (\<lambda>_. Inr (Rx_Mqtt [4]))"
  have "x_state toy_context ''cmd_queue_tx'' = Some SV_Sender" by (simp add: toy_context_def)
  moreover have "cw_connect ?W h p" "cw_tx_ok ?W 0" "\<forall>i. cw_ka_ok ?W i" for h p by (simp_all add: toy_world_def)
  moreover have "\<exists>a ca. cw_recv ?W (x_recv_pos toy_context) = Inr a \<and> decode_tcp_rx (cw_mqttrs ?W) a = Inr (M_Connack ca)"
    by (simp add: toy_world_def decode_tcp_rx_def toy_api_def)
  ultimately show ?thesis using connect_outcome [of toy_context ?W "''example.org''" 8883 "[]"] by auto
qed

text \<open>A quiet step never fails and keeps what the step keeps.\<close>

lemma tolerate_ka:
  "\<exists>r x'. tolerate quiet (ka_send W m) x = (r, x') \<and> x_tcp_write_tx x' = x_tcp_write_tx x \<and>
    x_state x' = x_state x \<and> x_prompt_string x' = x_prompt_string x \<and> (quiet \<longrightarrow> r = Inr ())"
  by (cases "x_keep_alive_tx x") (auto simp: tolerate_def ka_send_def)

text \<open>\<open>disconnect -c\<close>, which the TCP thread runs when the broker has closed the stream, always succeeds,
  and after a \<open>disconnect\<close> of either kind that succeeds on a connection the client is as before
  connecting: no channels, the plain prompt, and \<open>connect\<close> available again.\<close>

theorem disconnect_resets:
  assumes "disconnect W command x = (r, x')" "x_tcp_write_tx x \<noteq> None \<or> get_flag W command (CHR ''c'') \<noteq> None"
  shows "(get_flag W command (CHR ''c'') \<noteq> None \<longrightarrow> r = Inr RC_Ok) \<and>
    (r = Inr RC_Ok \<longrightarrow> x_tcp_write_tx x' = None \<and> \<not> x_tcp_read_rx x' \<and> x_keep_alive_tx x' = None \<and>
       enabled x' B_connect \<and> make_shell_prompt (x_state x') = x_prompt_string x @ ''>'')"
proof -
  define quiet where "quiet \<longleftrightarrow> get_flag W command (CHR ''c'') \<noteq> None"
  define first where "first = (if \<not> quiet then
      bnd (lift_result (encode_into (cw_mqttrs W) 2 M_Disconnect)) (\<lambda>buf. tcp_send W (Tx_Mqtt buf False)) else ok ())"
  define close where "close = tolerate quiet (\<lambda>x. if x_tcp_write_tx x = None then ok () x else tcp_send W Tx_Close x)"
  define rest where "rest = andthen (modify (\<lambda>x. x\<lparr>x_keep_alive_tx := None\<rparr>))
       (andthen close
       (andthen (modify (\<lambda>x. x\<lparr>x_tcp_write_tx := None, x_tcp_read_rx := False\<rparr>))
       (bnd (\<lambda>x. (Inr x, x)) (\<lambda>context. andthen (set_prompt (SV_String (x_prompt_string context))) (ok RC_Ok)))))"
  have run: "andthen first (andthen (tolerate quiet (ka_send W Kill)) rest) x = (r, x')"
    using assms by (auto simp: disconnect_def Let_def first_def quiet_def rest_def close_def split: if_splits)
  have "x_prompt_string (snd (first x)) = x_prompt_string x \<and> (quiet \<longrightarrow> fst (first x) = Inr ())"
    by (simp add: first_def lift_result_def bnd_def tcp_send_def split: sum.split option.split)
  then obtain r1 x1 where first: "first x = (r1, x1)" "x_prompt_string x1 = x_prompt_string x" "quiet \<longrightarrow> r1 = Inr ()"
    by (cases "first x") auto
  obtain r2 x2 where kill: "tolerate quiet (ka_send W Kill) x1 = (r2, x2)" "x_prompt_string x2 = x_prompt_string x1"
      "quiet \<longrightarrow> r2 = Inr ()"
    using tolerate_ka [of quiet W Kill x1] by blast
  let ?x3 = "x2\<lparr>x_keep_alive_tx := None\<rparr>"
  have "x_prompt_string (snd (close ?x3)) = x_prompt_string x2 \<and> (quiet \<longrightarrow> fst (close ?x3) = Inr ()) \<and>
      x_keep_alive_tx (snd (close ?x3)) = None"
    by (simp add: close_def tolerate_def tcp_send_def split: option.split)
  then obtain r3 x4 where close: "close ?x3 = (r3, x4)" "x_prompt_string x4 = x_prompt_string x2" "quiet \<longrightarrow> r3 = Inr ()"
      "x_keep_alive_tx x4 = None"
    by (cases "close ?x3") auto
  have "rest x2 = (case r3 of Inl e \<Rightarrow> (Inl e, x4) | Inr _ \<Rightarrow>
      (Inr RC_Ok, x4\<lparr>x_tcp_write_tx := None, x_tcp_read_rx := False,
         x_state := (x_state x4)(''prompt'' \<mapsto> SV_String (x_prompt_string x4))\<rparr>))"
    using close(1) by (simp add: rest_def andthen_def bnd_apply set_prompt_def split: sum.split)
  then show ?thesis
    using run first kill close
    by (auto simp: andthen_def bnd_apply quiet_def make_shell_prompt_def split: sum.splits)
qed

theorem disconnect_resets_witness:
  "\<exists>x'. disconnect (toy_world (\<lambda>_. Inl RecvTimeout)) \<lparr>c_spec = spec_disconnect, c_flags = {}, c_operands = []\<rparr> toy_context
     = (Inr RC_Ok, x') \<and> enabled x' B_connect"
proof -
  let ?W = "toy_world (\<lambda>_. Inl RecvTimeout)" and ?c = "\<lparr>c_spec = spec_disconnect, c_flags = {}, c_operands = []\<rparr>"
  obtain x' where "disconnect ?W ?c toy_context = (Inr RC_Ok, x')"
    by (simp add: disconnect_def toy_context_def get_flag_def cmd_query_def toy_world_def encode_into_def toy_api_def
        lift_result_def tcp_send_def tolerate_def ka_send_def set_prompt_def bnd_def andthen_def)
  moreover have "x_tcp_write_tx toy_context \<noteq> None" by (simp add: toy_context_def)
  ultimately show ?thesis using disconnect_resets [of ?W ?c toy_context "Inr RC_Ok" x'] by blast
qed

subsection \<open>Availability of commands\<close>

lemma unavailable_turn:
  assumes "sh_commands sh = command_set" "command_set name = Some sp" "\<not> enabled x (sc_callback sp)"
    and "try_into_args input = Inr (name # tokens)"
  shows "\<exists>sh'. shell_turn W it input (sh, x) = Some (T_Again, sh', x) \<and>
    parse it sh' input = Inl (CommandNotAvailableError name)"
proof -
  let ?sh = "update_enable_set (\<lambda>c. enabled x (sc_callback c)) sh"
  have "find_command_spec ?sh name = None" "sh_commands ?sh name = Some sp"
    using assms(1-3) by (simp_all add: find_command_spec_def get_enabled_commands_def update_enable_set_def)
  then have "parse it ?sh input = Inl (CommandNotAvailableError name)"
    using assms(4) by (simp add: parse_def)
  then show ?thesis by (simp add: shell_turn_def parse_and_execute_def)
qed

text \<open>A command that is not enabled in the current context does nothing: whatever its flags and
  operands, the turn of the shell on it leaves the context unchanged, the shell goes on, and the
  parser's answer is \<open>CommandNotAvailableError\<close>. So nothing is published, pinged or
  unsubscribed without a connection, and no second connection is opened over a first.\<close>

theorem unavailable_command_does_nothing:
  assumes "sh_commands sh = command_set" "command_set name = Some sp" "\<not> enabled x (sc_callback sp)"
    and "try_into_args input = Inr (name # tokens)"
  shows "\<exists>sh'. shell_turn W it input (sh, x) = Some (T_Again, sh', x) \<and>
    parse it sh' input = Inl (CommandNotAvailableError name)"
  using assms by (rule unavailable_turn)

theorem unavailable_command_does_nothing_witness:
  "\<exists>sh'. shell_turn (toy_world (\<lambda>_. Inl RecvTimeout)) flag_order ''connect'' (shell_new command_set [], toy_context)
     = Some (T_Again, sh', toy_context)"
proof -
  have "command_set ''connect'' = Some spec_connect"
    by (simp add: command_set_def builtin_specs_def spec_connect_def builder_defs)
  moreover have "sc_callback spec_connect = B_connect"
    by (simp add: spec_connect_def builder_defs)
  moreover have "\<not> enabled toy_context B_connect" by (simp add: toy_context_def)
  moreover have "try_into_args ''connect'' = Inr [''connect'']" by (simp add: try_into_args_def is_blank_def)
  ultimately show ?thesis
    using unavailable_command_does_nothing [of "shell_new command_set []" "''connect''" spec_connect toy_context
        "''connect''" "[]" "toy_world (\<lambda>_. Inl RecvTimeout)" flag_order]
    by (auto simp: shell_new_def)
qed

subsection \<open>Keep-alive\<close>

fun suspends :: "ka_event \<Rightarrow> bool \<Rightarrow> bool" where
  "suspends (Woken Suspend) _ = True"
| "suspends (Woken Resume) _ = False"
| "suspends _ b = b"

definition last_suspended :: "ka_event list \<Rightarrow> bool" where
  "last_suspended es = fold suspends es False"

definition ended_by :: "ka_event \<Rightarrow> bool" where
  "ended_by e \<longleftrightarrow> e = Woken Kill \<or> e = SenderGone"

lemma keep_alive_append:
  "keep_alive_run (es @ [TimedOut]) b = keep_alive_run es b @
     (if (\<exists>e \<in> set es. ended_by e) \<or> fold suspends es b then [] else [''ping -n -q''])"
proof (induction es arbitrary: b)
  case (Cons e es)
  show ?case
  proof (cases "ended_by e")
    case True
    then show ?thesis by (auto simp: ended_by_def)
  next
    case False
    then show ?thesis
      using Cons.IH by (cases "(e, b)" rule: keep_alive_turn.cases) (auto simp: ended_by_def)
  qed
qed simp

text \<open>The keep-alive thread pings when it is due and only then: when its timer runs out it sends one
  \<open>ping -n -q\<close> exactly if it has not been killed, its channel still has a sender, and its last
  word was not \<open>Suspend\<close>; so a connection that is being set up is not pinged before \<open>Resume\<close>.\<close>

theorem keep_alive_pings_when_due:
  "keep_alive_run (es @ [TimedOut]) False = keep_alive_run es False @
     (if (\<exists>e \<in> set es. ended_by e) \<or> last_suspended es then [] else [''ping -n -q''])"
  unfolding last_suspended_def by (rule keep_alive_append)

subsection \<open>The TCP thread\<close>

fun payloads :: "PacketTx list \<Rightarrow> bytes list" where
  "payloads [] = []"
| "payloads (Tx_Mqtt pkt _ # msgs) = pkt # payloads msgs"
| "payloads (Tx_Close # msgs) = []"

text \<open>When every write takes all it is offered, one turn puts the queued packets on the stream in order,
  up to the first \<open>Close\<close>, after which the thread ends.\<close>

lemma tcp_writes_in_order:
  assumes "\<forall>n. \<exists>m. tw_write V n = Some m \<and> (\<forall>p k. Tx_Mqtt p k \<in> set msgs \<longrightarrow> length p \<le> m)"
  shows "\<exists>t'. tcp_writes V msgs t = (Tx_Close \<notin> set msgs, t') \<and> t_written t' = t_written t @ payloads msgs \<and>
    t_read_tx t' = t_read_tx t \<and> t_shell_cmds t' = t_shell_cmds t"
  using assms
proof (induction msgs arbitrary: t)
  case (Cons msg msgs)
  show ?case
  proof (cases msg)
    case (Tx_Mqtt pkt keep_alive)
    obtain m where m: "tw_write V (length (t_written t)) = Some m" "length pkt \<le> m"
      using Cons.prems Tx_Mqtt by (metis list.set_intros(1))
    have "\<forall>n. \<exists>m. tw_write V n = Some m \<and> (\<forall>p k. Tx_Mqtt p k \<in> set msgs \<longrightarrow> length p \<le> m)"
      using Cons.prems by (metis list.set_intros(2))
    from Cons.IH [OF this] Tx_Mqtt m show ?thesis by fastforce
  qed simp
qed simp

text \<open>A turn that reads nothing new and finds a \<open>Close\<close> in its queue ends the thread, whatever was
  queued behind it; the end of the stream is passed to the shell as \<open>disconnect -c\<close>.\<close>

lemma tcp_run_close:
  assumes "\<forall>n. \<exists>m. tw_write V n = Some m \<and> (\<forall>p k. Tx_Mqtt p k \<in> set msgs \<longrightarrow> length p \<le> m)"
    and "Tx_Close \<in> set msgs"
  shows "t_written (tcp_run V ((ReadTimeout, msgs) # is) t) = t_written t @ payloads msgs"
  using tcp_writes_in_order [OF assms(1), of t] assms(2) by auto

lemma tcp_end_of_stream:
  "t_shell_cmds (tcp_run V ((ReadBuf [], msgs) # is) t) =
     t_shell_cmds t @ (if tw_shell_ok V then [''disconnect -c''] else [])"
  by simp

end
