(* ===== verification/Cli_Threads.thy ===== *)
theory Cli_Threads
  imports Cli_Properties
begin

section \<open>The two threads of the shell (\<open>Shell::run\<close>, \<open>mqtt-cli/src/main.rs\<close>)\<close>

text \<open>
  The execution thread takes commands from a queue, runs them and answers on a second queue; the
  input thread waits for an answer, prompts, reads a command and queues it. The keep-alive and the
  TCP thread queue commands too. A state of the shell has both queues, where each thread is, and
  the histories of what was typed, queued, taken and printed. While a command runs, the
  execution thread holds the locks that the input thread needs for its prompt. The state's own
  sender keeps the command queue open, so that \<open>recv\<close> on it never fails.
\<close>

datatype exec_pc = E_Recv | E_Run string | E_End
datatype input_pc = I_Recv | I_Prompt | I_Read | I_Leave | I_End

record shell_sys =
  z_shell :: "builtin shell"
  z_ctx :: MqttContext
  z_queue :: "string list"
  z_rsp :: "return_code list"
  z_exec :: exec_pc
  z_input :: input_pc
  z_poisoned :: bool
  z_stdin :: "string list"
  z_typed :: "string list"
  z_log :: "(bool \<times> string) list"
  z_taken :: "string list"
  z_prompts :: "string list"

text \<open>\<open>z_log\<close> is all that was queued, \<open>True\<close> for what came from the input thread; \<open>z_typed\<close> is what that thread
  has read, before it is trimmed.\<close>

datatype shell_action = X_Take | X_Finish | X_Recv | X_Prompt | X_Read | X_Leave | X_Push string

text \<open>The end of a turn of the execution thread: the answer cannot be sent when the input thread is gone.\<close>

definition exec_finish :: "turn_end \<Rightarrow> shell_sys \<Rightarrow> shell_sys" where
  "exec_finish res z =
     (case res of
        T_Again \<Rightarrow>
          if z_input z = I_End then z\<lparr>z_exec := E_End\<rparr>
          else z\<lparr>z_exec := E_Recv, z_rsp := z_rsp z @ [RC_Ok]\<rparr>
      | T_Abort \<Rightarrow> z\<lparr>z_exec := E_End\<rparr>
      | T_Panic \<Rightarrow> z\<lparr>z_exec := E_End, z_poisoned := True\<rparr>)"

text \<open>Waiting for an answer, then draining the queue; the wait fails when the queue is empty and its sender gone.\<close>

definition input_recv :: "shell_sys \<Rightarrow> shell_sys option" where
  "input_recv z =
     (case z_rsp z of
        code # rest \<Rightarrow>
          Some (z\<lparr>z_rsp := [], z_input := (if RC_Abort \<in> set (code # rest) then I_End else I_Prompt)\<rparr>)
      | [] \<Rightarrow> if z_exec z = E_End then Some (z\<lparr>z_input := I_End\<rparr>) else None)"

text \<open>The prompt needs both locks; a lock that is poisoned makes \<open>unwrap\<close> panic.\<close>

definition input_prompt :: "shell_sys \<Rightarrow> shell_sys option" where
  "input_prompt z =
     (case z_exec z of
        E_Run _ \<Rightarrow> None
      | _ \<Rightarrow>
          if z_poisoned z then Some (z\<lparr>z_input := I_End\<rparr>)
          else Some (z\<lparr>z_input := I_Read, z_prompts := z_prompts z @ [make_shell_prompt (x_state (z_ctx z))]\<rparr>))"

text \<open>Reading a command and queueing it; \<open>None\<close>: the thread waits for more input. After \<open>exit\<close> it leaves its loop.\<close>

definition input_read :: "shell_sys \<Rightarrow> shell_sys option" where
  "input_read z =
     (case read_input (z_stdin z) of
        None \<Rightarrow> None
      | Some (text1, rest) \<Rightarrow>
          (let input = str_trim text1; z' = z\<lparr>z_stdin := rest, z_typed := z_typed z @ [text1]\<rparr> in
           if z_exec z = E_End then Some (z'\<lparr>z_input := I_End\<rparr>)
           else
             Some (z'\<lparr>z_queue := z_queue z @ [input], z_log := z_log z @ [(True, input)],
               z_input := (if input = ''exit'' then I_Leave else I_Recv)\<rparr>)))"

fun shell_act :: "cli_world \<Rightarrow> (spec_flag set \<Rightarrow> spec_flag list) \<Rightarrow> shell_action \<Rightarrow> shell_sys \<Rightarrow> shell_sys option" where
  "shell_act W it X_Take z =
     (case (z_exec z, z_queue z) of
        (E_Recv, cmd # queue) \<Rightarrow>
          Some (z\<lparr>z_exec := E_Run cmd, z_queue := queue, z_taken := z_taken z @ [cmd]\<rparr>)
      | _ \<Rightarrow> None)"
| "shell_act W it X_Finish z =
     (case z_exec z of
        E_Run cmd \<Rightarrow>
          (case shell_turn W it cmd (z_shell z, z_ctx z) of
             None \<Rightarrow> None
           | Some (res, sh, x) \<Rightarrow> Some (exec_finish res (z\<lparr>z_shell := sh, z_ctx := x\<rparr>)))
      | _ \<Rightarrow> None)"
| "shell_act W it X_Recv z = (if z_input z = I_Recv then input_recv z else None)"
| "shell_act W it X_Prompt z = (if z_input z = I_Prompt then input_prompt z else None)"
| "shell_act W it X_Read z = (if z_input z = I_Read then input_read z else None)"
| "shell_act W it X_Leave z = (if z_input z = I_Leave then Some (z\<lparr>z_input := I_End\<rparr>) else None)"
| "shell_act W it (X_Push cmd) z =
     (if cmd \<in> {''ping -n -q'', ''disconnect -c''} \<and> z_exec z \<noteq> E_End
      then Some (z\<lparr>z_queue := z_queue z @ [cmd], z_log := z_log z @ [(False, cmd)]\<rparr>)
      else None)"

fun shell_acts :: "cli_world \<Rightarrow> (spec_flag set \<Rightarrow> spec_flag list) \<Rightarrow> shell_action list \<Rightarrow> shell_sys \<Rightarrow> shell_sys option" where
  "shell_acts W it [] z = Some z"
| "shell_acts W it (a # as) z = (case shell_act W it a z of None \<Rightarrow> None | Some z' \<Rightarrow> shell_acts W it as z')"

subsection \<open>Starting the shell\<close>

definition shell_run :: "builtin shell \<Rightarrow> MqttContext \<Rightarrow> string list \<Rightarrow> shell_sys" where
  "shell_run sh context stdin =
     (let state = (x_state context)(''cmd_queue_tx'' \<mapsto> SV_Sender);
          queue = (case state ''on_run'' of Some (SV_String on_run) \<Rightarrow> [on_run] | _ \<Rightarrow> [])
      in \<lparr>z_shell = sh, z_ctx = context\<lparr>x_state := state\<rparr>, z_queue = queue, z_rsp = [], z_exec = E_Recv,
          z_input = I_Recv, z_poisoned = False, z_stdin = stdin, z_typed = [],
          z_log = map (Pair False) queue, z_taken = [], z_prompts = []\<rparr>)"

definition main_context :: MqttContext where
  "main_context =
     \<lparr>x_prompt_string = ''mqtt'', x_debug = False, x_client_id = ''mqtt-cli'', x_hostname = ''127.0.0.1'',
      x_port = 1883, x_keep_alive_tx = None, x_tcp_write_tx = None, x_tcp_read_rx = False, x_recv_pos = 0,
      x_state = [''on_run'' \<mapsto> SV_String ''help'', ''prompt'' \<mapsto> SV_String ''mqtt'']\<rparr>"

definition main_shell :: "builtin shell" where
  "main_shell = shell_new command_set
     (''This is an MQTT command line interface for testing MQTT implementations.'' @ [nl, nl] @ ''Commands:'')"

inductive shell_reach :: "cli_world \<Rightarrow> (spec_flag set \<Rightarrow> spec_flag list) \<Rightarrow> shell_sys \<Rightarrow> shell_sys \<Rightarrow> bool"
  for W it z0 where
  start: "shell_reach W it z0 z0"
| step: "shell_reach W it z0 z \<Longrightarrow> shell_act W it a z = Some z' \<Longrightarrow> shell_reach W it z0 z'"

end
