(* ===== verification/Shell_Properties.thy ===== *)
theory Shell_Properties
  imports Cli_Threads
begin

section \<open>What the shell guarantees\<close>

text \<open>
  Properties of the two threads over all interleavings: the order of commands, the end of the
  shell, and when the user is prompted.
\<close>

subsection \<open>The turns on the commands the shell itself relies on\<close>

lemma command_set_lookup:
  "command_set ''exit'' = Some spec_exit" "command_set ''help'' = Some spec_help" "command_set ''ping'' = Some spec_ping"
  by (simp_all add: command_set_def builtin_specs_def spec_connect_def spec_connack_def spec_disconnect_def spec_exit_def
      spec_help_def spec_ping_def builder_defs)

lemma spec_callbacks [simp]:
  "sc_callback spec_exit = B_exit" "sc_callback spec_help = B_help" "sc_callback spec_ping = B_ping"
  by (simp_all add: spec_exit_def spec_help_def spec_ping_def builder_defs)

lemma shell_turn_commands:
  assumes "shell_turn W it c (sh, x) = Some (res, sh', x')"
  shows "sh_commands sh' = sh_commands sh"
  using assms by (auto simp: shell_turn_def update_enable_set_def Let_def)

lemma finite_command_set: "finite (dom command_set)"
  unfolding command_set_def by (rule finite_dom_map_of)

lemma finite_enabled: "finite (dom (sh_commands sh)) \<Longrightarrow> finite (dom (get_enabled_commands sh))"
  by (rule finite_subset [rotated]) (auto simp: get_enabled_commands_def split: option.splits if_splits)

lemma plain_word_turn:
  assumes "sh_commands sh = command_set" "command_set c = Some sp" "enabled x (sc_callback sp)" "try_into_args c = Inr [c]"
  defines "sh' \<equiv> update_enable_set (\<lambda>c. enabled x (sc_callback c)) sh"
  shows "shell_turn W it c (sh, x) =
    map_option (\<lambda>(r, x'). (turn_of r, sh', x')) (execute W it sh' \<lparr>c_spec = sp, c_flags = {}, c_operands = []\<rparr> x)"
proof -
  have "find_command_spec sh' c = Some sp"
    using assms(1-3) by (simp add: sh'_def find_command_spec_def get_enabled_commands_def update_enable_set_def)
  then show ?thesis
    using assms(4) by (simp add: shell_turn_def Let_def sh'_def parse_and_execute_def parse_def)
qed

lemma exit_turn:
  assumes "sh_commands sh = command_set"
  shows "\<exists>sh'. shell_turn W it ''exit'' (sh, x) = Some (T_Abort, sh', x)"
  using plain_word_turn [OF assms command_set_lookup(1), of x W it]
  by (auto simp: try_into_args_def is_blank_def execute_def exit_def)

lemma help_turn:
  assumes "sh_commands sh = command_set" "iterates (cw_names W)"
  shows "\<exists>sh'. shell_turn W it ''help'' (sh, x) = Some (T_Again, sh', x) \<and> sh_commands sh' = command_set"
proof -
  let ?sh = "update_enable_set (\<lambda>c. enabled x (sc_callback c)) sh"
  have "sh_commands ?sh = command_set" using assms(1) by (simp add: update_enable_set_def)
  moreover from this have "finite (dom (get_enabled_commands ?sh))"
    using finite_enabled finite_command_set by metis
  then obtain out where "shell_help (cw_cmp W) (cw_names W) ?sh = Inr out"
    using shell_help_rows [OF _ assms(2)] by blast
  ultimately show ?thesis
    using plain_word_turn [OF assms(1) command_set_lookup(2), of x W it]
    by (auto simp: try_into_args_def is_blank_def execute_def help_callback_def lift_result_def bnd_def)
qed

lemma empty_turn: "\<exists>sh'. shell_turn W it [] (sh, x) = Some (T_Again, sh', x)"
  by (simp add: shell_turn_def Let_def parse_and_execute_def parse_def try_into_args_def)

subsection \<open>Invariants of the interleavings\<close>

lemma read_input_split:
  assumes "read_input xs = Some (input, rest)"
  shows "concat xs = input @ concat rest"
proof -
  obtain l ls where "xs = l # ls" "read_command (count_quotes l []) l ls = Some (input, rest)"
    using assms by (auto simp: read_input_def split: list.splits)
  then show ?thesis using read_command_split by fastforce
qed

definition leaving :: "shell_sys \<Rightarrow> bool" where
  "leaving z \<longleftrightarrow> z_input z = I_Leave \<or> z_input z = I_End"

definition exit_pending :: "shell_sys \<Rightarrow> bool" where
  "exit_pending z \<longleftrightarrow> z_exec z = E_Run ''exit'' \<or> ''exit'' \<in> set (z_queue z)"

text \<open>The commands that were queued are those taken and those waiting, in order; what was read and what is still to be
  read is the input, and the commands read are those queued by the input thread, but for one that
  was read after the other thread had ended.\<close>

definition order_ok :: "string list \<Rightarrow> shell_sys \<Rightarrow> bool" where
  "order_ok stdin z \<longleftrightarrow>
     map snd (z_log z) = z_taken z @ z_queue z \<and>
     concat (z_typed z) @ concat (z_stdin z) = concat stdin \<and>
     (\<exists>lost. map str_trim (z_typed z) = map snd (filter fst (z_log z)) @ lost \<and>
        (lost \<noteq> [] \<longrightarrow> z_input z = I_End \<and> z_exec z = E_End \<and> length lost = 1))"

definition control_ok :: "shell_sys \<Rightarrow> bool" where
  "control_ok z \<longleftrightarrow>
     sh_commands (z_shell z) = command_set \<and> RC_Abort \<notin> set (z_rsp z) \<and>
     (leaving z \<longrightarrow> z_exec z = E_End \<or> exit_pending z) \<and>
     (z_poisoned z \<longrightarrow> z_exec z = E_End)"

lemma exec_finish_simps [simp]:
  "z_queue (exec_finish r z) = z_queue z" "z_log (exec_finish r z) = z_log z" "z_taken (exec_finish r z) = z_taken z"
  "z_stdin (exec_finish r z) = z_stdin z" "z_typed (exec_finish r z) = z_typed z" "z_input (exec_finish r z) = z_input z"
  "z_shell (exec_finish r z) = z_shell z" "z_prompts (exec_finish r z) = z_prompts z"
  by (simp_all add: exec_finish_def split: turn_end.splits)

lemma order_ok_step:
  assumes "order_ok stdin z" "shell_act W it a z = Some z'"
  shows "order_ok stdin z'"
proof (cases a)
  case X_Read
  with assms(2) obtain t rest where t: "z_input z = I_Read" "read_input (z_stdin z) = Some (t, rest)"
    by (auto simp: input_read_def split: if_splits option.splits)
  from assms(1) t(1) have "map str_trim (z_typed z) = map snd (filter fst (z_log z))" by (auto simp: order_ok_def)
  with assms X_Read t read_input_split [OF t(2)] show ?thesis
    by (auto simp: order_ok_def input_read_def Let_def split: if_splits)
qed (use assms in \<open>auto simp: order_ok_def input_recv_def input_prompt_def split: exec_pc.splits list.splits if_splits option.splits\<close>)

lemma control_ok_step:
  assumes "control_ok z" "shell_act W it a z = Some z'"
  shows "control_ok z'"
proof (cases a)
  case X_Finish
  with assms(2) obtain c res sh x where run: "z_exec z = E_Run c"
      "shell_turn W it c (z_shell z, z_ctx z) = Some (res, sh, x)" "z' = exec_finish res (z\<lparr>z_shell := sh, z_ctx := x\<rparr>)"
    by (auto split: exec_pc.splits option.splits)
  have "c = ''exit'' \<Longrightarrow> res = T_Abort"
    using exit_turn [of "z_shell z" W it "z_ctx z"] assms(1) run(2) by (auto simp: control_ok_def)
  with assms(1) run shell_turn_commands [OF run(2)] show ?thesis
    by (auto simp: control_ok_def exec_finish_def leaving_def exit_pending_def split: turn_end.splits)
next
  case X_Take
  with assms(2) obtain c q where "z_exec z = E_Recv" "z_queue z = c # q"
      "z' = z\<lparr>z_exec := E_Run c, z_queue := q, z_taken := z_taken z @ [c]\<rparr>"
    by (auto split: exec_pc.splits list.splits)
  with assms(1) show ?thesis by (auto simp: control_ok_def leaving_def exit_pending_def)
next
  case X_Read
  with assms show ?thesis
    by (auto simp: control_ok_def leaving_def exit_pending_def input_read_def Let_def split: if_splits option.splits)
next
  case X_Recv
  then have "z_input z = I_Recv" "input_recv z = Some z'" using assms(2) by (auto split: if_splits)
  with assms(1) show ?thesis
    by (cases "z_rsp z") (auto simp: control_ok_def leaving_def exit_pending_def input_recv_def split: if_splits)
next
  case X_Prompt
  then have "z_input z = I_Prompt" "input_prompt z = Some z'" using assms(2) by (auto split: if_splits)
  with assms(1) show ?thesis
    by (cases "z_exec z") (auto simp: control_ok_def leaving_def exit_pending_def input_prompt_def split: if_splits)
qed (use assms in \<open>auto simp: control_ok_def leaving_def exit_pending_def split: if_splits\<close>)

lemma shell_run_ok:
  assumes "sh_commands sh = command_set"
  shows "order_ok stdin (shell_run sh x stdin)" "control_ok (shell_run sh x stdin)"
  using assms
  by (auto simp: order_ok_def control_ok_def shell_run_def Let_def leaving_def comp_def split: option.splits state_value.splits)

lemma shell_reach_ok:
  assumes "shell_reach W it (shell_run sh x stdin) z" "sh_commands sh = command_set"
  shows "order_ok stdin z" "control_ok z"
  using assms(1)
proof (induction rule: shell_reach.induct)
  case start
  { case 1 show ?case using shell_run_ok(1) [OF assms(2)] .
  next case 2 show ?case using shell_run_ok(2) [OF assms(2)] . }
next
  case (step z a z')
  { case 1 show ?case using order_ok_step step by blast
  next case 2 show ?case using control_ok_step step by blast }
qed

text \<open>C17: commands are run in the order in which they were queued, whoever queued them, and no input is lost or
  repeated: in every reachable state the queued commands are those taken followed by those waiting; the text read and
  the text not yet read make up the input; and the commands read, trimmed, are those the input
  thread has queued, but for a last one that is read when the execution thread has already ended.\<close>

theorem shell_commands_in_order:
  assumes "sh_commands sh = command_set" "shell_reach W it (shell_run sh x stdin) z"
  shows "map snd (z_log z) = z_taken z @ z_queue z \<and>
    concat (z_typed z) @ concat (z_stdin z) = concat stdin \<and>
    (\<exists>lost. map str_trim (z_typed z) = map snd (filter fst (z_log z)) @ lost \<and>
       (lost \<noteq> [] \<longrightarrow> z_input z = I_End \<and> z_exec z = E_End \<and> length lost = 1))"
  using shell_reach_ok(1) [OF assms(2,1)] unfolding order_ok_def .

subsection \<open>Commands that do not return\<close>

lemma get_enabled_update:
  assumes "get_enabled_commands (update_enable_set f sh) name = Some sp"
  shows "sh_commands sh name = Some sp" "f sp"
  using assms by (auto simp: get_enabled_commands_def update_enable_set_def split: option.splits if_splits)

lemma parse_enabled:
  assumes "parse it (update_enable_set f sh) input = Inr (Some c)"
  shows "f (c_spec c)" "\<exists>name. sh_commands sh name = Some (c_spec c)"
proof -
  obtain name where "get_enabled_commands (update_enable_set f sh) name = Some (c_spec c)"
    using assms by (auto simp: parse_def find_command_spec_def split: sum.splits list.splits option.splits if_splits)
  from get_enabled_update [OF this] show "f (c_spec c)" "\<exists>name. sh_commands sh name = Some (c_spec c)" by blast+
qed

text \<open>The execution thread runs a command that does not return.\<close>

definition stuck_command :: "cli_world \<Rightarrow> (spec_flag set \<Rightarrow> spec_flag list) \<Rightarrow> shell_sys \<Rightarrow> bool" where
  "stuck_command W it z \<longleftrightarrow>
     (let sh = update_enable_set (\<lambda>c. enabled (z_ctx z) (sc_callback c)) (z_shell z) in
      \<exists>line c. z_exec z = E_Run line \<and> parse it sh line = Inr (Some c) \<and>
        sc_callback (c_spec c) \<in> {B_publish, B_subscribe} \<and> x_tcp_write_tx (z_ctx z) \<noteq> None \<and>
        execute W it sh c (z_ctx z) = None)"

lemma no_turn_stuck:
  assumes "z_exec z = E_Run line" "shell_turn W it line (z_shell z, z_ctx z) = None"
  shows "stuck_command W it z"
proof -
  let ?sh = "update_enable_set (\<lambda>c. enabled (z_ctx z) (sc_callback c)) (z_shell z)"
  obtain c where c: "parse it ?sh line = Inr (Some c)" "execute W it ?sh c (z_ctx z) = None"
    using assms(2) by (auto simp: shell_turn_def Let_def parse_and_execute_def split: sum.splits option.splits)
  have "sc_callback (c_spec c) \<in> {B_publish, B_subscribe} \<and> x_tcp_write_tx (z_ctx z) \<noteq> None"
    using parse_enabled(1) [OF c(1)] c(2)
    by (cases "sc_callback (c_spec c)") (auto simp: execute_def)
  with c assms(1) show ?thesis by (auto simp: stuck_command_def Let_def)
qed

subsection \<open>The end of the shell\<close>

definition shell_rank :: "shell_sys \<Rightarrow> nat" where
  "shell_rank z =
     (if z_input z = I_Leave then 1 else 0) +
     (let ahead = length (takeWhile (\<lambda>c. c \<noteq> ''exit'') (z_queue z)) in
      case z_exec z of E_End \<Rightarrow> 0 | E_Run c \<Rightarrow> if c = ''exit'' then 1 else 2 * ahead + 3 | E_Recv \<Rightarrow> 2 * ahead + 2)"

lemma rank_step:
  assumes "control_ok z" "leaving z" "z_exec z \<noteq> E_End" "shell_act W it a z = Some z'"
  shows "leaving z' \<and> (if (\<exists>c. a = X_Push c) then shell_rank z' = shell_rank z else shell_rank z' < shell_rank z)"
proof (cases a)
  case X_Take
  with assms(4) obtain c q where "z_exec z = E_Recv" "z_queue z = c # q"
      "z' = z\<lparr>z_exec := E_Run c, z_queue := q, z_taken := z_taken z @ [c]\<rparr>"
    by (auto split: exec_pc.splits list.splits)
  with assms(2) X_Take show ?thesis by (auto simp: shell_rank_def leaving_def Let_def)
next
  case X_Finish
  with assms(4) obtain c res sh x where run: "z_exec z = E_Run c"
      "shell_turn W it c (z_shell z, z_ctx z) = Some (res, sh, x)" "z' = exec_finish res (z\<lparr>z_shell := sh, z_ctx := x\<rparr>)"
    by (auto split: exec_pc.splits option.splits)
  have "c = ''exit'' \<Longrightarrow> res = T_Abort"
    using exit_turn [of "z_shell z" W it "z_ctx z"] assms(1) run(2) by (auto simp: control_ok_def)
  with run assms(2) X_Finish show ?thesis
    by (cases res) (auto simp: shell_rank_def leaving_def exec_finish_def Let_def)
next
  case (X_Push c)
  with assms have "z' = z\<lparr>z_queue := z_queue z @ [c], z_log := z_log z @ [(False, c)]\<rparr>" "exit_pending z"
    by (auto simp: control_ok_def split: if_splits)
  with assms(2) X_Push show ?thesis
    by (auto simp: shell_rank_def leaving_def exit_pending_def Let_def split: exec_pc.splits)
qed (use assms in \<open>auto simp: leaving_def shell_rank_def split: if_splits\<close>)

lemma exec_step:
  assumes "control_ok z" "leaving z" "z_exec z \<noteq> E_End"
  shows "(\<exists>a \<in> {X_Take, X_Finish}. shell_act W it a z \<noteq> None) \<or> stuck_command W it z"
proof (cases "z_exec z")
  case E_Recv
  with assms(1,2) obtain c q where "z_queue z = c # q"
    by (cases "z_queue z") (auto simp: control_ok_def exit_pending_def)
  with E_Recv show ?thesis by auto
next
  case (E_Run c)
  then show ?thesis
    using no_turn_stuck [of z c W it] by (cases "shell_turn W it c (z_shell z, z_ctx z)") auto
qed (use assms(3) in simp)

lemma exec_to_end:
  assumes "shell_reach W it z0 z" "\<And>z. shell_reach W it z0 z \<Longrightarrow> control_ok z" "leaving z"
  shows "\<exists>as z'. set as \<subseteq> {X_Take, X_Finish} \<and> length as \<le> shell_rank z \<and>
    shell_acts W it as z = Some z' \<and> (z_exec z' = E_End \<or> stuck_command W it z')"
  using assms(1,3)
proof (induction "shell_rank z" arbitrary: z rule: less_induct)
  case less
  show ?case
  proof (cases "z_exec z = E_End \<or> stuck_command W it z")
    case True
    then show ?thesis by (intro exI [of _ "[]"] exI [of _ z]) simp
  next
    case False
    with exec_step [OF assms(2) [OF less.prems(1)] less.prems(2)] obtain a z1 where
        a: "a \<in> {X_Take, X_Finish}" "shell_act W it a z = Some z1" by blast
    with rank_step [OF assms(2) [OF less.prems(1)] less.prems(2) _ a(2)] False
    have z1: "leaving z1" "shell_rank z1 < shell_rank z" by (auto split: if_splits)
    then obtain as z' where "set as \<subseteq> {X_Take, X_Finish}" "length as \<le> shell_rank z1"
        "shell_acts W it as z1 = Some z'" "z_exec z' = E_End \<or> stuck_command W it z'"
      using less.hyps [OF z1(2)] shell_reach.step [OF less.prems(1) a(2)] by blast
    with a z1(2) show ?thesis by (intro exI [of _ "a # as"] exI [of _ z']) auto
  qed
qed

text \<open>C28: after \<open>exit\<close> the shell ends, unless a \<open>publish\<close> or \<open>subscribe\<close> does not return. Once the input thread
  has read \<open>exit\<close> and until the execution thread has ended, that thread can take a step, or it is
  running a \<open>publish\<close> or \<open>subscribe\<close> over a connection that never returns. Every step of either thread
  brings the end nearer by the measure \<open>shell_rank\<close>; commands that other threads queue meanwhile leave
  the measure where it was, for the shell does not run what is queued behind \<open>exit\<close>. So
  within that many steps of its own the execution thread comes to its end or to such a command.\<close>

theorem exit_ends_shell:
  assumes "sh_commands sh = command_set" "shell_reach W it (shell_run sh x stdin) z" "leaving z" "z_exec z \<noteq> E_End"
  shows "((\<exists>a \<in> {X_Take, X_Finish}. shell_act W it a z \<noteq> None) \<or> stuck_command W it z) \<and>
    (\<forall>a z'. shell_act W it a z = Some z' \<longrightarrow> leaving z' \<and>
       (if (\<exists>c. a = X_Push c) then shell_rank z' = shell_rank z else shell_rank z' < shell_rank z)) \<and>
    (\<exists>as z'. set as \<subseteq> {X_Take, X_Finish} \<and> length as \<le> shell_rank z \<and>
       shell_acts W it as z = Some z' \<and> (z_exec z' = E_End \<or> stuck_command W it z'))"
proof -
  have ok: "control_ok z" if "shell_reach W it (shell_run sh x stdin) z" for z
    using shell_reach_ok(2) [OF that assms(1)] .
  note z = ok [OF assms(2)]
  show ?thesis
    using exec_step [OF z assms(3,4)] rank_step [OF z assms(3,4)] exec_to_end [OF assms(2) ok assms(3)]
    by blast
qed

subsection \<open>Prompts\<close>

text \<open>What the threads pass around: a command, an answer, a prompt.\<close>

definition tokens :: "shell_sys \<Rightarrow> nat" where
  "tokens z =
     length (z_queue z) + (case z_exec z of E_Run _ \<Rightarrow> 1 | _ \<Rightarrow> 0) + length (z_rsp z) +
     (if z_input z = I_Prompt \<or> z_input z = I_Read then 1 else 0)"

definition ended :: "shell_sys \<Rightarrow> bool" where
  "ended z \<longleftrightarrow> leaving z \<or> z_exec z = E_End"

definition token_ok :: "nat \<Rightarrow> shell_sys \<Rightarrow> bool" where
  "token_ok n z \<longleftrightarrow> ended z \<or> tokens z = n"

lemma token_step:
  assumes "token_ok n z" "n \<le> 1" "shell_act W it a z = Some z'" "\<And>c. a \<noteq> X_Push c"
  shows "token_ok n z'"
proof (cases a)
  case X_Take
  with assms(3) obtain c q where "z_exec z = E_Recv" "z_queue z = c # q"
      "z' = z\<lparr>z_exec := E_Run c, z_queue := q, z_taken := z_taken z @ [c]\<rparr>"
    by (auto split: exec_pc.splits list.splits)
  with assms(1) show ?thesis by (auto simp: token_ok_def ended_def leaving_def tokens_def)
next
  case X_Finish
  with assms(3) obtain c res sh x where "z_exec z = E_Run c" "z' = exec_finish res (z\<lparr>z_shell := sh, z_ctx := x\<rparr>)"
    by (auto split: exec_pc.splits option.splits)
  with assms(1) show ?thesis
    by (cases res) (auto simp: token_ok_def ended_def leaving_def tokens_def exec_finish_def)
next
  case X_Recv
  then have z': "z_input z = I_Recv" "input_recv z = Some z'" using assms(3) by (auto split: if_splits)
  show ?thesis
  proof (cases "z_rsp z")
    case Nil
    with z' show ?thesis by (auto simp: input_recv_def token_ok_def ended_def leaving_def split: if_splits)
  next
    case (Cons r rs)
    with assms(1,2) z' show ?thesis
      by (cases "ended z") (auto simp: input_recv_def token_ok_def ended_def leaving_def tokens_def split: if_splits)
  qed
next
  case X_Prompt
  then have "z_input z = I_Prompt" "input_prompt z = Some z'" using assms(3) by (auto split: if_splits)
  with assms(1) show ?thesis
    by (cases "z_exec z") (auto simp: input_prompt_def token_ok_def ended_def leaving_def tokens_def split: if_splits)
next
  case X_Read
  then have "z_input z = I_Read" "input_read z = Some z'" using assms(3) by (auto split: if_splits)
  with assms(1) show ?thesis
    by (auto simp: input_read_def Let_def token_ok_def ended_def leaving_def tokens_def split: if_splits option.splits)
qed (use assms in \<open>auto simp: token_ok_def ended_def leaving_def split: if_splits\<close>)

lemma tokens_start: "tokens (shell_run sh x stdin) = length (z_queue (shell_run sh x stdin))"
    "length (z_queue (shell_run sh x stdin)) \<le> 1" "\<not> ended (shell_run sh x stdin)"
  by (auto simp: tokens_def ended_def leaving_def shell_run_def Let_def split: option.splits state_value.splits)

lemma token_acts:
  assumes "shell_acts W it as z = Some z'" "\<forall>c. X_Push c \<notin> set as" "token_ok n z" "n \<le> 1"
  shows "token_ok n z'"
  using assms(1-3)
proof (induction as arbitrary: z)
  case (Cons a as)
  then obtain z1 where "shell_act W it a z = Some z1" "shell_acts W it as z1 = Some z'" by (auto split: option.splits)
  moreover from this(1) have "token_ok n z1"
    by (rule token_step [OF Cons.prems(3) assms(4)]) (use Cons.prems(2) in auto)
  ultimately show ?case using Cons by auto
qed simp

text \<open>C29: without other threads the prompt means that the shell is idle: when a command to run at the start is set, the
  user is prompted only after every earlier command has been taken and has finished. When none is
  set, nothing at all can happen: both threads wait for each other.\<close>

theorem prompt_means_idle:
  assumes "shell_acts W it as (shell_run sh x stdin) = Some z" "\<forall>c. X_Push c \<notin> set as"
  shows "((z_input z = I_Prompt \<or> z_input z = I_Read) \<and> z_exec z \<noteq> E_End \<longrightarrow>
      z_queue z = [] \<and> z_rsp z = [] \<and> z_exec z = E_Recv) \<and>
    ((\<forall>c. x_state x ''on_run'' \<noteq> Some (SV_String c)) \<longrightarrow> as = [])"
proof (intro conjI impI)
  let ?z0 = "shell_run sh x stdin"
  assume at: "(z_input z = I_Prompt \<or> z_input z = I_Read) \<and> z_exec z \<noteq> E_End"
  then have "\<not> ended z" by (auto simp: ended_def leaving_def)
  then have "tokens z \<le> 1"
    using token_acts [OF assms, of "tokens ?z0"] tokens_start [of sh x stdin] by (auto simp: token_ok_def)
  with at show "z_queue z = []" "z_rsp z = []" "z_exec z = E_Recv"
    by (simp_all add: tokens_def split: exec_pc.splits)
next
  assume "\<forall>c. x_state x ''on_run'' \<noteq> Some (SV_String c)"
  then have z0: "z_queue (shell_run sh x stdin) = []" "z_rsp (shell_run sh x stdin) = []"
      "z_exec (shell_run sh x stdin) = E_Recv" "z_input (shell_run sh x stdin) = I_Recv"
    by (auto simp: shell_run_def Let_def split: option.splits state_value.splits)
  show "as = []"
  proof (rule ccontr)
    assume "as \<noteq> []"
    then obtain a as' where as: "as = a # as'" by (cases as) auto
    with assms(2) z0 have "shell_act W it a (shell_run sh x stdin) = None"
      by (cases a) (auto simp: input_recv_def)
    with as assms(1) show False by simp
  qed
qed

lemma main_start:
  assumes "iterates (cw_names W)"
  shows "\<exists>sh'. sh_commands sh' = command_set \<and>
    shell_acts W it [X_Take, X_Finish, X_Recv, X_Prompt] (shell_run main_shell main_context stdin) =
      Some ((shell_run main_shell main_context stdin)\<lparr>z_shell := sh', z_queue := [], z_input := I_Read,
        z_taken := [''help''], z_prompts := [''mqtt>'']\<rparr>)"
proof -
  let ?x = "main_context\<lparr>x_state := (x_state main_context)(''cmd_queue_tx'' \<mapsto> SV_Sender)\<rparr>"
  obtain sh' where sh': "shell_turn W it ''help'' (main_shell, ?x) = Some (T_Again, sh', ?x)" "sh_commands sh' = command_set"
    using help_turn [of main_shell W it ?x] assms by (auto simp: main_shell_def shell_new_def)
  then show ?thesis
    by (intro exI [of _ sh'])
      (simp add: shell_run_def Let_def main_context_def exec_finish_def input_recv_def input_prompt_def make_shell_prompt_def)
qed

theorem prompt_means_idle_witness:
  "\<exists>z. shell_acts (toy_world (\<lambda>_. Inl RecvTimeout)) flag_order [X_Take, X_Finish, X_Recv, X_Prompt]
      (shell_run main_shell main_context []) = Some z \<and> z_prompts z = [''mqtt>''] \<and> z_queue z = [] \<and> z_exec z = E_Recv"
proof -
  have "iterates (cw_names (toy_world (\<lambda>_. Inl RecvTimeout)))" by (simp add: toy_world_def iterates_name_order)
  from main_start [OF this, of flag_order "[]"] obtain z where z:
      "shell_acts (toy_world (\<lambda>_. Inl RecvTimeout)) flag_order [X_Take, X_Finish, X_Recv, X_Prompt] (shell_run main_shell main_context []) = Some z"
      "z_prompts z = [''mqtt>'']" "z_input z = I_Read" "z_exec z \<noteq> E_End"
    by (auto simp: shell_run_def Let_def)
  with prompt_means_idle [OF z(1)] show ?thesis by auto
qed

subsection \<open>A prompt that comes too early\<close>

lemma shell_reach_acts:
  "shell_reach W it z0 z \<Longrightarrow> shell_acts W it as z = Some z' \<Longrightarrow> shell_reach W it z0 z'"
  by (induction as arbitrary: z) (auto split: option.splits intro: shell_reach.step)

definition quiet_world :: cli_world where
  "quiet_world = toy_world (\<lambda>_. Inl RecvTimeout)"

lemma quiet_names: "iterates (cw_names quiet_world)"
  by (simp add: quiet_world_def toy_world_def iterates_name_order)

lemma line_read [simp]:
  "read_input [''debug'' @ [nl]] = Some (''debug'' @ [nl], [])" "read_input [''exit'' @ [nl]] = Some (''exit'' @ [nl], [])"
  "str_trim (''debug'' @ [nl]) = ''debug''" "str_trim (''exit'' @ [nl]) = ''exit''"
  by (simp_all add: read_input_def read_command.simps count_quotes_def str_len_Cons str_trim_def is_whitespace_def)

lemma ping_turn:
  assumes "sh_commands sh = command_set" "x_tcp_write_tx x = None"
  shows "\<exists>sh'. shell_turn W it ''ping -n -q'' (sh, x) = Some (T_Again, sh', x)"
  using unavailable_turn [OF assms(1) command_set_lookup(3), of x "''ping -n -q''" "[''-n'', ''-q'']" W it] assms(2)
  by (auto simp: try_into_args_def is_blank_def)

text \<open>With the keep-alive thread the prompt can come too early: the answer to a ping that was sent while
  the user was typing is taken for the answer to the user's command. In a reachable state the user has
  typed one command and is prompted for the next while the first has not even been taken from
  the queue.\<close>

theorem prompt_before_command_runs:
  "\<exists>z. shell_reach quiet_world flag_order (shell_run main_shell main_context [''debug'' @ [nl]]) z \<and>
     z_input z = I_Read \<and> length (z_prompts z) = 2 \<and> (True, ''debug'') \<in> set (z_log z) \<and> ''debug'' \<notin> set (z_taken z)"
proof -
  let ?z0 = "shell_run main_shell main_context [''debug'' @ [nl]]"
  let ?x = "main_context\<lparr>x_state := (x_state main_context)(''cmd_queue_tx'' \<mapsto> SV_Sender)\<rparr>"
  obtain sh1 where sh1: "sh_commands sh1 = command_set"
      "shell_acts quiet_world flag_order [X_Take, X_Finish, X_Recv, X_Prompt] ?z0 =
        Some (?z0\<lparr>z_shell := sh1, z_queue := [], z_input := I_Read, z_taken := [''help''], z_prompts := [''mqtt>'']\<rparr>)"
    using main_start [OF quiet_names] by blast
  obtain sh2 where sh2: "shell_turn quiet_world flag_order ''ping -n -q'' (sh1, ?x) = Some (T_Again, sh2, ?x)"
    using ping_turn [OF sh1(1), of ?x] by (auto simp: main_context_def)
  have "\<exists>z. shell_acts quiet_world flag_order [X_Push ''ping -n -q'', X_Take, X_Finish, X_Read, X_Recv, X_Prompt]
      (?z0\<lparr>z_shell := sh1, z_queue := [], z_input := I_Read, z_taken := [''help''], z_prompts := [''mqtt>'']\<rparr>) = Some z \<and>
    z_input z = I_Read \<and> length (z_prompts z) = 2 \<and> (True, ''debug'') \<in> set (z_log z) \<and> ''debug'' \<notin> set (z_taken z)"
    using sh2 line_read
    by (simp add: shell_run_def Let_def exec_finish_def input_read_def input_recv_def input_prompt_def main_context_def)
  then show ?thesis
    using shell_reach_acts [OF shell_reach_acts [OF shell_reach.start sh1(2)]] by blast
qed

lemma exit_typed:
  "\<exists>z. shell_reach quiet_world flag_order (shell_run main_shell main_context [''exit'' @ [nl]]) z \<and>
     z_input z = I_Leave \<and> z_exec z = E_Recv \<and> x_tcp_write_tx (z_ctx z) = None \<and> z_log z = [(False, ''help''), (True, ''exit'')]"
proof -
  let ?z0 = "shell_run main_shell main_context [''exit'' @ [nl]]"
  obtain sh1 where sh1: "shell_acts quiet_world flag_order [X_Take, X_Finish, X_Recv, X_Prompt] ?z0 =
        Some (?z0\<lparr>z_shell := sh1, z_queue := [], z_input := I_Read, z_taken := [''help''], z_prompts := [''mqtt>'']\<rparr>)"
    using main_start [OF quiet_names] by blast
  have "\<exists>z. shell_acts quiet_world flag_order [X_Read]
      (?z0\<lparr>z_shell := sh1, z_queue := [], z_input := I_Read, z_taken := [''help''], z_prompts := [''mqtt>'']\<rparr>) = Some z \<and>
    z_input z = I_Leave \<and> z_exec z = E_Recv \<and> x_tcp_write_tx (z_ctx z) = None \<and> z_log z = [(False, ''help''), (True, ''exit'')]"
    using line_read by (simp add: shell_run_def Let_def input_read_def main_context_def)
  then show ?thesis
    using shell_reach_acts [OF shell_reach_acts [OF shell_reach.start sh1]] by blast
qed

lemma main_shell_commands [simp]: "sh_commands main_shell = command_set"
  by (simp add: main_shell_def shell_new_def)

theorem shell_commands_in_order_witness:
  "\<exists>z. shell_reach quiet_world flag_order (shell_run main_shell main_context [''exit'' @ [nl]]) z \<and>
     z_log z = [(False, ''help''), (True, ''exit'')] \<and> map snd (z_log z) = z_taken z @ z_queue z \<and>
     concat (z_typed z) @ concat (z_stdin z) = ''exit'' @ [nl]"
proof -
  obtain z where z: "shell_reach quiet_world flag_order (shell_run main_shell main_context [''exit'' @ [nl]]) z"
      "z_log z = [(False, ''help''), (True, ''exit'')]"
    using exit_typed by blast
  from shell_commands_in_order [OF main_shell_commands z(1)] z show ?thesis by (intro exI [of _ z]) simp
qed

theorem exit_ends_shell_witness:
  "\<exists>z. shell_reach quiet_world flag_order (shell_run main_shell main_context [''exit'' @ [nl]]) z \<and> leaving z \<and>
     (\<exists>a \<in> {X_Take, X_Finish}. shell_act quiet_world flag_order a z \<noteq> None) \<and>
     (\<exists>as z'. set as \<subseteq> {X_Take, X_Finish} \<and> shell_acts quiet_world flag_order as z = Some z' \<and>
        (z_exec z' = E_End \<or> stuck_command quiet_world flag_order z'))"
proof -
  obtain z where z: "shell_reach quiet_world flag_order (shell_run main_shell main_context [''exit'' @ [nl]]) z"
      "z_input z = I_Leave" "z_exec z = E_Recv" "x_tcp_write_tx (z_ctx z) = None"
    using exit_typed by blast
  then have l: "leaving z" "z_exec z \<noteq> E_End" by (simp_all add: leaving_def)
  have "\<not> stuck_command quiet_world flag_order z" using z(3) by (simp add: stuck_command_def Let_def)
  with exit_ends_shell [OF main_shell_commands z(1) l] z(1) l(1) show ?thesis by blast
qed

end
