(* ===== verification/Subscribe_Properties.thy ===== *)
theory Subscribe_Properties
  imports Cli_Properties
begin

section \<open>What the command \<open>subscribe\<close> guarantees\<close>

text \<open>
  Receiving with quality of service 2, whole sessions from the request to the end, and what
  goes wrong when packets arrive that the code does not wait for.
\<close>

subsection \<open>The copies of the helpers\<close>

lemma sub_send_size_eq: "sub_send_size X pkt = send_size X pkt"
  by (simp add: sub_send_size_def send_size_def)

lemma sub_send_packet_eq [simp]: "sub_send_packet W pkt = send_packet W pkt"
  by (simp add: sub_send_packet_def send_packet_def sub_send_size_eq)

text \<open>What \<open>publish.rs\<close> returns beside the response is the packet it was lent.\<close>

definition with_packet :: "mqttrs_Packet \<Rightarrow> (cli_error + 'a) \<times> MqttContext \<Rightarrow> (cli_error + mqttrs_Packet \<times> 'a) \<times> MqttContext" where
  "with_packet pkt = map_prod (map_sum id (Pair pkt)) id"

lemma with_packet_simps [simp]:
  "with_packet pkt (Inl e, x) = (Inl e, x)" "with_packet pkt (Inr r, x) = (Inr (pkt, r), x)"
  by (simp_all add: with_packet_def)

lemma sub_wait_eq:
  assumes "mark_dup pkt = pkt"
  shows "wait_on_response_with_retry W a n pkt x = with_packet pkt (sub_wait_on_response_with_retry W a n pkt x)"
proof (induction n arbitrary: a x)
  case (Suc n)
  obtain r1 x1 where recv: "tcp_recv_timeout W x = (r1, x1)" by fastforce
  obtain r2 x2 where send: "send_packet W pkt x1 = (r2, x2)" by fastforce
  show ?case using recv send Suc.IH assms
    by (cases r1; cases r2) (auto split: recv_error.splits)
qed simp

text \<open>C36: the two copies of the helpers in \<open>publish.rs\<close> and \<open>subscribe.rs\<close> do the same: sending is equal, and
  waiting with retries gives the same result and the same packets on every packet that is not a
  publish; a publish, which only the copy in \<open>publish.rs\<close> marks as a duplicate, is never passed to the other.\<close>

theorem helper_copies_agree:
  "sub_send_packet W k = send_packet W k \<and>
   (mark_dup pkt = pkt \<longrightarrow>
     wait_on_response_with_retry W a n pkt x = with_packet pkt (sub_wait_on_response_with_retry W a n pkt x)) \<and>
   mark_dup (M_Pubrec p) = M_Pubrec p"
  by (simp add: sub_wait_eq)

theorem helper_copies_agree_witness:
  "wait_on_response_with_retry (toy_world (\<lambda>_. Inl RecvTimeout)) 0 2 (M_Pubrec (Pid 1)) toy_context
     = with_packet (M_Pubrec (Pid 1))
         (sub_wait_on_response_with_retry (toy_world (\<lambda>_. Inl RecvTimeout)) 0 2 (M_Pubrec (Pid 1)) toy_context)"
  using helper_copies_agree [of _ _ "M_Pubrec (Pid 1)"] by simp

subsection \<open>Receiving with quality of service 2\<close>

lemma sub_wait_sends:
  assumes "sub_wait_on_response_with_retry W a n pkt x = (r, x')" "mark_dup pkt = pkt" "x_tcp_write_tx x = Some sent"
  shows "\<exists>k \<le> n. x_tcp_write_tx x' = Some (sent @ replicate k (sent_as W pkt)) \<and>
    (\<forall>rx att. r = Inr (Some (rx, att)) \<longrightarrow> att = a + k \<and> k < n)"
proof -
  obtain r2 where "wait_on_response_with_retry W a n pkt x = (r2, x')" "r2 = map_sum id (Pair pkt) r"
    using sub_wait_eq [OF assms(2)] assms(1) by (simp add: with_packet_def)
  from wait_sends [OF this(1) assms(3)] this(2) assms(2) show ?thesis by auto
qed

lemma send_packet_rest:
  assumes "send_packet W k y = (r, y')"
  shows "r \<noteq> Inl Panic" "x_recv_pos y' = x_recv_pos y" "x_tcp_read_rx y' = x_tcp_read_rx y"
  using assms by (auto simp: send_packet_def bnd_def lift_result_def encode_into_def err_into_def tcp_send_def
      split: sum.splits option.splits if_splits)

lemma sub_wait_receives:
  assumes "sub_wait_on_response_with_retry W a n pkt x = (r, x')"
  shows "x_recv_pos x \<le> x_recv_pos x' \<and>
    (\<forall>rx att. r = Inr (Some (rx, att)) \<longrightarrow> x_recv_pos x' > 0 \<and>
       cw_recv W (x_recv_pos x' - 1) = Inr rx \<and> x_recv_pos x \<le> x_recv_pos x' - 1) \<and> r \<noteq> Inl Panic"
  using assms
proof (induction n arbitrary: a x)
  case (Suc n)
  obtain r1 x1 where recv: "tcp_recv_timeout W x = (r1, x1)" by fastforce
  obtain r2 x2 where send: "send_packet W pkt x1 = (r2, x2)" by fastforce
  note pos = send_packet_rest(2,1) [OF send]
  note pos1 = recv_cases [OF recv]
  show ?case
  proof (cases r1)
    case (Inr rx)
    with Suc.prems recv have "r = Inr (Some (rx, a))" "x' = x1" by simp_all
    then show ?thesis using pos1 Inr by auto
  next
    case (Inl e)
    show ?thesis
    proof (cases e)
      case RecvDisconnected
      with Suc.prems recv Inl have "r = Inl (RecvTimeoutError e)" "x' = x1" by simp_all
      then show ?thesis using pos1 by auto
    next
      case RecvTimeout
      show ?thesis
      proof (cases r2)
        case (Inl e2)
        with Suc.prems recv \<open>r1 = Inl e\<close> RecvTimeout send have "r = Inl e2" "x' = x2" by simp_all
        then show ?thesis using pos1 pos Inl by auto
      next
        case (Inr u)
        with Suc.prems recv \<open>r1 = Inl e\<close> RecvTimeout send
        have run: "sub_wait_on_response_with_retry W (Suc a) n pkt x2 = (r, x')" by simp
        have "x_recv_pos x \<le> x_recv_pos x2" using pos1 pos(1) by auto
        with Suc.IH [OF run] show ?thesis by (auto intro: order_trans)
      qed
    qed
  qed
qed auto

text \<open>A \<open>Pubrel\<close> of the transaction among the packets received from position \<open>i\<close> to \<open>j\<close>.\<close>

definition pubrel_between :: "cli_world \<Rightarrow> pid \<Rightarrow> nat \<Rightarrow> nat \<Rightarrow> bool" where
  "pubrel_between W p i j \<longleftrightarrow> (\<exists>k a. i \<le> k \<and> k < j \<and> cw_recv W k = Inr a \<and> decode_tcp_rx (cw_mqttrs W) a = Inr (M_Pubrel p))"

definition await_ok :: "cli_world \<Rightarrow> pid \<Rightarrow> nat \<Rightarrow> MqttContext \<Rightarrow> (cli_error + unit) \<times> MqttContext \<Rightarrow> bool" where
  "await_ok W p m x y \<longleftrightarrow> (\<forall>sent. m < 5 \<longrightarrow> x_tcp_write_tx x = Some sent \<longrightarrow>
     (\<exists>k. x_tcp_write_tx (snd y) = Some (sent @ replicate k (sent_as W (M_Pubrec p))) \<and> m + k \<le> 5 \<and>
        (fst y = Inr () \<longrightarrow> m + k < 5 \<and> pubrel_between W p (x_recv_pos x) (x_recv_pos (snd y)))) \<and>
     x_recv_pos x \<le> x_recv_pos (snd y) \<and> fst y \<noteq> Inl Panic)"

lemma decode_no_panic: "decode_tcp_rx X a \<noteq> Inl Panic"
  by (auto simp: decode_tcp_rx_def split: PacketRx.splits sum.splits option.splits)

text \<open>One turn of the loop, with what follows it as an argument.\<close>

definition await_turn :: "(cli_world \<Rightarrow> pid \<Rightarrow> nat \<Rightarrow> MqttContext \<Rightarrow> ((cli_error + unit) \<times> MqttContext) option) \<Rightarrow>
    cli_world \<Rightarrow> pid \<Rightarrow> nat \<Rightarrow> MqttContext \<Rightarrow> ((cli_error + unit) \<times> MqttContext) option" where
  "await_turn f W p m x =
     (if m > SUB_MAX_RETRIES then Some (Inl Panic, x)
      else if SUB_MAX_RETRIES - m > 0 then
        (case sub_wait_on_response_with_retry W 0 (SUB_MAX_RETRIES - m) (M_Pubrec p) x of
           (Inl e, x1) \<Rightarrow> Some (Inl e, x1)
         | (Inr None, x1) \<Rightarrow> Some (Inl (MQTTError ''Timeout waiting on pubrel.''), x1)
         | (Inr (Some (rx_pkt, attempts)), x1) \<Rightarrow>
             (case decode_tcp_rx (cw_mqttrs W) rx_pkt of
                Inl e \<Rightarrow> Some (Inl e, x1)
              | Inr rx \<Rightarrow> if rx = M_Pubrel p then Some (Inr (), x1) else f W p (m + attempts) x1))
      else Some (Inr (), x))"

lemma await_pubrel_turn: "await_pubrel W p m x = await_turn await_pubrel W p m x"
  unfolding await_turn_def by (rule await_pubrel.simps)

lemma await_cases:
  assumes "await_turn f W p m x = Some y" "sub_wait_on_response_with_retry W 0 (5 - m) (M_Pubrec p) x = (r1, x1)" "m < 5"
  obtains (stop) e where "y = (Inl e, x1)" "e \<noteq> Panic"
  | (rel) a att where "r1 = Inr (Some (a, att))" "decode_tcp_rx (cw_mqttrs W) a = Inr (M_Pubrel p)" "y = (Inr (), x1)"
  | (again) a att where "r1 = Inr (Some (a, att))" "f W p (m + att) x1 = Some y"
proof (cases r1)
  case (Inl e)
  with assms sub_wait_receives [OF assms(2)] show thesis by (intro stop [of e]) (auto simp: await_turn_def SUB_MAX_RETRIES_def)
next
  case (Inr res)
  show thesis
  proof (cases res)
    case None
    with assms Inr show thesis by (intro stop) (auto simp: await_turn_def SUB_MAX_RETRIES_def)
  next
    case (Some b)
    then obtain a att where r1: "r1 = Inr (Some (a, att))" using Inr by (cases b) auto
    show thesis
    proof (cases "decode_tcp_rx (cw_mqttrs W) a")
      case (Inl e)
      with assms r1 decode_no_panic [of "cw_mqttrs W" a] show thesis
        by (intro stop [of e]) (auto simp: await_turn_def SUB_MAX_RETRIES_def)
    next
      case (Inr rx)
      with assms r1 show thesis
        by (cases "rx = M_Pubrel p") (auto intro: rel again simp: await_turn_def SUB_MAX_RETRIES_def)
    qed
  qed
qed

lemma await_pubrel_ok:
  assumes "await_pubrel W p m x = Some y"
  shows "await_ok W p m x y"
proof (rule await_pubrel.raw_induct [of await_ok "(((W, p), m), x)" y, unfolded prod.case])
  fix f :: "cli_world \<Rightarrow> pid \<Rightarrow> nat \<Rightarrow> MqttContext \<Rightarrow> ((cli_error + unit) \<times> MqttContext) option" and W p m x y
  assume IH: "\<And>W p m x y. f W p m x = Some y \<Longrightarrow> await_ok W p m x y"
    and eq: "(if m > SUB_MAX_RETRIES then Some (Inl Panic, x)
      else if SUB_MAX_RETRIES - m > 0 then
        (case sub_wait_on_response_with_retry W 0 (SUB_MAX_RETRIES - m) (M_Pubrec p) x of
           (Inl e, x1) \<Rightarrow> Some (Inl e, x1)
         | (Inr None, x1) \<Rightarrow> Some (Inl (MQTTError ''Timeout waiting on pubrel.''), x1)
         | (Inr (Some (rx_pkt, attempts)), x1) \<Rightarrow>
             (case decode_tcp_rx (cw_mqttrs W) rx_pkt of
                Inl e \<Rightarrow> Some (Inl e, x1)
              | Inr rx \<Rightarrow> if rx = M_Pubrel p then Some (Inr (), x1) else f W p (m + attempts) x1))
      else Some (Inr (), x)) = Some y"
  obtain r1 x1 where wait: "sub_wait_on_response_with_retry W 0 (5 - m) (M_Pubrec p) x = (r1, x1)" by fastforce
  note recv = sub_wait_receives [OF wait]
  show "await_ok W p m x y"
    unfolding await_ok_def
  proof (intro allI impI)
    fix sent
    assume m: "m < 5" and sent: "x_tcp_write_tx x = Some sent"
    from sub_wait_sends [OF wait _ sent] obtain k where k: "k \<le> 5 - m"
        "x_tcp_write_tx x1 = Some (sent @ replicate k (sent_as W (M_Pubrec p)))"
        "\<And>rx att. r1 = Inr (Some (rx, att)) \<Longrightarrow> att = k \<and> k < 5 - m" by auto
    consider (stop) e where "y = (Inl e, x1)" "e \<noteq> Panic"
      | (rel) a att where "r1 = Inr (Some (a, att))" "decode_tcp_rx (cw_mqttrs W) a = Inr (M_Pubrel p)" "y = (Inr (), x1)"
      | (again) a att where "r1 = Inr (Some (a, att))" "f W p (m + att) x1 = Some y"
      using await_cases [OF eq [folded await_turn_def] wait m] by metis
    then show "(\<exists>k. x_tcp_write_tx (snd y) = Some (sent @ replicate k (sent_as W (M_Pubrec p))) \<and> m + k \<le> 5 \<and>
        (fst y = Inr () \<longrightarrow> m + k < 5 \<and> pubrel_between W p (x_recv_pos x) (x_recv_pos (snd y)))) \<and>
      x_recv_pos x \<le> x_recv_pos (snd y) \<and> fst y \<noteq> Inl Panic"
    proof cases
      case stop
      then show ?thesis using k m recv by (auto intro!: exI [of _ k])
    next
      case rel
      then have "pubrel_between W p (x_recv_pos x) (x_recv_pos x1)"
        using recv unfolding pubrel_between_def by (intro exI [of _ "x_recv_pos x1 - 1"] exI [of _ a]) auto
      then show ?thesis using rel k m recv by (auto intro!: exI [of _ k])
    next
      case again
      with k m have k5: "att = k" "m + k < 5" by fastforce+
      from IH [OF again(2)] k(2) k5 obtain j where j:
          "x_tcp_write_tx (snd y) = Some ((sent @ replicate k (sent_as W (M_Pubrec p))) @ replicate j (sent_as W (M_Pubrec p)))"
          "m + k + j \<le> 5" "fst y = Inr () \<longrightarrow> m + k + j < 5 \<and> pubrel_between W p (x_recv_pos x1) (x_recv_pos (snd y))"
          "x_recv_pos x1 \<le> x_recv_pos (snd y)" "fst y \<noteq> Inl Panic"
        unfolding await_ok_def by blast
      moreover have "pubrel_between W p (x_recv_pos x1) n \<Longrightarrow> pubrel_between W p (x_recv_pos x) n" for n
        using recv unfolding pubrel_between_def by (meson order_trans)
      ultimately show ?thesis using recv by (auto simp: replicate_add intro!: exI [of _ "k + j"])
    qed
  qed
qed (rule assms)

lemma await_packet:
  assumes "tcp_recv_timeout W x = (Inr a, x1)" "decode_tcp_rx (cw_mqttrs W) a = Inr k" "m < 5"
  shows "await_pubrel W p m x = (if k = M_Pubrel p then Some (Inr (), x1) else await_pubrel W p m x1)"
proof -
  obtain n where "5 - m = Suc n" using assms(3) by (cases "5 - m") auto
  then have "sub_wait_on_response_with_retry W 0 (5 - m) (M_Pubrec p) x = (Inr (Some (a, 0)), x1)"
    using assms(1) by simp
  then show ?thesis
    using assms(2,3) by (subst await_pubrel_turn) (simp add: await_turn_def SUB_MAX_RETRIES_def)
qed

text \<open>A broker that is never silent and never sends the awaited \<open>Pubrel\<close>.\<close>

definition talkative :: "cli_world \<Rightarrow> pid \<Rightarrow> bool" where
  "talkative W p \<longleftrightarrow> (\<forall>i. \<exists>a k. cw_recv W i = Inr a \<and> decode_tcp_rx (cw_mqttrs W) a = Inr k \<and> k \<noteq> M_Pubrel p)"

lemma await_talkative:
  assumes "await_pubrel W p m x = Some y" "talkative W p" "x_tcp_read_rx x" "m < 5"
  shows False
proof -
  have "talkative W p \<longrightarrow> x_tcp_read_rx x \<longrightarrow> m < 5 \<longrightarrow> False"
  proof (rule await_pubrel.raw_induct [of "\<lambda>W p m x y. talkative W p \<longrightarrow> x_tcp_read_rx x \<longrightarrow> m < 5 \<longrightarrow> False"
        "(((W, p), m), x)" y, unfolded prod.case, OF _ assms(1), folded await_turn_def])
    fix f :: "cli_world \<Rightarrow> pid \<Rightarrow> nat \<Rightarrow> MqttContext \<Rightarrow> ((cli_error + unit) \<times> MqttContext) option" and W p m x y
    assume IH: "\<And>W p m x y. f W p m x = Some y \<Longrightarrow> talkative W p \<longrightarrow> x_tcp_read_rx x \<longrightarrow> m < 5 \<longrightarrow> False"
      and eq: "await_turn f W p m x = Some y"
    show "talkative W p \<longrightarrow> x_tcp_read_rx x \<longrightarrow> m < 5 \<longrightarrow> False"
    proof (intro impI)
      assume t: "talkative W p" "x_tcp_read_rx x" "m < 5"
      then obtain a k where a: "tcp_recv_timeout W x = (Inr a, x\<lparr>x_recv_pos := Suc (x_recv_pos x)\<rparr>)"
          "decode_tcp_rx (cw_mqttrs W) a = Inr k" "k \<noteq> M_Pubrel p"
        unfolding talkative_def tcp_recv_timeout_def by (metis (no_types))
      obtain n where "5 - m = Suc n" using t(3) by (cases "5 - m") auto
      with eq a t have "f W p m (x\<lparr>x_recv_pos := Suc (x_recv_pos x)\<rparr>) = Some y"
        by (simp add: await_turn_def SUB_MAX_RETRIES_def split: if_splits)
      from IH [OF this] t show False by simp
    qed
  qed
  with assms show False by blast
qed

text \<open>C24: receiving with quality of service 2. When the exchange for a publish succeeds, a \<open>Pubrel\<close> with its
  identifier has arrived and \<open>Pubrec\<close>, at most four copies of it and one \<open>Pubcomp\<close> have been sent; when it
  fails, no \<open>Pubcomp\<close> has been sent, at most five copies, and the counter of retries has not
  underflowed. Against a broker that keeps sending other packets it never returns.\<close>

theorem qos2_reception:
  assumes "x_tcp_write_tx x = Some sent"
  shows "(\<forall>x'. receive_exactly_once W p x = Some (Inr (), x') \<longrightarrow>
      (\<exists>k \<le> 4. x_tcp_write_tx x' = Some (sent @ replicate (Suc k) (sent_as W (M_Pubrec p)) @ [sent_as W (M_Pubcomp p)])) \<and>
      pubrel_between W p (x_recv_pos x) (x_recv_pos x')) \<and>
    (\<forall>e x'. receive_exactly_once W p x = Some (Inl e, x') \<longrightarrow>
      (\<exists>k \<le> 6. x_tcp_write_tx x' = Some (sent @ replicate k (sent_as W (M_Pubrec p)))) \<and> e \<noteq> Panic) \<and>
    (talkative W p \<and> x_tcp_read_rx x \<and> send_packet W (M_Pubrec p) x \<in> range (Pair (Inr ())) \<longrightarrow>
      receive_exactly_once W p x = None)"
proof -
  obtain r1 x1 where send: "send_packet W (M_Pubrec p) x = (r1, x1)" by fastforce
  note x1 = send_packet_rest [OF send] and cases1 = send_packet_cases [OF send assms]
  show ?thesis
  proof (cases "\<exists>u y. r1 = Inr u \<and> await_pubrel W p 0 x1 = Some y")
    case False
    show ?thesis
    proof (cases r1)
      case (Inl e)
      with send cases1 x1 assms show ?thesis
        by (auto simp: receive_exactly_once_def intro!: exI [of _ 0])
    next
      case (Inr u)
      with False have "await_pubrel W p 0 x1 = None" by (cases "await_pubrel W p 0 x1") auto
      with send Inr show ?thesis by (simp add: receive_exactly_once_def)
    qed
  next
    case True
    then obtain r2 x2 where r1: "r1 = Inr ()" and y: "await_pubrel W p 0 x1 = Some (r2, x2)" by auto
    with cases1 have w1: "x_tcp_write_tx x1 = Some (sent @ [sent_as W (M_Pubrec p)])" by auto
    from await_pubrel_ok [OF y] w1 obtain k where k: "k \<le> 5" "r2 \<noteq> Inl Panic"
        "x_tcp_write_tx x2 = Some (sent @ replicate (Suc k) (sent_as W (M_Pubrec p)))"
        "r2 = Inr () \<longrightarrow> k < 5 \<and> pubrel_between W p (x_recv_pos x1) (x_recv_pos x2)"
      unfolding await_ok_def by auto
    have quiet: "\<not> (talkative W p \<and> x_tcp_read_rx x)" using await_talkative [OF y] x1 by auto
    obtain r3 x3 where comp: "send_packet W (M_Pubcomp p) x2 = (r3, x3)" by fastforce
    note x3 = send_packet_rest [OF comp] and cases3 = send_packet_cases [OF comp k(3)]
    show ?thesis
    proof (cases r2)
      case (Inl e)
      with send r1 y k quiet show ?thesis
        by (auto simp: receive_exactly_once_def intro!: exI [of _ "Suc k"])
    next
      case Inr
      then have run: "receive_exactly_once W p x = Some (r3, x3)"
        using send r1 y comp by (simp add: receive_exactly_once_def)
      show ?thesis
      proof (cases r3)
        case (Inl e)
        then show ?thesis using Inr k cases3 x3 quiet unfolding run by (auto intro!: exI [of _ "Suc k"])
      next
        case (Inr v)
        then show ?thesis using \<open>r2 = Inr _\<close> k cases3 x1 x3 quiet unfolding run by (auto intro!: exI [of _ k])
      qed
    qed
  qed
qed

subsection \<open>Whole sessions\<close>

text \<open>The outcomes of a wait that need no exchange: silence, a publish of quality of service 0 or 1, and
  what the loop reports and ignores. What each adds to the screen and to the channel.\<close>

definition received :: "cli_world \<Rightarrow> recv_error + PacketRx \<Rightarrow> mqttrs_Packet option" where
  "received W r =
     (case r of
        Inl _ \<Rightarrow> None
      | Inr a \<Rightarrow> (case decode_tcp_rx (cw_mqttrs W) a of Inl _ \<Rightarrow> None | Inr k \<Rightarrow> Some k))"

definition plain :: "cli_world \<Rightarrow> recv_error + PacketRx \<Rightarrow> bool" where
  "plain W r \<longleftrightarrow> r \<noteq> Inl RecvDisconnected \<and>
     (case received W r of
        Some (M_Publish pub) \<Rightarrow> (\<forall>p. mpub_qospid pub \<noteq> QP_ExactlyOnce p)
      | Some (M_Suback _) \<Rightarrow> False
      | _ \<Rightarrow> True)"

definition shown :: "cli_world \<Rightarrow> recv_error + PacketRx \<Rightarrow> (string \<times> bytes) list" where
  "shown W r = (case received W r of Some (M_Publish pub) \<Rightarrow> [(mpub_topic_name pub, mpub_payload pub)] | _ \<Rightarrow> [])"

definition encoded :: "cli_world \<Rightarrow> nat \<Rightarrow> mqttrs_Packet \<Rightarrow> PacketTx" where
  "encoded W n pkt = Tx_Mqtt (case encode_into (cw_mqttrs W) n pkt of Inr buf \<Rightarrow> buf | Inl _ \<Rightarrow> []) True"

definition puback_size :: "cli_world \<Rightarrow> nat" where
  "puback_size W = size_of (cw_mqttrs W) T_mqttrs_Packet + size_of (cw_mqttrs W) T_Pid"

definition acks :: "cli_world \<Rightarrow> recv_error + PacketRx \<Rightarrow> PacketTx list" where
  "acks W r =
     (case received W r of
        Some (M_Publish pub) \<Rightarrow>
          (case mpub_qospid pub of QP_AtLeastOnce p \<Rightarrow> [encoded W (puback_size W) (M_Puback p)] | _ \<Rightarrow> [])
      | _ \<Rightarrow> [])"

definition fits_in :: "cli_world \<Rightarrow> nat \<Rightarrow> mqttrs_Packet \<Rightarrow> bool" where
  "fits_in W n pkt \<longleftrightarrow> (\<exists>buf. encode_into (cw_mqttrs W) n pkt = Inr buf)"

text \<open>A send that succeeds.\<close>

lemma encode_send:
  assumes "fits_in W n pkt" "x_tcp_write_tx x = Some sent" "cw_tx_ok W (length sent)"
  shows "bnd (lift_result (encode_into (cw_mqttrs W) n pkt)) (\<lambda>buf. err_into h (tcp_send W (Tx_Mqtt buf True))) x
    = (Inr (), x\<lparr>x_tcp_write_tx := Some (sent @ [encoded W n pkt])\<rparr>)"
  using assms by (auto simp: fits_in_def bnd_def lift_result_def err_into_def tcp_send_def encoded_def)

lemma send_packet_fits:
  assumes "fits_in W (send_size (cw_mqttrs W) pkt) pkt" "x_tcp_write_tx x = Some sent" "cw_tx_ok W (length sent)"
  shows "send_packet W pkt x = (Inr (), x\<lparr>x_tcp_write_tx := Some (sent @ [sent_as W pkt])\<rparr>)"
  using encode_send [OF assms] by (simp add: send_packet_def sent_as_def encoded_def)

lemma received_Some:
  "received W r = Some k \<longleftrightarrow> (\<exists>a. r = Inr a \<and> decode_tcp_rx (cw_mqttrs W) a = Inr k)"
  by (auto simp: received_def split: sum.splits)

lemma suback_codes_result:
  "suback_codes topics i cs subs = (if i + length cs \<le> length topics \<or> cs = [] then Inr (subs @ cs) else Inl Panic)"
  by (induction cs arbitrary: i subs) (auto simp: Suc_le_eq)

lemma plain_turn:
  assumes "plain W (cw_recv W (x_recv_pos x))" "\<not> cancelled (cw_signals W (x_recv_pos x))" "x_tcp_read_rx x"
    and "x_tcp_write_tx x = Some sent" "\<And>i. cw_tx_ok W i" "\<And>p. fits_in W (puback_size W) (M_Puback p)"
  shows "sub_turn W p topics st x = Some (Sub_Again,
    st\<lparr>ss_shown := ss_shown st @ shown W (cw_recv W (x_recv_pos x))\<rparr>,
    x\<lparr>x_recv_pos := Suc (x_recv_pos x), x_tcp_write_tx := Some (sent @ acks W (cw_recv W (x_recv_pos x)))\<rparr>)"
proof -
  let ?r = "cw_recv W (x_recv_pos x)" and ?x1 = "x\<lparr>x_recv_pos := Suc (x_recv_pos x)\<rparr>"
  have recv: "tcp_recv_timeout W x = (?r, ?x1)" using assms(3) by (simp add: tcp_recv_timeout_def)
  show ?thesis
  proof (cases ?r)
    case (Inl e)
    with assms(1) have "e = RecvTimeout" by (cases e) (auto simp: plain_def)
    with Inl recv assms(2,4) show ?thesis by (simp add: sub_turn_def shown_def acks_def received_def)
  next
    case (Inr a)
    note turn = sub_turn_def [of W p topics st x] sub_packet_def
    show ?thesis
    proof (cases "\<exists>pub. decode_tcp_rx (cw_mqttrs W) a = Inr (M_Publish pub)")
      case False
      with Inr recv assms(1,2,4) show ?thesis
        by (auto simp: turn shown_def acks_def received_def plain_def split: sum.splits mqttrs_Packet.splits)
    next
      case True
      then obtain pub where pub: "decode_tcp_rx (cw_mqttrs W) a = Inr (M_Publish pub)" by blast
      have "acknowledge W (mpub_qospid pub) ?x1 = Some (Inr (), ?x1\<lparr>x_tcp_write_tx := Some (sent @ acks W ?r)\<rparr>)"
        using Inr pub assms(1,4-6) encode_send [of W "puback_size W" _ ?x1 sent]
        by (auto simp: acknowledge_def acks_def received_def plain_def puback_size_def split: QosPid.splits)
      with Inr recv assms(2) pub show ?thesis by (simp add: turn shown_def received_def Let_def)
    qed
  qed
qed

subsection \<open>Exchanges\<close>

text \<open>Counting attempts from one more only shifts the count, and so a silence counts as a retry.\<close>

lemma sub_wait_shift:
  "sub_wait_on_response_with_retry W (Suc a) n pkt x =
     map_prod (map_sum id (map_option (map_prod id Suc))) id (sub_wait_on_response_with_retry W a n pkt x)"
proof (induction n arbitrary: a x)
  case (Suc n)
  obtain r1 x1 where recv: "tcp_recv_timeout W x = (r1, x1)" by fastforce
  obtain r2 x2 where send: "send_packet W pkt x1 = (r2, x2)" by fastforce
  show ?case using recv send Suc.IH [of "Suc a"]
    by (cases r1; cases r2) (auto split: recv_error.splits)
qed simp

lemma await_timeout:
  assumes "tcp_recv_timeout W x = (Inl RecvTimeout, x1)" "send_packet W (M_Pubrec p) x1 = (Inr (), x2)" "Suc m < 5"
  shows "await_pubrel W p m x = await_pubrel W p (Suc m) x2"
proof -
  have n: "5 - m = Suc (5 - Suc m)" using assms(3) by simp
  obtain r x3 where wait: "sub_wait_on_response_with_retry W 0 (5 - Suc m) (M_Pubrec p) x2 = (r, x3)" by fastforce
  have "sub_wait_on_response_with_retry W 0 (5 - m) (M_Pubrec p) x
      = (map_sum id (map_option (map_prod id Suc)) r, x3)"
    unfolding n using assms(1,2) sub_wait_shift [of W 0 "5 - Suc m" "M_Pubrec p" x2] wait by simp
  then show ?thesis
    using wait assms(3)
    by (subst (1 2) await_pubrel_turn)
      (auto simp: await_turn_def SUB_MAX_RETRIES_def split: sum.splits option.splits)
qed

text \<open>What may arrive while the command waits for a \<open>Pubrel\<close> without ending the wait.\<close>

definition passed_over :: "cli_world \<Rightarrow> pid \<Rightarrow> recv_error + PacketRx \<Rightarrow> bool" where
  "passed_over W q r \<longleftrightarrow> r = Inl RecvTimeout \<or> (\<exists>k. received W r = Some k \<and> k \<noteq> M_Pubrel q)"

lemma await_run:
  assumes "\<forall>i < length rs. cw_recv W (x_recv_pos x + i) = rs ! i" "\<forall>r \<in> set rs. passed_over W q r"
    and "received W (cw_recv W (x_recv_pos x + length rs)) = Some (M_Pubrel q)"
    and "m + count_list rs (Inl RecvTimeout) < 5" "x_tcp_read_rx x" "x_tcp_write_tx x = Some sent"
    and "\<And>i. cw_tx_ok W i" "fits_in W (send_size (cw_mqttrs W) (M_Pubrec q)) (M_Pubrec q)"
  shows "await_pubrel W q m x = Some (Inr (), x\<lparr>x_recv_pos := Suc (x_recv_pos x + length rs),
    x_tcp_write_tx := Some (sent @ replicate (count_list rs (Inl RecvTimeout)) (sent_as W (M_Pubrec q)))\<rparr>)"
  using assms(1-6)
proof (induction rs arbitrary: x m sent)
  case Nil
  then obtain a where "cw_recv W (x_recv_pos x) = Inr a" "decode_tcp_rx (cw_mqttrs W) a = Inr (M_Pubrel q)"
    by (auto simp: received_Some)
  with Nil await_packet [of W x a "x\<lparr>x_recv_pos := Suc (x_recv_pos x)\<rparr>" "M_Pubrel q" m q]
  show ?case by (simp add: tcp_recv_timeout_def)
next
  case (Cons r rs)
  let ?x1 = "x\<lparr>x_recv_pos := Suc (x_recv_pos x)\<rparr>"
  have r: "cw_recv W (x_recv_pos x) = r" "passed_over W q r"
    using Cons.prems(1) [rule_format, of 0] Cons.prems(2) by simp_all
  have rest: "\<forall>i < length rs. cw_recv W (x_recv_pos ?x1 + i) = rs ! i"
    using Cons.prems(1) [rule_format, of "Suc _"] by auto
  have recv: "tcp_recv_timeout W x = (r, ?x1)" using r(1) Cons.prems(5) by (simp add: tcp_recv_timeout_def)
  show ?case
  proof (cases "r = Inl RecvTimeout")
    case True
    let ?x2 = "?x1\<lparr>x_tcp_write_tx := Some (sent @ [sent_as W (M_Pubrec q)])\<rparr>"
    have "send_packet W (M_Pubrec q) ?x1 = (Inr (), ?x2)"
      using send_packet_fits [OF assms(8), of ?x1 sent] Cons.prems(6) assms(7) by simp
    then have "await_pubrel W q m x = await_pubrel W q (Suc m) ?x2"
      using await_timeout [of W x ?x1 q ?x2 m] recv True Cons.prems(4) by simp
    also have "\<dots> = Some (Inr (), ?x2\<lparr>x_recv_pos := Suc (x_recv_pos ?x2 + length rs), x_tcp_write_tx :=
        Some ((sent @ [sent_as W (M_Pubrec q)]) @ replicate (count_list rs (Inl RecvTimeout)) (sent_as W (M_Pubrec q)))\<rparr>)"
      by (rule Cons.IH) (use rest Cons.prems True in simp_all)
    finally show ?thesis using True by simp
  next
    case False
    then obtain a k where a: "r = Inr a" "decode_tcp_rx (cw_mqttrs W) a = Inr k" "k \<noteq> M_Pubrel q"
      using r(2) by (auto simp: passed_over_def received_Some)
    then have "await_pubrel W q m x = await_pubrel W q m ?x1"
      using await_packet [of W x a ?x1 k m q] recv Cons.prems(4) by simp
    also have "\<dots> = Some (Inr (), ?x1\<lparr>x_recv_pos := Suc (x_recv_pos ?x1 + length rs), x_tcp_write_tx :=
        Some (sent @ replicate (count_list rs (Inl RecvTimeout)) (sent_as W (M_Pubrec q)))\<rparr>)"
      by (rule Cons.IH) (use rest Cons.prems False in simp_all)
    finally show ?thesis using False by simp
  qed
qed

text \<open>
  What one turn of the loop takes from the channel when it does not end the command: one of
  the outcomes above; a \<open>Suback\<close> of the request with at most one code for each topic; or a publish
  of quality of service 2, anything but its \<open>Pubrel\<close>, with at most four silences in it, and
  then its \<open>Pubrel\<close>.
\<close>

inductive exchange :: "cli_world \<Rightarrow> string list \<Rightarrow> (recv_error + PacketRx) list \<Rightarrow> bool" for W topics where
  ex_plain: "plain W r \<Longrightarrow> exchange W topics [r]"
| ex_suback: "received W r = Some (M_Suback s) \<Longrightarrow> sa_pid s = pid_new (cw_mqttrs W) \<Longrightarrow>
    length (sa_return_codes s) \<le> length topics \<Longrightarrow> exchange W topics [r]"
| ex_qos2: "received W r = Some (M_Publish pub) \<Longrightarrow> mpub_qospid pub = QP_ExactlyOnce q \<Longrightarrow>
    (\<forall>r \<in> set rs. passed_over W q r) \<Longrightarrow> count_list rs (Inl RecvTimeout) \<le> 4 \<Longrightarrow>
    received W r' = Some (M_Pubrel q) \<Longrightarrow> exchange W topics (r # rs @ [r'])"

text \<open>What an exchange shows, answers and records.\<close>

definition ex_shown :: "cli_world \<Rightarrow> (recv_error + PacketRx) list \<Rightarrow> (string \<times> bytes) list" where
  "ex_shown W es = shown W (hd es)"

definition ex_acks :: "cli_world \<Rightarrow> (recv_error + PacketRx) list \<Rightarrow> PacketTx list" where
  "ex_acks W es =
     (case received W (hd es) of
        Some (M_Publish pub) \<Rightarrow>
          (case mpub_qospid pub of
             QP_ExactlyOnce q \<Rightarrow>
               replicate (Suc (count_list (tl es) (Inl RecvTimeout))) (sent_as W (M_Pubrec q)) @ [sent_as W (M_Pubcomp q)]
           | _ \<Rightarrow> acks W (hd es))
      | _ \<Rightarrow> [])"

definition ex_codes :: "cli_world \<Rightarrow> (recv_error + PacketRx) list \<Rightarrow> SubscribeReturnCodes list" where
  "ex_codes W es = (case received W (hd es) of Some (M_Suback s) \<Rightarrow> sa_return_codes s | _ \<Rightarrow> [])"

definition acks_fit :: "cli_world \<Rightarrow> bool" where
  "acks_fit W \<longleftrightarrow> (\<forall>p. fits_in W (puback_size W) (M_Puback p) \<and>
     fits_in W (send_size (cw_mqttrs W) (M_Pubrec p)) (M_Pubrec p) \<and>
     fits_in W (send_size (cw_mqttrs W) (M_Pubcomp p)) (M_Pubcomp p))"

lemma qos2_turn:
  assumes "received W r = Some (M_Publish pub)" "mpub_qospid pub = QP_ExactlyOnce q"
    and "\<forall>r \<in> set rs. passed_over W q r" "count_list rs (Inl RecvTimeout) \<le> 4" "received W r' = Some (M_Pubrel q)"
    and "\<forall>i < length (r # rs @ [r']). cw_recv W (x_recv_pos x + i) = (r # rs @ [r']) ! i"
    and "\<not> cancelled (cw_signals W (x_recv_pos x))" "x_tcp_read_rx x" "x_tcp_write_tx x = Some sent"
    and "\<And>i. cw_tx_ok W i" "acks_fit W"
  shows "sub_turn W p topics st x = Some (Sub_Again,
    st\<lparr>ss_shown := ss_shown st @ [(mpub_topic_name pub, mpub_payload pub)]\<rparr>,
    x\<lparr>x_recv_pos := x_recv_pos x + length (r # rs @ [r']), x_tcp_write_tx := Some (sent
      @ replicate (Suc (count_list rs (Inl RecvTimeout))) (sent_as W (M_Pubrec q)) @ [sent_as W (M_Pubcomp q)])\<rparr>)"
proof -
  let ?x1 = "x\<lparr>x_recv_pos := Suc (x_recv_pos x)\<rparr>"
  let ?x2 = "?x1\<lparr>x_tcp_write_tx := Some (sent @ [sent_as W (M_Pubrec q)])\<rparr>"
  let ?sent = "(sent @ [sent_as W (M_Pubrec q)]) @ replicate (count_list rs (Inl RecvTimeout)) (sent_as W (M_Pubrec q))"
  let ?x3 = "?x2\<lparr>x_recv_pos := Suc (x_recv_pos ?x2 + length rs), x_tcp_write_tx := Some ?sent\<rparr>"
  have at: "cw_recv W (x_recv_pos x) = r" "\<And>i. i < length rs \<Longrightarrow> cw_recv W (Suc (x_recv_pos x + i)) = rs ! i"
      "cw_recv W (Suc (x_recv_pos x + length rs)) = r'"
    using assms(6) [rule_format, of 0] assms(6) [rule_format, of "Suc _"]
      assms(6) [rule_format, of "Suc (length rs)"] by (auto simp: nth_append)
  obtain a where a: "r = Inr a" "decode_tcp_rx (cw_mqttrs W) a = Inr (M_Publish pub)"
    using assms(1) by (auto simp: received_Some)
  have "send_packet W (M_Pubrec q) ?x1 = (Inr (), ?x2)"
    using send_packet_fits [of W "M_Pubrec q" ?x1 sent] assms(9-11) by (simp add: acks_fit_def)
  moreover have "await_pubrel W q 0 ?x2 = Some (Inr (), ?x3)"
    by (rule await_run) (use at assms(3,4,5,8,10,11) in \<open>simp_all add: acks_fit_def\<close>)
  moreover have "send_packet W (M_Pubcomp q) ?x3 = (Inr (), ?x3\<lparr>x_tcp_write_tx := Some (?sent @ [sent_as W (M_Pubcomp q)])\<rparr>)"
    using send_packet_fits [of W "M_Pubcomp q" ?x3 ?sent] assms(10,11) by (simp add: acks_fit_def)
  ultimately have "acknowledge W (mpub_qospid pub) ?x1
      = Some (Inr (), ?x3\<lparr>x_tcp_write_tx := Some (?sent @ [sent_as W (M_Pubcomp q)])\<rparr>)"
    using assms(2) by (simp add: acknowledge_def receive_exactly_once_def)
  moreover have "tcp_recv_timeout W x = (Inr a, ?x1)" using at(1) a(1) assms(8) by (simp add: tcp_recv_timeout_def)
  ultimately show ?thesis using assms(7) a(2) by (simp add: sub_turn_def sub_packet_def Let_def)
qed

lemma exchange_turn:
  assumes "exchange W topics es" "\<forall>i < length es. cw_recv W (x_recv_pos x + i) = es ! i"
    and "\<not> cancelled (cw_signals W (x_recv_pos x))" "x_tcp_read_rx x" "x_tcp_write_tx x = Some sent"
    and "\<And>i. cw_tx_ok W i" "acks_fit W"
  shows "sub_turn W (pid_new (cw_mqttrs W)) topics st x = Some (Sub_Again,
    st\<lparr>ss_shown := ss_shown st @ ex_shown W es, ss_codes := ss_codes st @ ex_codes W es\<rparr>,
    x\<lparr>x_recv_pos := x_recv_pos x + length es, x_tcp_write_tx := Some (sent @ ex_acks W es)\<rparr>)"
  using assms(1)
proof cases
  case (ex_plain r)
  then have "cw_recv W (x_recv_pos x) = r" using assms(2) by simp
  moreover have "ex_acks W es = acks W r" "ex_codes W es = []"
    using ex_plain by (auto simp: ex_acks_def acks_def ex_codes_def plain_def
        split: option.splits mqttrs_Packet.splits QosPid.splits)
  ultimately show ?thesis
    using plain_turn [of W x sent "pid_new (cw_mqttrs W)" topics st] ex_plain assms(3-7)
    by (simp add: ex_shown_def acks_fit_def)
next
  case (ex_suback r s)
  then obtain a where a: "cw_recv W (x_recv_pos x) = Inr a" "decode_tcp_rx (cw_mqttrs W) a = Inr (M_Suback s)"
    using assms(2) by (auto simp: received_Some)
  have "ex_shown W es = []" "ex_acks W es = []" "ex_codes W es = sa_return_codes s" "length es = 1"
    using ex_suback by (simp_all add: ex_shown_def shown_def ex_acks_def ex_codes_def)
  then show ?thesis
    using a ex_suback(3,4) assms(3-5)
    by (cases x) (simp add: sub_turn_def tcp_recv_timeout_def sub_packet_def suback_codes_result)
next
  case (ex_qos2 r pub q rs r')
  have "\<forall>i < length (r # rs @ [r']). cw_recv W (x_recv_pos x + i) = (r # rs @ [r']) ! i"
    using assms(2) ex_qos2(1) by simp
  moreover have "count_list (rs @ [r']) (Inl RecvTimeout) = count_list rs (Inl RecvTimeout)"
    using ex_qos2(6) by (auto simp: received_Some)
  ultimately show ?thesis
    using qos2_turn [OF ex_qos2(2-6) _ assms(3-7)] ex_qos2(1-3)
    by (simp add: ex_shown_def shown_def ex_acks_def ex_codes_def)
qed

text \<open>A series of exchanges, then a signal.\<close>

lemma exchange_session:
  assumes "\<forall>i < length (concat ess). cw_recv W (x_recv_pos x + i) = concat ess ! i"
    and "\<forall>j < length ess. \<not> cancelled (cw_signals W (x_recv_pos x + length (concat (take j ess))))"
    and "\<forall>es \<in> set ess. exchange W topics es" "cancelled (cw_signals W (x_recv_pos x + length (concat ess)))"
    and "x_tcp_read_rx x" "x_tcp_write_tx x = Some sent" "\<And>i. cw_tx_ok W i" "acks_fit W"
  shows "sub_loop W (pid_new (cw_mqttrs W)) topics st x = Some (Inr (),
    st\<lparr>ss_shown := ss_shown st @ concat (map (ex_shown W) ess), ss_codes := ss_codes st @ concat (map (ex_codes W) ess)\<rparr>,
    x\<lparr>x_recv_pos := x_recv_pos x + length (concat ess), x_tcp_write_tx := Some (sent @ concat (map (ex_acks W) ess))\<rparr>)"
  using assms(1-6)
proof (induction ess arbitrary: x st sent)
  case Nil
  then show ?case by (subst sub_loop.simps) (simp add: sub_turn_def)
next
  case (Cons es ess)
  let ?st = "st\<lparr>ss_shown := ss_shown st @ ex_shown W es, ss_codes := ss_codes st @ ex_codes W es\<rparr>"
    and ?x = "x\<lparr>x_recv_pos := x_recv_pos x + length es, x_tcp_write_tx := Some (sent @ ex_acks W es)\<rparr>"
  have "\<forall>i < length es. cw_recv W (x_recv_pos x + i) = es ! i"
    using Cons.prems(1) by (auto simp: nth_append)
  moreover have "\<not> cancelled (cw_signals W (x_recv_pos x))" using Cons.prems(2) [rule_format, of 0] by simp
  ultimately have turn: "sub_turn W (pid_new (cw_mqttrs W)) topics st x = Some (Sub_Again, ?st, ?x)"
    using exchange_turn [of W topics es x sent st] Cons.prems(3,5,6) assms(7,8) by simp
  have "\<forall>i < length (concat ess). cw_recv W (x_recv_pos ?x + i) = concat ess ! i"
    using Cons.prems(1) [rule_format, of "length es + _"] by (simp add: add.assoc)
  moreover have "\<forall>j < length ess. \<not> cancelled (cw_signals W (x_recv_pos ?x + length (concat (take j ess))))"
    using Cons.prems(2) [rule_format, of "Suc _"] by (simp add: add.assoc)
  ultimately show ?case
    using Cons.IH [of ?x "sent @ ex_acks W es" ?st] Cons.prems(3-6)
    by (subst sub_loop.simps) (simp add: turn add.assoc)
qed

definition topics_size :: "string list \<Rightarrow> nat" where
  "topics_size topics = fold (\<lambda>op n. n + str_len op) topics 0"

definition subscribe_frame :: "cli_world \<Rightarrow> string list \<Rightarrow> PacketTx" where
  "subscribe_frame W topics = encoded W (size_of (cw_mqttrs W) T_Subscribe + topics_size topics)
     (M_Subscribe \<lparr>sub_pid = pid_new (cw_mqttrs W),
        sub_topics = map (\<lambda>t. \<lparr>mst_topic_path = t, mst_qos = AtMostOnce\<rparr>) topics\<rparr>)"

definition unsubscribe_frame :: "cli_world \<Rightarrow> string list \<Rightarrow> PacketTx" where
  "unsubscribe_frame W topics = encoded W (size_of (cw_mqttrs W) T_Unsubscribe + topics_size topics)
     (M_Unsubscribe \<lparr>unsub_pid = pid_new (cw_mqttrs W), unsub_topics = topics\<rparr>)"

text \<open>The codec has room for what a session on these topics sends.\<close>

definition session_fits :: "cli_world \<Rightarrow> string list \<Rightarrow> bool" where
  "session_fits W topics \<longleftrightarrow> acks_fit W \<and>
     fits_in W (size_of (cw_mqttrs W) T_Subscribe + topics_size topics)
       (M_Subscribe \<lparr>sub_pid = pid_new (cw_mqttrs W),
          sub_topics = map (\<lambda>t. \<lparr>mst_topic_path = t, mst_qos = AtMostOnce\<rparr>) topics\<rparr>) \<and>
     fits_in W (size_of (cw_mqttrs W) T_Unsubscribe + topics_size topics)
       (M_Unsubscribe \<lparr>unsub_pid = pid_new (cw_mqttrs W), unsub_topics = topics\<rparr>)"

lemma sub_finish_run:
  assumes "session_fits W topics" "x_tcp_write_tx x = Some sent" "\<And>i. cw_tx_ok W i" "x_tcp_read_rx x"
  shows "\<exists>r. sub_finish W (pid_new (cw_mqttrs W)) topics x = (r, x\<lparr>x_tcp_write_tx := Some (sent @ [unsubscribe_frame W topics]),
      x_recv_pos := Suc (x_recv_pos x)\<rparr>) \<and>
    (r = Inr RC_Ok \<longleftrightarrow> (\<exists>q. received W (cw_recv W (x_recv_pos x)) = Some (M_Unsuback q)))"
proof -
  let ?pkt = "M_Unsubscribe \<lparr>unsub_pid = pid_new (cw_mqttrs W), unsub_topics = topics\<rparr>"
    and ?n = "size_of (cw_mqttrs W) T_Unsubscribe + topics_size topics"
  let ?x1 = "x\<lparr>x_tcp_write_tx := Some (sent @ [unsubscribe_frame W topics])\<rparr>"
  obtain buf where buf: "encode_into (cw_mqttrs W) ?n ?pkt = Inr buf" "unsubscribe_frame W topics = Tx_Mqtt buf True"
    using assms(1) by (auto simp: session_fits_def fits_in_def unsubscribe_frame_def encoded_def)
  have send: "tcp_send W (Tx_Mqtt buf True) x = (Inr (), ?x1)"
    using assms(2,3) buf(2) by (simp add: tcp_send_def)
  have recv: "tcp_recv_timeout W ?x1 = (cw_recv W (x_recv_pos x), ?x1\<lparr>x_recv_pos := Suc (x_recv_pos x)\<rparr>)"
    using assms(4) by (simp add: tcp_recv_timeout_def)
  show ?thesis
    using buf(1) send recv
    by (auto simp: sub_finish_def topics_size_def [symmetric] Let_def lift_result_def bnd_def andthen_def err_into_def
        received_def split: sum.splits mqttrs_Packet.splits)
qed

lemma shown_first:
  assumes "\<forall>es \<in> set ess. exchange W topics es" "\<forall>es \<in> set ess. \<forall>r \<in> set (tl es). shown W r = []"
  shows "concat (map (ex_shown W) ess) = concat (map (shown W) (concat ess))"
  using assms
proof (induction ess)
  case (Cons es ess)
  then have "es \<noteq> []" by (auto elim: exchange.cases)
  then have "concat (map (shown W) es) = ex_shown W es"
    using Cons.prems(2) by (cases es) (simp_all add: ex_shown_def)
  with Cons show ?case by simp
qed simp

text \<open>C23: a session of \<open>subscribe\<close> that a signal ends after a series of exchanges: silences, packets that
  the loop ignores, publishes of quality of service 0 and 1, \<open>Suback\<close>s of the request with at
  most one code for each topic, and publishes of quality of service 2 whose \<open>Pubrel\<close> comes after
  at most four silences. (Not covered: a foreign or too long \<open>Suback\<close>, a lost connection, an
  exchange that fails.) The command shows the publish that opens each exchange, once and in order; it sends the
  request first, then for each exchange its \<open>Puback\<close>, or its \<open>Pubrec\<close> once and again for each
  silence and its \<open>Pubcomp\<close>, and last the \<open>Unsubscribe\<close> for the same topics; it records all codes.
  So every publish is shown unless one arrives in the middle of an exchange of quality of service
  2. It returns success exactly when the next packet is an \<open>Unsuback\<close>: a publish that is still
  under way turns it into an error.\<close>

theorem subscribe_session:
  assumes "session_fits W topics" "topics \<noteq> []" "cw_signals_new W" "\<forall>i. cw_tx_ok W i"
    and "x_tcp_read_rx x" "x_tcp_write_tx x = Some sent" "\<forall>es \<in> set ess. exchange W topics es"
    and "\<forall>i < length (concat ess). cw_recv W (x_recv_pos x + i) = concat ess ! i"
    and "\<forall>j < length ess. \<not> cancelled (cw_signals W (x_recv_pos x + length (concat (take j ess))))"
    and "cancelled (cw_signals W (x_recv_pos x + length (concat ess)))"
  shows "\<exists>r st x'. subscribe_run W topics x = Some (r, st, x') \<and>
    ss_shown st = concat (map (ex_shown W) ess) \<and> ss_codes st = concat (map (ex_codes W) ess) \<and>
    x_tcp_write_tx x' = Some (sent @ [subscribe_frame W topics] @ concat (map (ex_acks W) ess) @ [unsubscribe_frame W topics]) \<and>
    ((\<forall>es \<in> set ess. \<forall>r \<in> set (tl es). shown W r = []) \<longrightarrow> ss_shown st = concat (map (shown W) (concat ess))) \<and>
    (r = Inr RC_Ok \<longleftrightarrow> (\<exists>q. received W (cw_recv W (x_recv_pos x + length (concat ess))) = Some (M_Unsuback q)))"
proof -
  let ?x1 = "x\<lparr>x_tcp_write_tx := Some (sent @ [subscribe_frame W topics])\<rparr>"
  let ?sent = "(sent @ [subscribe_frame W topics]) @ concat (map (ex_acks W) ess)"
  let ?st = "\<lparr>ss_shown = concat (map (ex_shown W) ess), ss_codes = concat (map (ex_codes W) ess)\<rparr>"
  let ?x2 = "?x1\<lparr>x_recv_pos := x_recv_pos x + length (concat ess), x_tcp_write_tx := Some ?sent\<rparr>"
  have "sub_request W topics x = (Inr (), ?x1)"
    using assms(1,4,6) encode_send [of W "size_of (cw_mqttrs W) T_Subscribe + topics_size topics" _ x sent]
    by (simp add: sub_request_def session_fits_def subscribe_frame_def topics_size_def [symmetric] Let_def)
  moreover have "sub_loop W (pid_new (cw_mqttrs W)) topics \<lparr>ss_shown = [], ss_codes = []\<rparr> ?x1 = Some (Inr (), ?st, ?x2)"
    using exchange_session [of ess W ?x1 topics "sent @ [subscribe_frame W topics]"] assms by (simp add: session_fits_def)
  moreover obtain r where "sub_finish W (pid_new (cw_mqttrs W)) topics ?x2 =
      (r, ?x2\<lparr>x_tcp_write_tx := Some (?sent @ [unsubscribe_frame W topics]), x_recv_pos := Suc (x_recv_pos ?x2)\<rparr>)"
      "r = Inr RC_Ok \<longleftrightarrow> (\<exists>q. received W (cw_recv W (x_recv_pos x + length (concat ess))) = Some (M_Unsuback q))"
    using sub_finish_run [OF assms(1), of ?x2] assms(4,5) by auto
  ultimately show ?thesis
    using assms(2,3) shown_first [OF assms(7)] by (simp add: subscribe_run_def)
qed

subsection \<open>Packets that arrive at the wrong moment\<close>

text \<open>A publish that arrives while the command waits for the \<open>Pubrel\<close> of another one is lost: it is taken
  from the channel, but neither shown nor acknowledged.\<close>

theorem subscribe_loses_publish:
  assumes "x_tcp_read_rx x" "x_tcp_write_tx x = Some sent" "\<forall>i. cw_tx_ok W i" "\<not> cancelled (cw_signals W (x_recv_pos x))"
    and "\<forall>k \<in> {M_Pubrec p, M_Pubcomp p}. fits_in W (send_size (cw_mqttrs W) k) k"
    and "received W (cw_recv W (x_recv_pos x)) = Some (M_Publish pub)" "mpub_qospid pub = QP_ExactlyOnce p"
    and "received W (cw_recv W (Suc (x_recv_pos x))) = Some (M_Publish other)"
    and "received W (cw_recv W (Suc (Suc (x_recv_pos x)))) = Some (M_Pubrel p)"
  shows "sub_turn W q topics st x = Some (Sub_Again,
    st\<lparr>ss_shown := ss_shown st @ [(mpub_topic_name pub, mpub_payload pub)]\<rparr>,
    x\<lparr>x_recv_pos := x_recv_pos x + 3,
      x_tcp_write_tx := Some (sent @ [sent_as W (M_Pubrec p), sent_as W (M_Pubcomp p)])\<rparr>)"
proof -
  from assms(6,8,9) obtain a b c where abc:
      "cw_recv W (x_recv_pos x) = Inr a" "decode_tcp_rx (cw_mqttrs W) a = Inr (M_Publish pub)"
      "cw_recv W (Suc (x_recv_pos x)) = Inr b" "decode_tcp_rx (cw_mqttrs W) b = Inr (M_Publish other)"
      "cw_recv W (Suc (Suc (x_recv_pos x))) = Inr c" "decode_tcp_rx (cw_mqttrs W) c = Inr (M_Pubrel p)"
    by (auto simp: received_Some)
  let ?x1 = "x\<lparr>x_recv_pos := Suc (x_recv_pos x)\<rparr>"
  let ?x2 = "?x1\<lparr>x_tcp_write_tx := Some (sent @ [sent_as W (M_Pubrec p)])\<rparr>"
  let ?x3 = "?x2\<lparr>x_recv_pos := Suc (Suc (x_recv_pos x))\<rparr>" and ?x4 = "?x2\<lparr>x_recv_pos := Suc (Suc (Suc (x_recv_pos x)))\<rparr>"
  have "tcp_recv_timeout W ?x2 = (Inr b, ?x3)" "tcp_recv_timeout W ?x3 = (Inr c, ?x4)"
    using assms(1) abc by (simp_all add: tcp_recv_timeout_def)
  then have "await_pubrel W p 0 ?x2 = Some (Inr (), ?x4)"
    using await_packet [of W ?x2 b ?x3 _ 0 p] await_packet [of W ?x3 c ?x4 _ 0 p] abc(4,6) by simp
  moreover have "send_packet W (M_Pubrec p) ?x1 = (Inr (), ?x2)"
    using send_packet_fits [of W "M_Pubrec p" ?x1 sent] assms(2,3,5) by simp
  moreover have "send_packet W (M_Pubcomp p) ?x4
      = (Inr (), ?x4\<lparr>x_tcp_write_tx := Some ((sent @ [sent_as W (M_Pubrec p)]) @ [sent_as W (M_Pubcomp p)])\<rparr>)"
    using assms(3,5) by (intro send_packet_fits) auto
  ultimately have "acknowledge W (mpub_qospid pub) ?x1 = Some (Inr (), ?x1\<lparr>x_recv_pos := Suc (Suc (Suc (x_recv_pos x))),
      x_tcp_write_tx := Some (sent @ [sent_as W (M_Pubrec p), sent_as W (M_Pubcomp p)])\<rparr>)"
    using assms(7) by (simp add: acknowledge_def receive_exactly_once_def)
  moreover have "tcp_recv_timeout W x = (Inr a, ?x1)" using assms(1) abc(1) by (simp add: tcp_recv_timeout_def)
  ultimately show ?thesis
    using assms(4) abc(2) by (simp add: sub_turn_def sub_packet_def Let_def eval_nat_numeral)
qed

text \<open>How the command takes a \<open>Suback\<close>: with a foreign identifier it stops with an error; with more return
  codes than topics were asked for it panics, because it indexes its topics with the position of
  each code; otherwise it records the codes and goes on.\<close>

theorem subscribe_suback:
  assumes "x_tcp_read_rx x" "\<not> cancelled (cw_signals W (x_recv_pos x))"
    and "received W (cw_recv W (x_recv_pos x)) = Some (M_Suback suback)"
  shows "\<exists>e. sub_turn W p topics st x =
    Some (if sa_pid suback \<noteq> p then (Sub_Return (Inl (MQTTError e)), st, x\<lparr>x_recv_pos := Suc (x_recv_pos x)\<rparr>)
      else if length (sa_return_codes suback) > length topics
        then (Sub_Return (Inl Panic), st, x\<lparr>x_recv_pos := Suc (x_recv_pos x)\<rparr>)
      else (Sub_Again, st\<lparr>ss_codes := ss_codes st @ sa_return_codes suback\<rparr>, x\<lparr>x_recv_pos := Suc (x_recv_pos x)\<rparr>))"
  using assms
  by (auto simp: sub_turn_def tcp_recv_timeout_def received_Some sub_packet_def suback_codes_result)

subsection \<open>A broker to try it on\<close>

text \<open>The answers of a broker, then silence; every message is encoded as one byte.\<close>

definition demo_packets :: "mqttrs_Packet list" where
  "demo_packets =
     [M_Publish \<lparr>mpub_dup = False, mpub_qospid = QP_AtLeastOnce (Pid 7), mpub_retain = False,
        mpub_topic_name = ''t'', mpub_payload = [1]\<rparr>,
      M_Unsuback (Pid 1),
      M_Publish \<lparr>mpub_dup = False, mpub_qospid = QP_ExactlyOnce (Pid 8), mpub_retain = False,
        mpub_topic_name = ''t'', mpub_payload = [2]\<rparr>,
      M_Pubrel (Pid 8),
      M_Suback \<lparr>sa_pid = Pid 1, sa_return_codes = [Failure, Failure]\<rparr>]"

definition demo_api :: mqttrs_api where
  "demo_api =
     \<lparr>encode_slice = (\<lambda>p buf. Inr (0, buf)),
      decode_slice = (\<lambda>b. case b of [c] \<Rightarrow> Inr (if unat c < 5 then Some (demo_packets ! unat c) else None) | _ \<Rightarrow> Inr None),
      pid_new = Pid 1, size_of = (\<lambda>_. 0)\<rparr>"

definition demo_world :: "nat list \<Rightarrow> (nat \<Rightarrow> signal list) \<Rightarrow> cli_world" where
  "demo_world script sigs =
     (toy_world (\<lambda>i. if i < length script then Inr (Rx_Mqtt [of_nat (script ! i)]) else Inl RecvTimeout))
       \<lparr>cw_mqttrs := demo_api, cw_signals := sigs\<rparr>"

lemma demo_simps [simp]:
  "cw_tx_ok (demo_world script sigs) i" "cw_signals_new (demo_world script sigs)"
  "cw_signals (demo_world script sigs) = sigs" "fits_in (demo_world script sigs) n k"
  "cw_recv (demo_world script sigs) i = (if i < length script then Inr (Rx_Mqtt [of_nat (script ! i)]) else Inl RecvTimeout)"
  "x_tcp_read_rx toy_context" "x_tcp_write_tx toy_context = Some []" "x_recv_pos toy_context = 0"
  by (simp_all add: demo_world_def toy_world_def fits_in_def encode_into_def demo_api_def toy_context_def)

lemma demo_received:
  "n < 5 \<Longrightarrow> received (demo_world script sigs) (Inr (Rx_Mqtt [of_nat n])) = Some (demo_packets ! n)"
  by (simp add: received_def decode_tcp_rx_def demo_world_def demo_api_def unat_of_nat)

theorem subscribe_session_witness:
  "\<exists>r st x'. subscribe_run (demo_world [4, 0, 2, 3, 1] (\<lambda>i. if i = 4 then [SIGINT] else [])) [''t'', ''u''] toy_context
      = Some (r, st, x') \<and> r = Inr RC_Ok \<and> ss_shown st = [(''t'', [1]), (''t'', [2])] \<and> ss_codes st = [Failure, Failure]"
proof -
  let ?W = "demo_world [4, 0, 2, 3, 1] (\<lambda>i. if i = 4 then [SIGINT] else [])" and ?f = "\<lambda>n. Inr (Rx_Mqtt [of_nat n])"
  let ?ess = "[[?f 4], [?f 0], [?f 2, ?f 3]]"
  have r: "received ?W (?f n) = Some (demo_packets ! n)" if "n < 5" for n using demo_received [OF that] .
  have "exchange ?W [''t'', ''u''] [?f 4]"
    using r [of 4] by (intro ex_suback [of _ _ "\<lparr>sa_pid = Pid 1, sa_return_codes = [Failure, Failure]\<rparr>"])
      (simp_all add: demo_packets_def, simp add: demo_world_def demo_api_def)
  moreover have "exchange ?W [''t'', ''u''] [?f 0]"
    using r [of 0] by (intro ex_plain) (simp add: plain_def demo_packets_def)
  moreover have "exchange ?W [''t'', ''u''] (?f 2 # [] @ [?f 3])"
    using r [of 2] r [of 3] by (intro ex_qos2 [where pub = "\<lparr>mpub_dup = False, mpub_qospid = QP_ExactlyOnce (Pid 8),
        mpub_retain = False, mpub_topic_name = ''t'', mpub_payload = [2]\<rparr>" and q = "Pid 8"]) (simp_all add: demo_packets_def)
  moreover have "received ?W (cw_recv ?W 4) = Some (M_Unsuback (Pid 1))" using r [of 1] by (simp add: demo_packets_def)
  moreover have "ex_shown ?W [?f 4] = []" "ex_shown ?W [?f 0] = [(''t'', [1])]" "ex_shown ?W [?f 2, ?f 3] = [(''t'', [2])]"
      "ex_codes ?W [?f 4] = [Failure, Failure]" "ex_codes ?W [?f 0] = []" "ex_codes ?W [?f 2, ?f 3] = []"
    using r [of 4] r [of 0] r [of 2]
    by (simp_all add: ex_shown_def shown_def ex_codes_def demo_packets_def del: of_nat_numeral)
  ultimately show ?thesis
    using subscribe_session [of ?W "[''t'', ''u'']" toy_context "[]" ?ess]
    by (auto simp: session_fits_def acks_fit_def less_Suc_eq)
qed

theorem subscribe_loses_publish_witness:
  "\<exists>x'. sub_turn (demo_world [2, 0, 3] (\<lambda>_. [])) (Pid 1) [''t''] \<lparr>ss_shown = [], ss_codes = []\<rparr> toy_context
     = Some (Sub_Again, \<lparr>ss_shown = [(''t'', [2])], ss_codes = []\<rparr>, x') \<and> x_recv_pos x' = 3"
proof -
  let ?W = "demo_world [2, 0, 3] (\<lambda>_. [])"
  have r: "received ?W (cw_recv ?W 0) = Some (demo_packets ! 2)" "received ?W (cw_recv ?W (Suc 0)) = Some (demo_packets ! 0)"
      "received ?W (cw_recv ?W (Suc (Suc 0))) = Some (demo_packets ! 3)"
    using demo_received [of 2] demo_received [of 0] demo_received [of 3] by simp_all
  have k: "demo_packets ! 2 = M_Publish \<lparr>mpub_dup = False, mpub_qospid = QP_ExactlyOnce (Pid 8), mpub_retain = False,
        mpub_topic_name = ''t'', mpub_payload = [2]\<rparr>"
      "\<exists>pub. demo_packets ! 0 = M_Publish pub" "demo_packets ! 3 = M_Pubrel (Pid 8)"
    by (simp_all add: demo_packets_def)
  then obtain pub where "demo_packets ! 0 = M_Publish pub" by blast
  with subscribe_loses_publish [of toy_context "[]" ?W "Pid 8" _ pub "Pid 1" "[''t'']" "\<lparr>ss_shown = [], ss_codes = []\<rparr>"] r k
  show ?thesis by simp
qed

theorem subscribe_suback_witness:
  "sub_turn (demo_world [4] (\<lambda>_. [])) (Pid 1) [''t''] \<lparr>ss_shown = [], ss_codes = []\<rparr> toy_context
     = Some (Sub_Return (Inl Panic), \<lparr>ss_shown = [], ss_codes = []\<rparr>, toy_context\<lparr>x_recv_pos := 1\<rparr>)"
proof -
  have "received (demo_world [4] (\<lambda>_. [])) (cw_recv (demo_world [4] (\<lambda>_. [])) 0) = Some (demo_packets ! 4)"
    using demo_received [of 4] by simp
  then show ?thesis
    using subscribe_suback [of toy_context "demo_world [4] (\<lambda>_. [])" _ "Pid 1" "[''t'']" "\<lparr>ss_shown = [], ss_codes = []\<rparr>"]
    by (auto simp: demo_packets_def)
qed

theorem qos2_reception_witness:
  "\<exists>x'. receive_exactly_once (demo_world [3] (\<lambda>_. [])) (Pid 8) toy_context = Some (Inr (), x') \<and>
     pubrel_between (demo_world [3] (\<lambda>_. [])) (Pid 8) 0 (x_recv_pos x')"
proof -
  let ?W = "demo_world [3] (\<lambda>_. [])" and ?p = "Pid 8"
  let ?x1 = "toy_context\<lparr>x_tcp_write_tx := Some [sent_as ?W (M_Pubrec ?p)]\<rparr>"
  let ?x2 = "?x1\<lparr>x_recv_pos := 1\<rparr>"
  have "received ?W (cw_recv ?W 0) = Some (M_Pubrel ?p)"
    using demo_received [of 3] by (simp add: demo_packets_def)
  then have dec: "cw_recv ?W 0 = Inr (Rx_Mqtt [3])" "decode_tcp_rx (cw_mqttrs ?W) (Rx_Mqtt [3]) = Inr (M_Pubrel ?p)"
    by (auto simp: received_Some)
  have "tcp_recv_timeout ?W ?x1 = (Inr (Rx_Mqtt [3]), ?x2)"
    using dec by (simp add: tcp_recv_timeout_def del: demo_simps(5))
  then have "await_pubrel ?W ?p 0 ?x1 = Some (Inr (), ?x2)"
    using await_packet [of ?W ?x1 "Rx_Mqtt [3]" ?x2 _ 0 ?p] dec by simp
  moreover have "send_packet ?W (M_Pubrec ?p) toy_context = (Inr (), ?x1)"
    using send_packet_fits [of ?W "M_Pubrec ?p" toy_context "[]"] by simp
  moreover have "send_packet ?W (M_Pubcomp ?p) ?x2
      = (Inr (), ?x2\<lparr>x_tcp_write_tx := Some ([sent_as ?W (M_Pubrec ?p)] @ [sent_as ?W (M_Pubcomp ?p)])\<rparr>)"
    by (rule send_packet_fits) simp_all
  ultimately obtain x' where "receive_exactly_once ?W ?p toy_context = Some (Inr (), x')"
    by (simp add: receive_exactly_once_def)
  then show ?thesis using qos2_reception [of toy_context "[]" ?W ?p] by simp
qed

end
