(* ===== verification/Panic_Freedom.thy ===== *)
theory Panic_Freedom
  imports Shell_Properties Subscribe_Properties
begin

section \<open>Commands that the parser accepts do not panic\<close>

text \<open>
  The callbacks call \<open>unwrap\<close> on the arguments of flags and index vectors. A command that comes from the
  parser fits its specification, and then only one of these calls can fail: the index of the topics in
  \<open>subscribe\<close>.
\<close>

abbreviation calm :: "'a cop \<Rightarrow> bool" where
  "calm m \<equiv> keeps (\<lambda>_. True) (\<lambda>e. e \<noteq> Panic) m"

lemma calmI: "(\<And>x. fst (m x) \<noteq> Inl Panic) \<Longrightarrow> calm m"
  by (auto simp: keeps_def)

lemma calm_lift [keeps]: "r \<noteq> Inl Panic \<Longrightarrow> calm (lift_result r)"
  by (auto simp: keeps_def lift_result_def)

lemma calm_err_into [keeps]: "(\<And>e. f e \<noteq> Panic) \<Longrightarrow> calm (err_into f m)"
  by (auto intro!: calmI simp: err_into_def split: prod.splits) (metis Inl_Inr_False obj_sumE map_sum.simps sum.inject(1))

lemma calm_tcp_send [keeps]: "calm (tcp_send W k)"
  by (rule calmI) (simp add: tcp_send_def split: option.splits)

lemma calm_ka_send [keeps]: "calm (ka_send W k)"
  by (rule calmI) (simp add: ka_send_def split: option.splits)

lemma calm_modify [keeps]: "calm (modify f)"
  by (simp add: keeps_def)

lemma calm_get [keeps]: "calm (\<lambda>x. (Inr (f x), x))"
  by (simp add: keeps_def)

lemma calm_set_prompt [keeps]: "calm (set_prompt v)"
  unfolding set_prompt_def by (rule keeps)

lemma encode_calm [simp]: "encode_into X n k \<noteq> Inl Panic"
  by (auto simp: encode_into_def split: sum.splits)

lemma parse_uint_calm [simp]: "parse_uint w s \<noteq> Inl Panic"
  by (auto simp: parse_uint_def Let_def split: option.splits)

text \<open>A flag with a required argument can be read without a panic.\<close>

definition needs_arg :: "'cb spec_command \<Rightarrow> char \<Rightarrow> bool" where
  "needs_arg sp s \<longleftrightarrow> (\<forall>f \<in> sc_flags sp. id_short (sf_id f) = s \<longrightarrow> sf_arg f = SA_Required)"

lemma get_flag_required:
  assumes "wf_flags (sc_flags (c_spec c)) (c_flags c)" "iterates (cw_iter W)" "needs_arg (c_spec c) s" "get_flag W c s = Some f"
  shows "\<exists>v. cf_arg f = CA_Required v"
proof -
  have "finite (c_flags c)" using assms(1) by (simp add: wf_flags_def)
  then have "f \<in> c_flags c" "id_short (sf_id (cf_spec f)) = s"
    using assms(2,4) iterates_set [OF assms(2)] by (auto simp: get_flag_def cmd_query_def find_Some_iff dest: nth_mem)
  then have "sf_arg (cf_spec f) = SA_Required" "fits (sf_arg (cf_spec f)) (cf_arg f)"
    using assms(1,3) by (auto simp: wf_flags_def needs_arg_def)
  then show ?thesis by (cases "cf_arg f") auto
qed

lemma flag_value_calm:
  assumes "wf_flags (sc_flags (c_spec c)) (c_flags c)" "iterates (cw_iter W)" "needs_arg (c_spec c) s" "\<And>v. from_str v \<noteq> Inl Panic"
  shows "flag_value W c s from_str d \<noteq> Inl Panic"
proof (cases "get_flag W c s")
  case (Some f)
  from get_flag_required [OF assms(1-3) Some] obtain v where "cf_arg f = CA_Required v" by blast
  with Some assms(4) [of v] show ?thesis by (cases "from_str v") (auto simp: flag_value_def)
qed (simp add: flag_value_def)

subsection \<open>The callbacks\<close>

lemma calm_case_option [keeps]:
  "calm m \<Longrightarrow> (\<And>y. x = Some y \<Longrightarrow> calm (f y)) \<Longrightarrow> calm (case x of None \<Rightarrow> m | Some y \<Rightarrow> f y)"
  by (cases x) simp_all

lemma calm_case_packet:
  "(\<And>a. calm (f a)) \<Longrightarrow> calm m \<Longrightarrow>
     calm (case k of M_Connack a \<Rightarrow> f a | _ \<Rightarrow> m)"
  "(\<And>p. calm (g p)) \<Longrightarrow> calm m \<Longrightarrow> calm (case k of M_Unsuback p \<Rightarrow> g p | _ \<Rightarrow> m)"
  "calm n \<Longrightarrow> calm m \<Longrightarrow> calm (case k of M_Pingresp \<Rightarrow> n | _ \<Rightarrow> m)"
  by (cases k; simp)+

lemma decode_calm [simp]: "decode_tcp_rx X a \<noteq> Inl Panic"
  by (rule decode_no_panic)

lemma calm_has_cmd_tx [keeps]: "calm has_cmd_tx"
  by (rule calmI) (simp add: has_cmd_tx_def)

lemma calm_tolerate [keeps]: "calm m \<Longrightarrow> calm (tolerate q m)"
  by (rule calmI) (auto simp: tolerate_def keeps_def split: prod.splits sum.splits, metis fst_conv)

lemma calm_toggle_debug: "calm (toggle_debug c)"
  unfolding toggle_debug_def by (intro keeps)

lemma calm_exit: "calm (exit c)"
  unfolding exit_def by (rule keeps)

lemma calm_connack: "calm (connack W c)"
  unfolding connack_def Let_def by (intro keeps) simp_all

lemma calm_ping: "calm (ping W c)"
  unfolding ping_def Let_def by (intro keeps calm_case_packet) simp_all

lemma calm_unsubscribe: "calm (unsubscribe W c)"
  unfolding unsubscribe_def Let_def by (intro keeps calm_case_packet) simp_all

text \<open>What \<open>disconnect\<close> does unless there is nothing to do.\<close>

definition leave :: "cli_world \<Rightarrow> bool \<Rightarrow> return_code cop" where
  "leave W cleanup =
     andthen
       (if \<not> cleanup then
          bnd (lift_result (encode_into (cw_mqttrs W) 2 M_Disconnect)) (\<lambda>buf. tcp_send W (Tx_Mqtt buf False))
        else ok ())
     (andthen (tolerate cleanup (ka_send W Kill))
     (andthen (modify (\<lambda>x. x\<lparr>x_keep_alive_tx := None\<rparr>))
     (andthen (tolerate cleanup (\<lambda>x. if x_tcp_write_tx x = None then ok () x else tcp_send W Tx_Close x))
     (andthen (modify (\<lambda>x. x\<lparr>x_tcp_write_tx := None, x_tcp_read_rx := False\<rparr>))
     (bnd (\<lambda>x. (Inr x, x)) (\<lambda>context.
        andthen (set_prompt (SV_String (x_prompt_string context))) (ok RC_Ok)))))))"

lemma disconnect_leave:
  "disconnect W c x =
     (if get_flag W c (CHR ''c'') = None \<and> x_tcp_write_tx x = None then (Inr RC_Ok, x)
      else leave W (get_flag W c (CHR ''c'') \<noteq> None) x)"
  unfolding disconnect_def leave_def Let_def by (simp only: not_not)

lemma calm_leave: "calm (leave W q)"
proof -
  have "calm (\<lambda>x. if x_tcp_write_tx x = None then ok () x else tcp_send W Tx_Close x)"
    by (rule calmI) (simp add: tcp_send_def split: option.splits)
  then show ?thesis unfolding leave_def by (intro keeps) simp_all
qed

lemma calm_disconnect: "calm (disconnect W c)"
  by (rule calmI) (use calm_leave in \<open>auto simp: disconnect_leave keeps_def\<close>)

lemma needs_arg_connect:
  "s \<in> set ''khpqtwu'' \<Longrightarrow> needs_arg spec_connect s"
  by (auto simp: needs_arg_def spec_connect_def builder_defs flagset_insert_def
      spec_flag_eq_def spec_flag_new_def)

lemma needs_arg_publish: "needs_arg spec_publish (CHR ''q'')"
  by (auto simp: needs_arg_def spec_publish_def builder_defs flagset_insert_def
      spec_flag_eq_def spec_flag_new_def)

lemma connect_last_will_calm [simp]: "connect_last_will w t q r \<noteq> Inl Panic"
  by (auto simp: connect_last_will_def split: option.splits)

lemma calm_spawn_keep_alive [keeps]: "calm (spawn_keep_alive W k)"
  unfolding spawn_keep_alive_def by (intro keeps) simp_all

lemma calm_handshake [keeps]: "calm (connect_handshake_with W h p buf)"
proof -
  have "calm (\<lambda>x. if cw_connect W h p then (Inr (), x\<lparr>x_tcp_write_tx := Some [], x_tcp_read_rx := True\<rparr>) else (Inl IoError, x))"
    by (rule calmI) simp
  then show ?thesis unfolding connect_handshake_with_def by (intro keeps calm_case_packet) simp_all
qed

lemma calm_connect:
  assumes "wf_flags (sc_flags (c_spec c)) (c_flags c)" "iterates (cw_iter W)" "c_spec c = spec_connect"
  shows "calm (connect W c)"
proof -
  note need = needs_arg_connect [folded assms(3)]
  have fv: "flag_value W c s from_str d \<noteq> Inl Panic" if "s \<in> set ''khpqtwu''" "\<And>v. from_str v \<noteq> Inl Panic"
    for s d and from_str :: "string \<Rightarrow> cli_error + 'z"
    using flag_value_calm [OF assms(1,2) need [OF that(1)] that(2)] .
  have will: "(case get_flag W c (CHR ''w'') of Some flag \<Rightarrow> arg_get_as Inr (cf_arg flag) | None \<Rightarrow> Inr None) \<noteq> Inl Panic"
    using get_flag_required [OF assms(1,2) need, of "CHR ''w''"] by (auto split: option.splits)
  have user: "calm (case get_flag W c (CHR ''u'') of
            Some f \<Rightarrow>
              (case arg_get_as Inr (cf_arg f) of
                 Inr (Some cid) \<Rightarrow> andthen (modify (\<lambda>x. x\<lparr>x_client_id := cid\<rparr>)) (ok cid)
               | Inl Panic \<Rightarrow> fail Panic
               | _ \<Rightarrow> ok d)
          | None \<Rightarrow> ok d)" for d
    using get_flag_required [OF assms(1,2) need, of "CHR ''u''"]
    by (auto split: option.splits intro!: keeps_andthen keeps_ok calm_modify)
  show ?thesis
    unfolding connect_def
    by (intro keeps fv will user) simp_all
qed

definition ascii_shorts :: "'cb spec_command \<Rightarrow> bool" where
  "ascii_shorts sp \<longleftrightarrow> (\<forall>f \<in> sc_flags sp. is_ascii (id_short (sf_id f)))"

lemma ascii_flags_help:
  assumes "finite (sc_flags c)" "iterates it" "ascii_shorts c"
  shows "command_help cmp it c \<noteq> Inl Panic"
proof -
  have "get_flags_help cmp it c ''  '' \<noteq> Inl Panic" using flags_help_rows [OF assms(1,2)] assms(3) by (auto simp: ascii_shorts_def)
  then show ?thesis by (cases "get_flags_help cmp it c ''  ''") (auto simp: command_help_def Let_def)
qed

lemma ascii_shorts_simps [simp]:
  "ascii_shorts (command_build n b)" "ascii_shorts (command_text d u sp) \<longleftrightarrow> ascii_shorts sp"
  by (simp_all add: ascii_shorts_def command_build_def command_text_def set_description_def set_usage_def)

lemma ascii_shorts_add_flag [simp]:
  "is_ascii s \<Longrightarrow> ascii_shorts sp \<Longrightarrow> ascii_shorts (add_flag n s a h sp)"
  by (auto simp: ascii_shorts_def add_flag_def flagset_insert_def spec_flag_new_def)

lemma builtin_shorts_ascii: "sp \<in> set builtin_specs \<Longrightarrow> ascii_shorts sp"
  by (auto simp: builtin_specs_def spec_connect_def spec_connack_def spec_disconnect_def spec_exit_def
      spec_help_def spec_ping_def spec_publish_def spec_subscribe_def spec_unsubscribe_def spec_toggle_debug_def is_ascii_def)

lemma command_set_builtin: "command_set name = Some sp \<Longrightarrow> sp \<in> set builtin_specs"
  by (auto simp: command_set_def dest!: map_of_SomeD)

lemma calm_help:
  assumes "sh_commands sh = command_set" "iterates it" "iterates (cw_names W)"
  shows "calm (help_callback W it sh c)"
proof (cases "c_operands c")
  case Nil
  have "finite (dom (get_enabled_commands sh))" using assms(1) finite_enabled finite_command_set by metis
  then obtain out where "shell_help (cw_cmp W) (cw_names W) sh = Inr out" using shell_help_rows [OF _ assms(3)] by blast
  with Nil show ?thesis by (auto simp: help_callback_def intro!: keeps)
next
  case (Cons name rest)
  have "command_help (cw_cmp W) it sp \<noteq> Inl Panic" if "find_command_spec sh name = Some sp" for sp
  proof -
    from that have "sp \<in> set builtin_specs"
      using assms(1) command_set_builtin by (auto simp: find_command_spec_def get_enabled_commands_def split: option.splits if_splits)
    then show ?thesis using builtin_distinguishable builtin_shorts_ascii by (intro ascii_flags_help assms(2)) auto
  qed
  with Cons show ?thesis by (auto simp: help_callback_def intro!: keeps split: option.splits)
qed

lemma qos1_calm:
  assumes "publish_at_least_once W p n pkt x = Some y"
  shows "fst y \<noteq> Inl Panic"
proof (rule publish_at_least_once.raw_induct [of "\<lambda>W p n pkt x y. fst y \<noteq> Inl Panic" "((((W, p), n), pkt), x)" y, unfolded prod.case])
  fix f :: "cli_world \<Rightarrow> pid \<Rightarrow> nat \<Rightarrow> mqttrs_Packet \<Rightarrow> MqttContext \<Rightarrow> ((cli_error + bool) \<times> MqttContext) option"
    and W p n pkt x y
  assume IH: "\<And>W p n pkt x y. f W p n pkt x = Some y \<Longrightarrow> fst y \<noteq> Inl Panic"
    and eq: "(case tcp_recv_timeout W x of
        (Inr rx_pkt, x1) \<Rightarrow>
          (case decode_tcp_rx (cw_mqttrs W) rx_pkt of
             Inl e \<Rightarrow> Some (Inl e, x1)
           | Inr rx \<Rightarrow> if rx = M_Puback p then Some (Inr True, x1) else f W p n pkt x1)
      | (Inl _, x1) \<Rightarrow>
          if n \<ge> MAX_RETRIES then Some (Inr False, x1)
          else
            (case send_packet W (mark_dup pkt) x1 of
               (Inl e, x2) \<Rightarrow> Some (Inl e, x2)
             | (Inr _, x2) \<Rightarrow> f W p (n + 1) (mark_dup pkt) x2)) = Some y"
  obtain r1 x1 where recv: "tcp_recv_timeout W x = (r1, x1)" by fastforce
  show "fst y \<noteq> Inl Panic"
  proof (cases r1)
    case (Inl e)
    obtain r2 x2 where send: "send_packet W (mark_dup pkt) x1 = (r2, x2)" by fastforce
    from eq recv Inl send send_packet_rest(1) [OF send] IH show ?thesis by (auto split: if_splits sum.splits)
  next
    case (Inr a)
    from eq recv Inr decode_calm [of "cw_mqttrs W" a] IH show ?thesis by (auto split: if_splits sum.splits)
  qed
qed (rule assms)

lemma publish_calm:
  assumes "wf_flags (sc_flags (c_spec c)) (c_flags c)" "iterates (cw_iter W)" "c_spec c = spec_publish"
    and "publish W c x = Some (r, x')"
  shows "r \<noteq> Inl Panic"
proof -
  have fv: "flag_value W c (CHR ''q'') (parse_uint 8) 0 \<noteq> Inl Panic"
    by (rule flag_value_calm [OF assms(1,2)]) (simp_all add: assms(3) needs_arg_publish)
  have send: "send_packet W k x \<noteq> (Inl Panic, x1)" for k x1
    using send_packet_rest(1) [of W k x "Inl Panic" x1] by blast
  have map: "map_sum id f a = Inl Panic \<longleftrightarrow> a = Inl Panic" for f :: "bool \<Rightarrow> return_code" and a
    by (cases a) simp_all
  show ?thesis
    using assms(4) fv send
    by (auto simp: publish_def Let_def map split: sum.splits list.splits prod.splits QoS.splits dest!: qos1_calm)
qed

subsection \<open>The one panic of \<open>subscribe\<close>\<close>

lemma receive_calm:
  assumes "receive_exactly_once W p x = Some (r, x')"
  shows "r \<noteq> Inl Panic"
proof -
  obtain r1 x1 where send: "send_packet W (M_Pubrec p) x = (r1, x1)" by fastforce
  note s1 = send_packet_rest(1) [OF send]
  show ?thesis
  proof (cases r1)
    case (Inl e)
    with assms send s1 show ?thesis by (auto simp: receive_exactly_once_def)
  next
    case (Inr u)
    then obtain sent where w: "x_tcp_write_tx x1 = Some sent"
      using send by (auto simp: send_packet_def bnd_def lift_result_def err_into_def tcp_send_def
          split: sum.splits option.splits if_splits)
    obtain r2 x2 where y: "await_pubrel W p 0 x1 = Some (r2, x2)"
      using assms send Inr by (auto simp: receive_exactly_once_def split: option.splits)
    have "r2 \<noteq> Inl Panic" using await_pubrel_ok [OF y] w by (auto simp: await_ok_def)
    moreover obtain r3 x3 where "send_packet W (M_Pubcomp p) x2 = (r3, x3)" by fastforce
    moreover note send_packet_rest(1) [OF this]
    ultimately show ?thesis using assms send Inr y by (auto simp: receive_exactly_once_def split: sum.splits)
  qed
qed

lemma acknowledge_calm:
  assumes "acknowledge W q x = Some (r, x')"
  shows "r \<noteq> Inl Panic"
proof (cases q)
  case (QP_AtLeastOnce p)
  let ?m = "bnd (lift_result (encode_into (cw_mqttrs W)
                 (size_of (cw_mqttrs W) T_mqttrs_Packet + size_of (cw_mqttrs W) T_Pid) (M_Puback p)))
               (\<lambda>buf. err_into (\<lambda>_. Message ''Cannot puback without being connected to broker.'')
                  (tcp_send W (Tx_Mqtt buf True)))"
  have "calm ?m" by (intro keeps) simp_all
  moreover have "?m x = (r, x')" using assms QP_AtLeastOnce by (simp add: acknowledge_def)
  ultimately show ?thesis unfolding keeps_def by (metis fst_conv)
qed (use assms receive_calm in \<open>auto simp: acknowledge_def\<close>)

text \<open>A \<open>Suback\<close> with more return codes than there are topics.\<close>

definition long_suback :: "cli_world \<Rightarrow> nat \<Rightarrow> bool" where
  "long_suback W n \<longleftrightarrow> (\<exists>i suback. received W (cw_recv W i) = Some (M_Suback suback) \<and> n < length (sa_return_codes suback))"

lemma sub_turn_calm:
  assumes "sub_turn W p topics st x = Some (Sub_Return (Inl Panic), st', x')"
  shows "long_suback W (length topics)"
proof -
  obtain r x1 where recv: "tcp_recv_timeout W x = (r, x1)" by fastforce
  with assms obtain a where a: "r = Inr a" "sub_packet W p topics a st x1 = Some (Sub_Return (Inl Panic), st', x')"
    by (auto simp: sub_turn_def split: if_splits sum.splits recv_error.splits)
  then obtain suback where "decode_tcp_rx (cw_mqttrs W) a = Inr (M_Suback suback)"
      "length topics < length (sa_return_codes suback)"
    by (auto simp: sub_packet_def Let_def suback_codes_result split: sum.splits mqttrs_Packet.splits option.splits if_splits
        dest!: acknowledge_calm)
  moreover have "cw_recv W (x_recv_pos x) = Inr a" using recv a(1) recv_cases [OF recv] by auto
  ultimately show ?thesis unfolding long_suback_def received_Some by blast
qed

lemma sub_loop_calm:
  assumes "sub_loop W p topics st x = Some y"
  shows "fst y = Inl (Inl Panic) \<longrightarrow> long_suback W (length topics)"
proof (rule sub_loop.raw_induct [of "\<lambda>W p topics st x y. fst y = Inl (Inl Panic) \<longrightarrow> long_suback W (length topics)"
      "((((W, p), topics), st), x)" y, unfolded prod.case])
  fix f :: "cli_world \<Rightarrow> pid \<Rightarrow> string list \<Rightarrow> sub_state \<Rightarrow> MqttContext \<Rightarrow>
      (((cli_error + return_code) + unit) \<times> sub_state \<times> MqttContext) option"
    and W p topics st x y
  assume IH: "\<And>W p topics st x y. f W p topics st x = Some y \<Longrightarrow> fst y = Inl (Inl Panic) \<longrightarrow> long_suback W (length topics)"
    and eq: "(case sub_turn W p topics st x of
        None \<Rightarrow> None
      | Some (Sub_Cancelled, st', x') \<Rightarrow> Some (Inr (), st', x')
      | Some (Sub_Return r, st', x') \<Rightarrow> Some (Inl r, st', x')
      | Some (Sub_Again, st', x') \<Rightarrow> f W p topics st' x') = Some y"
  then obtain res st' x' where turn: "sub_turn W p topics st x = Some (res, st', x')"
    by (cases "sub_turn W p topics st x") auto
  show "fst y = Inl (Inl Panic) \<longrightarrow> long_suback W (length topics)"
  proof (cases res)
    case (Sub_Return r)
    with eq turn sub_turn_calm [of W p topics st x] show ?thesis by auto
  qed (use eq turn IH in auto)
qed (rule assms)

lemma subscribe_calm:
  assumes "subscribe W c x = Some (Inl Panic, x')"
  shows "long_suback W (length (c_operands c))"
proof -
  let ?t = "c_operands c" and ?p = "pid_new (cw_mqttrs W)"
  obtain st where run: "subscribe_run W ?t x = Some (Inl Panic, st, x')"
    using assms by (auto simp: subscribe_def)
  have "calm (sub_request W ?t)" "calm (sub_finish W ?p ?t)"
    unfolding sub_request_def sub_finish_def Let_def by (intro keeps calm_case_packet; simp)+
  then have io: "sub_request W ?t x \<noteq> (Inl Panic, x1)" "sub_finish W ?p ?t y \<noteq> (Inl Panic, x1)" for x1 y
    unfolding keeps_def by (metis fst_conv)+
  from run obtain x1 st2 x2 where "sub_loop W ?p ?t \<lparr>ss_shown = [], ss_codes = []\<rparr> x1 = Some (Inl (Inl Panic), st2, x2)"
    using io by (auto simp: subscribe_run_def Let_def split: if_splits sum.splits option.splits prod.splits)
  from sub_loop_calm [OF this] show ?thesis by simp
qed

text \<open>C16: commands that come from the parser do not go wrong. When a turn of the shell panics, the command was
  \<open>subscribe\<close>, and a broker has sent a \<open>Suback\<close> with more return codes than topics were given; no other command
  panics, whatever its flags and operands: the arguments its flags must have are there, and help texts
  are laid out without underflow.\<close>

theorem commands_do_not_panic:
  assumes "sh_commands sh = command_set" "iterates it" "iterates (cw_iter W)" "iterates (cw_names W)"
    and "shell_turn W it input (sh, x) = Some (T_Panic, sh', x')"
  shows "\<exists>c. parse it sh' input = Inr (Some c) \<and> sc_callback (c_spec c) = B_subscribe \<and>
    long_suback W (length (c_operands c))"
proof -
  let ?sh = "update_enable_set (\<lambda>c. enabled x (sc_callback c)) sh"
  have cmds: "sh_commands ?sh = command_set" using assms(1) by (simp add: update_enable_set_def)
  have fin: "\<forall>name sp. sh_commands ?sh name = Some sp \<longrightarrow> finite (sc_flags sp)"
    using command_set_builtin builtin_distinguishable unfolding cmds by blast
  note parsed = parse_result_wf [OF assms(2) fin, of input]
  from assms(5) obtain r where r: "parse_and_execute W it ?sh input x = Some (r, x')" "turn_of r = T_Panic" "sh' = ?sh"
    by (auto simp: shell_turn_def Let_def)
  then have panic: "r = Inl Panic" by (cases r rule: turn_of.cases) auto
  obtain c where c: "parse it ?sh input = Inr (Some c)" "execute W it ?sh c x = Some (Inl Panic, x')"
    using r(1) parsed panic by (auto simp: parse_and_execute_def split: sum.splits option.splits)
  then have wf: "wf_flags (sc_flags (c_spec c)) (c_flags c)" using parsed by simp
  have "c_spec c \<in> set builtin_specs"
    using parse_enabled(2) [OF c(1)] assms(1) command_set_builtin by metis
  then have specs: "sc_callback (c_spec c) = B_connect \<Longrightarrow> c_spec c = spec_connect"
      "sc_callback (c_spec c) = B_publish \<Longrightarrow> c_spec c = spec_publish"
    by (auto simp: builtin_specs_def spec_connack_def spec_disconnect_def spec_exit_def spec_connect_def spec_publish_def
        spec_help_def spec_ping_def spec_subscribe_def spec_unsubscribe_def spec_toggle_debug_def builder_defs)
  have calm: "calm m \<Longrightarrow> m x \<noteq> (Inl Panic, x')" for m :: "return_code cop" unfolding keeps_def by (metis fst_conv)
  have publish: "sc_callback (c_spec c) = B_publish \<Longrightarrow> publish W c x \<noteq> Some (Inl Panic, x')"
    using publish_calm [OF wf assms(3)] specs(2) by blast
  have "sc_callback (c_spec c) = B_subscribe"
    using c(2) calm [OF calm_help [OF cmds assms(2,4), of c]] calm [OF calm_exit] calm [OF calm_connect [OF wf assms(3)]]
      calm [OF calm_connack] calm [OF calm_disconnect] calm [OF calm_ping] calm [OF calm_unsubscribe]
      calm [OF calm_toggle_debug] publish specs(1)
    by (auto simp: execute_def split: builtin.splits)
  with c(2) have "subscribe W c x = Some (Inl Panic, x')" by (simp add: execute_def)
  with subscribe_calm c(1) \<open>sc_callback (c_spec c) = B_subscribe\<close> r(3) show ?thesis by blast
qed

theorem commands_do_not_panic_witness:
  "\<exists>it sh' x'. shell_turn ((demo_world [4] (\<lambda>_. []))\<lparr>cw_iter := it\<rparr>) flag_order ''subscribe t'' (main_shell, toy_context)
       = Some (T_Panic, sh', x') \<and> long_suback ((demo_world [4] (\<lambda>_. []))\<lparr>cw_iter := it\<rparr>) 1"
proof -
  obtain it :: "cmd_flag set \<Rightarrow> cmd_flag list" where it: "iterates it" using ex_iterates by blast
  let ?W = "(demo_world [4] (\<lambda>_. []))\<lparr>cw_iter := it\<rparr>"
  let ?sh = "update_enable_set (\<lambda>c. enabled toy_context (sc_callback c)) main_shell"
  have names: "iterates (cw_names ?W)" by (simp add: demo_world_def toy_world_def iterates_name_order)
  have sub: "command_set ''subscribe'' = Some spec_subscribe" "sc_callback spec_subscribe = B_subscribe"
    by (simp_all add: command_set_def builtin_specs_def spec_connect_def spec_connack_def spec_disconnect_def spec_exit_def
        spec_help_def spec_ping_def spec_publish_def spec_subscribe_def builder_defs)
  have find: "find_command_spec ?sh ''subscribe'' = Some spec_subscribe"
    using sub by (simp add: find_command_spec_def get_enabled_commands_def update_enable_set_def)
  have parse: "parse flag_order ?sh ''subscribe t'' = Inr (Some \<lparr>c_spec = spec_subscribe, c_flags = {}, c_operands = [''t'']\<rparr>)"
    by (simp add: parse_def find try_into_args_def is_blank_def is_short_def starts_with_def)
  have dec: "received ?W (cw_recv ?W 0) = Some (M_Suback \<lparr>sa_pid = Pid 1, sa_return_codes = [Failure, Failure]\<rparr>)"
    by (simp add: received_def decode_tcp_rx_def demo_world_def toy_world_def demo_api_def demo_packets_def)
  obtain buf where "sub_request ?W [''t''] toy_context = (Inr (), toy_context\<lparr>x_tcp_write_tx := Some [Tx_Mqtt buf True]\<rparr>)"
    by (simp add: sub_request_def Let_def lift_result_def bnd_def err_into_def tcp_send_def encode_into_def demo_world_def
        toy_world_def demo_api_def toy_context_def)
  then have "subscribe_run ?W [''t''] toy_context = Some (Inl Panic, \<lparr>ss_shown = [], ss_codes = []\<rparr>,
      toy_context\<lparr>x_tcp_write_tx := Some [Tx_Mqtt buf True], x_recv_pos := 1\<rparr>)"
    using dec
    by (simp add: subscribe_run_def Let_def demo_world_def toy_world_def)
      (subst sub_loop.simps, simp add: sub_turn_def tcp_recv_timeout_def toy_context_def received_Some sub_packet_def
        demo_api_def decode_tcp_rx_def)
  then have turn: "shell_turn ?W flag_order ''subscribe t'' (main_shell, toy_context) = Some (T_Panic, ?sh,
      toy_context\<lparr>x_tcp_write_tx := Some [Tx_Mqtt buf True], x_recv_pos := 1\<rparr>)"
    by (simp add: shell_turn_def Let_def parse_and_execute_def parse execute_def sub subscribe_def)
  with commands_do_not_panic [OF main_shell_commands iterates_flag_order _ names turn] it parse
  show ?thesis by (intro exI [of _ it]) auto
qed

end
