(* ===== verification/Wire_Properties.thy ===== *)
theory Wire_Properties
  imports Broker_Main Panic_Freedom
begin

section \<open>Packets on the wire\<close>

text \<open>
  TCP does not keep the boundaries between packets: what was written in two calls may arrive in one
  read. Both crates take one read for one packet. The stream is cut into reads here, each a group of whole
  packets with their bytes. What is relied on is that the crate \<open>mqttrs\<close> decodes the first packet of a buffer whatever
  follows it, and that \<open>clone_packet\<close> copies a prefix of its input.
\<close>

definition decodes_first :: "mqttrs_api \<Rightarrow> bool" where
  "decodes_first X \<longleftrightarrow>
     (\<forall>b p rest. decode_slice X b = Inr (Some p) \<longrightarrow> decode_slice X (b @ rest) = Inr (Some p))"

definition clones_prefix :: "mqttrs_api \<Rightarrow> (bytes \<Rightarrow> bytes \<Rightarrow> string + nat \<times> bytes) \<Rightarrow> bool" where
  "clones_prefix X cp \<longleftrightarrow>
     (\<forall>i out p. decode_slice X i = Inr (Some p) \<and> length i \<le> length out \<longrightarrow>
        (\<exists>n \<le> length i. cp i out = Inr (n, take n i @ drop n out)))"

type_synonym packet_group = "(bytes \<times> mqttrs_Packet) list"

definition group_bytes :: "packet_group \<Rightarrow> bytes" where
  "group_bytes g = concat (map fst g)"

definition wf_group :: "mqttrs_api \<Rightarrow> packet_group \<Rightarrow> bool" where
  "wf_group X g \<longleftrightarrow> g \<noteq> [] \<and> (\<forall>(b, p) \<in> set g. b \<noteq> [] \<and> decode_slice X b = Inr (Some p))"

lemma group_decodes:
  assumes "decodes_first X" "wf_group X g"
  shows "decode_slice X (group_bytes g) = Inr (Some (snd (hd g)))" "group_bytes g \<noteq> []"
    "decode_slice X (fst (hd g)) = Inr (Some (snd (hd g)))"
proof -
  obtain b p rest where g: "g = (b, p) # rest" using assms(2) by (cases g) (auto simp: wf_group_def)
  then have "decode_slice X b = Inr (Some p)" "b \<noteq> []" using assms(2) by (auto simp: wf_group_def)
  with assms(1) g show "decode_slice X (group_bytes g) = Inr (Some (snd (hd g)))" "group_bytes g \<noteq> []"
    "decode_slice X (fst (hd g)) = Inr (Some (snd (hd g)))"
    by (simp_all add: decodes_first_def group_bytes_def)
qed

subsection \<open>The client\<close>

text \<open>Copying a packet onto a copy of the bytes it comes from changes nothing: all that was read is handed on.\<close>

lemma read_into_buf_all:
  assumes "clones_prefix X cp" "decode_slice X b = Inr (Some p)"
  shows "read_into_buf cp (Inr b) = Inr b"
proof -
  obtain n where "cp b b = Inr (n, take n b @ drop n b)" using assms unfolding clones_prefix_def by blast
  then show ?thesis by (simp add: read_into_buf_def)
qed

definition client_reads :: "(bytes \<Rightarrow> bytes \<Rightarrow> string + nat \<times> bytes) \<Rightarrow> packet_group list \<Rightarrow> (read_result \<times> PacketTx list) list" where
  "client_reads cp gs = map (\<lambda>g. (read_result_of (read_into_buf cp (Inr (group_bytes g))), [])) gs"

lemma client_sees:
  assumes "decodes_first X" "clones_prefix X cp" "\<forall>g \<in> set gs. wf_group X g" "\<forall>n. tw_read_ok V n"
  shows "t_read_tx (tcp_run V (client_reads cp gs) t) = t_read_tx t @ map (\<lambda>g. Rx_Mqtt (group_bytes g)) gs"
  using assms(3)
proof (induction gs arbitrary: t)
  case Nil
  show ?case by (simp add: client_reads_def)
next
  case (Cons g gs)
  have g: "decode_slice X (group_bytes g) = Inr (Some (snd (hd g)))" "group_bytes g \<noteq> []"
    using group_decodes [OF assms(1)] Cons.prems by simp_all
  have "tcp_run V (client_reads cp (g # gs)) t =
      tcp_run V (client_reads cp gs) (t\<lparr>t_read_tx := t_read_tx t @ [Rx_Mqtt (group_bytes g)]\<rparr>)"
    using read_into_buf_all [OF assms(2) g(1)] g(2) assms(4) by (simp add: client_reads_def)
  then show ?case using Cons by simp
qed

subsection \<open>The broker\<close>

lemma decode_group:
  assumes "decodes_first X" "wf_group X g"
  shows "decode X (group_bytes g) = decode X (fst (hd g))"
  using group_decodes [OF assms] by (simp add: decode_def)

lemma listen_turn_decode:
  "decode (w_mqttrs W) b = decode (w_mqttrs W) b' \<Longrightarrow> listen_turn W (Frame b) = listen_turn W (Frame b')"
  by simp

lemma broker_sees:
  assumes "decodes_first (w_mqttrs W)" "\<forall>g \<in> set gs. wf_group (w_mqttrs W) g"
  shows "listen_for_messages W (map (\<lambda>g. Frame (group_bytes g)) gs) =
    listen_for_messages W (map (\<lambda>g. Frame (fst (hd g))) gs)"
  using assms(2)
proof (induction gs)
  case (Cons g gs)
  then have "listen_turn W (Frame (group_bytes g)) = listen_turn W (Frame (fst (hd g)))"
    by (intro listen_turn_decode decode_group [OF assms(1)]) simp
  with Cons show ?case by (simp cong: if_cong del: listen_turn.simps)
qed simp

text \<open>C31: of the packets that arrive in one read, both sides see only the first. Whatever groups of whole packets
  arrive, the commands of the client can decode exactly the first packet of each group; and a client handler
  of the broker does exactly what it would do if only the first packet of each group had been sent. A packet is sure to be seen only if
  it arrives alone.\<close>

theorem one_packet_per_read:
  assumes "decodes_first X" "clones_prefix X cp" "\<forall>g \<in> set gs. wf_group X g"
    and "\<forall>n. tw_read_ok V n" "w_mqttrs W = X"
  shows "map (decode_tcp_rx X) (t_read_tx (tcp_run V (client_reads cp gs) tcp_thread_new)) = map (\<lambda>g. Inr (snd (hd g))) gs \<and>
    handler_run W (map (\<lambda>g. Frame (group_bytes g)) gs) h = handler_run W (map (\<lambda>g. Frame (fst (hd g))) gs) h"
proof -
  have "map (decode_tcp_rx X) (map (\<lambda>g. Rx_Mqtt (group_bytes g)) gs) = map (\<lambda>g. Inr (snd (hd g))) gs"
    using group_decodes(1) [OF assms(1)] assms(3) by (simp add: decode_tcp_rx_def)
  then show ?thesis
    using client_sees [OF assms(1-4), of tcp_thread_new] broker_sees [of W gs] assms
    by (simp add: tcp_thread_new_def handler_run_def)
qed

text \<open>Two ping requests in one read.\<close>

definition copy_all :: "bytes \<Rightarrow> bytes \<Rightarrow> string + nat \<times> bytes" where
  "copy_all i out = Inr (length i, i @ drop (length i) out)"

definition open_stream :: tcp_world where
  "open_stream = \<lparr>tw_write = (\<lambda>_. None), tw_read_ok = (\<lambda>_. True), tw_shell_ok = True, tw_ka_ok = (\<lambda>_. True)\<rparr>"

theorem one_packet_per_read_witness:
  "map (decode_tcp_rx ping_codec) (t_read_tx (tcp_run open_stream
     (client_reads copy_all [[([192, 0], M_Pingreq), ([192, 0], M_Pingreq)]]) tcp_thread_new)) = [Inr M_Pingreq]"
proof -
  let ?g = "[([192, 0], M_Pingreq), ([192, 0], M_Pingreq)] :: packet_group"
  have "take 2 b = [192, 0] \<Longrightarrow> take 2 (b @ rest) = [192 :: u8, 0]" for b rest
    by (cases b; cases "tl b") auto
  then have first: "decodes_first ping_codec" by (auto simp: decodes_first_def ping_codec_def split: if_splits)
  have clone: "clones_prefix ping_codec copy_all" by (auto simp: clones_prefix_def copy_all_def)
  have wf: "\<forall>g \<in> set [?g]. wf_group ping_codec g" by (simp add: wf_group_def ping_codec_def)
  have up: "\<forall>n. tw_read_ok open_stream n" by (simp add: open_stream_def)
  show ?thesis
    using one_packet_per_read [OF first clone wf up, of "sample_world\<lparr>w_mqttrs := ping_codec\<rparr>" sample_handler] by simp
qed

end
