(* ===== verification/Cli_Connections.thy ===== *)
theory Cli_Connections
  imports Shell_Properties
begin

section \<open>Connections of the client that come and go\<close>

text \<open>
  What \<open>connect.rs\<close>, \<open>disconnect.rs\<close>, \<open>tcp.rs\<close> and \<open>keep_alive.rs\<close> do together over the life of more than one
  connection: threads of an earlier connection, or of one that failed, act on a later one, and a
  thread that ends with an error leaves the client connected to nothing.
\<close>

subsection \<open>Turns on \<open>disconnect\<close>\<close>

definition cleanup_flag :: spec_flag where
  "cleanup_flag = spec_flag_new ''cleanup'' (CHR ''c'') SA_None
     ''Run all disconnect actions except closing tcp connection. (For internal usage.)''"

lemma spec_disconnect_simps:
  "sc_callback spec_disconnect = B_disconnect" "sc_flags spec_disconnect = {cleanup_flag}"
  by (simp_all add: spec_disconnect_def builder_defs cleanup_flag_def flagset_insert_def)

lemma disconnect_lookup: "command_set ''disconnect'' = Some spec_disconnect" "command_set ''connect'' = Some spec_connect"
  by (simp_all add: command_set_def builtin_specs_def spec_connect_def spec_connack_def spec_disconnect_def builder_defs)

lemma iterates_single:
  assumes "iterates it"
  shows "it {a} = [a]"
proof -
  have "set (it {a}) = {a}" "distinct (it {a})" using assms [unfolded iterates_def, rule_format, of "{a}"] by simp_all
  then obtain b ys where ys: "it {a} = b # ys" by (cases "it {a}") auto
  have "set (b # ys) = {a}" "b \<notin> set ys"
    using \<open>set (it {a}) = {a}\<close> \<open>distinct (it {a})\<close> unfolding ys by simp_all
  then have "b = a" "ys = []" by (auto, cases ys) auto
  with ys show ?thesis by simp
qed

definition cleanup_command :: "builtin cmd" where
  "cleanup_command = \<lparr>c_spec = spec_disconnect, c_flags = {\<lparr>cf_spec = cleanup_flag, cf_arg = CA_None\<rparr>}, c_operands = []\<rparr>"

lemma cleanup_asked: "iterates (cw_iter W) \<Longrightarrow> get_flag W cleanup_command (CHR ''c'') \<noteq> None"
  using iterates_single [of "cw_iter W" "\<lparr>cf_spec = cleanup_flag, cf_arg = CA_None\<rparr>"]
  by (simp add: get_flag_def cmd_query_def cleanup_command_def cleanup_flag_def spec_flag_new_def)

lemma disconnect_turns:
  assumes "sh_commands sh = command_set" "iterates it" "x_tcp_write_tx x \<noteq> None"
  defines "sh' \<equiv> update_enable_set (\<lambda>c. enabled x (sc_callback c)) sh"
  shows "shell_turn W it ''disconnect -c'' (sh, x) = (case disconnect W cleanup_command x of (r, x') \<Rightarrow> Some (turn_of r, sh', x'))"
    "shell_turn W it ''disconnect'' (sh, x) =
      (case disconnect W \<lparr>c_spec = spec_disconnect, c_flags = {}, c_operands = []\<rparr> x of (r, x') \<Rightarrow> Some (turn_of r, sh', x'))"
proof -
  have find: "find_command_spec sh' ''disconnect'' = Some spec_disconnect"
    using assms(1,3) disconnect_lookup spec_disconnect_simps(1)
    by (simp add: sh'_def find_command_spec_def get_enabled_commands_def update_enable_set_def)
  have q: "query it (Short (CHR ''c'')) {cleanup_flag} = Some cleanup_flag"
    using iterates_single [OF assms(2)] by (simp add: query_def cleanup_flag_def spec_flag_new_def)
  have args: "try_into_args ''disconnect -c'' = Inr [''disconnect'', ''-c'']" "try_into_args ''disconnect'' = Inr [''disconnect'']"
    by (simp_all add: try_into_args_def is_blank_def)
  have flag: "is_short ''-c''" "flag_extract ''-c'' = Some (Short (CHR ''c''))"
    by (simp_all add: is_short_def flag_extract_def is_long_def starts_with_def str_len_Cons is_ascii_def)
  have "sf_arg cleanup_flag = SA_None" by (simp add: cleanup_flag_def spec_flag_new_def)
  then have parse: "parse it sh' ''disconnect -c'' = Inr (Some cleanup_command)"
    "parse it sh' ''disconnect'' = Inr (Some \<lparr>c_spec = spec_disconnect, c_flags = {}, c_operands = []\<rparr>)"
    using find q flag by (simp_all add: parse_def args spec_disconnect_simps flagset_replace_def cleanup_command_def)
  show "shell_turn W it ''disconnect -c'' (sh, x) = (case disconnect W cleanup_command x of (r, x') \<Rightarrow> Some (turn_of r, sh', x'))"
    using parse(1)
    by (simp add: shell_turn_def Let_def sh'_def [symmetric] parse_and_execute_def execute_def spec_disconnect_simps
        cleanup_command_def split: prod.split)
  show "shell_turn W it ''disconnect'' (sh, x) =
      (case disconnect W \<lparr>c_spec = spec_disconnect, c_flags = {}, c_operands = []\<rparr> x of (r, x') \<Rightarrow> Some (turn_of r, sh', x'))"
    using parse(2)
    by (simp add: shell_turn_def Let_def sh'_def [symmetric] parse_and_execute_def execute_def spec_disconnect_simps split: prod.split)
qed

lemma T_of_error: "e \<noteq> Panic \<Longrightarrow> turn_of (Inl e) = T_Again"
  by (cases e) simp_all

text \<open>The cleaning always works.\<close>

definition unconnected :: "MqttContext \<Rightarrow> bool" where
  "unconnected x \<longleftrightarrow> x_tcp_write_tx x = None \<and> \<not> x_tcp_read_rx x \<and> x_keep_alive_tx x = None \<and> enabled x B_connect"

lemma cleanup_turn:
  assumes "sh_commands sh = command_set" "iterates it" "iterates (cw_iter W)" "x_tcp_write_tx x \<noteq> None"
  shows "\<exists>sh' x'. shell_turn W it ''disconnect -c'' (sh, x) = Some (T_Again, sh', x') \<and> unconnected x' \<and>
    make_shell_prompt (x_state x') = x_prompt_string x @ ''>''"
proof -
  obtain r x' where run: "disconnect W cleanup_command x = (r, x')" by fastforce
  have "r = Inr RC_Ok" "x_tcp_write_tx x' = None \<and> \<not> x_tcp_read_rx x' \<and> x_keep_alive_tx x' = None \<and>
      enabled x' B_connect \<and> make_shell_prompt (x_state x') = x_prompt_string x @ ''>''"
    using disconnect_resets [OF run] cleanup_asked [OF assms(3)] by blast+
  then show ?thesis using disconnect_turns(1) [OF assms(1,2,4), of W] run by (simp add: unconnected_def)
qed

subsection \<open>Threads of an earlier connection\<close>

text \<open>C25: a thread of an earlier connection closes a later one. The TCP thread reads before it looks at its queue, so when its
  stream ends it queues \<open>disconnect -c\<close> even if it has been told to close, and drops what it was
  to write, a \<open>Disconnect\<close> packet included. The command does not say which connection it is about: if the user has connected
  anew before it is taken, it closes the new connection, without a word to the broker.\<close>

theorem stale_disconnect_closes_connection:
  assumes "sh_commands (z_shell z) = command_set" "iterates it" "iterates (cw_iter W)" "tw_shell_ok V"
    and "z_exec z = E_Recv" "z_queue z = []" "x_tcp_write_tx (z_ctx z) \<noteq> None"
  shows "t_shell_cmds (tcp_run V ((ReadBuf [], msgs) # turns) t) = t_shell_cmds t @ [''disconnect -c''] \<and>
    t_written (tcp_run V ((ReadBuf [], msgs) # turns) t) = t_written t \<and>
    (\<exists>z'. shell_acts W it [X_Push ''disconnect -c'', X_Take, X_Finish] z = Some z' \<and> unconnected (z_ctx z') \<and>
       make_shell_prompt (x_state (z_ctx z')) = x_prompt_string (z_ctx z) @ ''>'')"
proof -
  obtain sh' x' where turn: "shell_turn W it ''disconnect -c'' (z_shell z, z_ctx z) = Some (T_Again, sh', x')" "unconnected x'"
      "make_shell_prompt (x_state x') = x_prompt_string (z_ctx z) @ ''>''"
    using cleanup_turn [OF assms(1-3,7)] by blast
  then show ?thesis using assms(4-6) by (simp add: exec_finish_def)
qed

text \<open>C26: a connection that is lost to an error of the stream can be neither used nor left. The TCP thread ends without telling the shell, so the
  context still counts as connected: \<open>connect\<close> is not available, and \<open>disconnect\<close> fails, because it
  first sends a packet to the thread that is gone, before it has reset anything. Of the three only \<open>disconnect -c\<close>, whose
  help says that it is for internal use, gets the client out of this state.\<close>

theorem lost_connection_needs_cleanup:
  assumes "sh_commands sh = command_set" "iterates it" "iterates (cw_iter W)"
    and "x_tcp_write_tx x \<noteq> None" "\<forall>n. \<not> cw_tx_ok W n" "try_into_args input = Inr (''connect'' # args)"
  shows "tcp_run V ((ReadError, msgs) # turns) t = t \<and>
    (\<exists>sh'. shell_turn W it ''disconnect'' (sh, x) = Some (T_Again, sh', x)) \<and>
    (\<exists>sh'. shell_turn W it input (sh, x) = Some (T_Again, sh', x)) \<and>
    (\<exists>sh' x'. shell_turn W it ''disconnect -c'' (sh, x) = Some (T_Again, sh', x') \<and> unconnected x')"
proof -
  let ?c = "\<lparr>c_spec = spec_disconnect, c_flags = {}, c_operands = []\<rparr>"
  have "cw_iter W {} = []" using assms(3) unfolding iterates_def by (metis finite.emptyI set_empty)
  then have "get_flag W ?c (CHR ''c'') = None" by (simp add: get_flag_def cmd_query_def)
  then have "\<exists>e. disconnect W ?c x = (Inl e, x) \<and> e \<noteq> Panic"
    using assms(4,5)
    by (auto simp: disconnect_def Let_def lift_result_def encode_into_def tcp_send_def andthen_def bnd_apply split: sum.splits)
  then obtain e where "disconnect W ?c x = (Inl e, x)" "turn_of (Inl e) = T_Again" by (metis T_of_error)
  then have "\<exists>sh'. shell_turn W it ''disconnect'' (sh, x) = Some (T_Again, sh', x)"
    using disconnect_turns(2) [OF assms(1,2,4), of W] by simp
  moreover have "\<exists>sh'. shell_turn W it input (sh, x) = Some (T_Again, sh', x)"
    using unavailable_turn [OF assms(1) disconnect_lookup(2) _ assms(6), of x W it] assms(4)
    by (auto simp: spec_connect_def builder_defs)
  ultimately show ?thesis using cleanup_turn [OF assms(1-4)] by auto
qed

subsection \<open>Connecting\<close>

text \<open>The values that the flags of \<open>connect\<close> give; the client identifier is that of the context when there is no \<open>-u\<close>.\<close>

definition connect_flags :: "cli_world \<Rightarrow> builtin cmd \<Rightarrow> MqttContext \<Rightarrow> nat \<Rightarrow> string \<Rightarrow> nat \<Rightarrow> string \<Rightarrow> mqttrs_LastWill option \<Rightarrow> bool" where
  "connect_flags W command x keep_alive hostname port cid last_will \<longleftrightarrow>
     flag_value W command (CHR ''k'') (parse_uint 16) 0 = Inr keep_alive \<and>
     flag_value W command (CHR ''h'') Inr (x_hostname x) = Inr hostname \<and>
     flag_value W command (CHR ''p'') (parse_uint 16) (unat (x_port x)) = Inr port \<and>
     (case get_flag W command (CHR ''u'') of
        None \<Rightarrow> cid = x_client_id x
      | Some f \<Rightarrow> arg_get_as Inr (cf_arg f) = Inr (Some cid)) \<and>
     (\<exists>will_qos will_topic will.
        flag_value W command (CHR ''q'') (parse_uint 8) 0 = Inr will_qos \<and>
        flag_value W command (CHR ''t'') Inr [] = Inr will_topic \<and>
        (case get_flag W command (CHR ''w'') of Some flag \<Rightarrow> arg_get_as Inr (cf_arg flag) | None \<Rightarrow> Inr None) = Inr will \<and>
        connect_last_will will will_topic will_qos (get_flag W command (CHR ''r'') \<noteq> None) = Inr last_will)"

lemma connect_run:
  assumes "connect_flags W command x keep_alive hostname port cid last_will"
    and "encode_into (cw_mqttrs W) (size_of (cw_mqttrs W) T_mqttrs_Connect) (connect_packet (of_nat keep_alive) cid last_will) = Inr buf"
  shows "\<exists>x1. x1 \<in> {x, x\<lparr>x_client_id := cid\<rparr>} \<and>
    connect W command x = andthen (spawn_keep_alive W (of_nat keep_alive)) (connect_handshake_with W hostname (of_nat port) buf) x1"
  using assms
  by (auto simp: connect_flags_def connect_def bnd_apply lift_result_def split: option.splits)

lemma spawn_keep_alive_run:
  assumes "x_state x ''cmd_queue_tx'' = Some SV_Sender" "\<And>i. cw_ka_ok W i"
  shows "spawn_keep_alive W ka x = (Inr (), if ka > 0 then x\<lparr>x_keep_alive_tx := Some (ka, [Suspend])\<rparr> else x)"
  using assms by (simp add: spawn_keep_alive_def has_cmd_tx_def andthen_def bnd_def)

lemma handshake_run:
  assumes "x_state x ''cmd_queue_tx'' = Some SV_Sender" "cw_connect W hostname port" "\<And>i. cw_tx_ok W i" "\<And>i. cw_ka_ok W i"
    and "cw_recv W (x_recv_pos x) = Inr a" "decode_tcp_rx (cw_mqttrs W) a = Inr (M_Connack ca)"
  shows "\<exists>x'. connect_handshake_with W hostname port buf x = (Inr RC_Ok, x') \<and>
    x_tcp_write_tx x' = Some [Tx_Mqtt buf True] \<and> x_tcp_read_rx x' \<and> x_recv_pos x' = Suc (x_recv_pos x) \<and>
    x_keep_alive_tx x' = map_option (\<lambda>(d, msgs). (d, msgs @ [Resume])) (x_keep_alive_tx x)"
proof -
  let ?x2 = "x\<lparr>x_tcp_read_rx := True, x_tcp_write_tx := Some [Tx_Mqtt buf True], x_recv_pos := Suc (x_recv_pos x)\<rparr>"
  obtain x3 where "ka_send W Resume ?x2 = (Inr (), x3)" "x_tcp_write_tx x3 = x_tcp_write_tx ?x2"
      "x_tcp_read_rx x3" "x_recv_pos x3 = x_recv_pos ?x2" "x_keep_alive_tx x3 = map_option (\<lambda>(d, msgs). (d, msgs @ [Resume])) (x_keep_alive_tx x)"
    using assms(4) by (cases "x_keep_alive_tx x") (auto simp: ka_send_def)
  then show ?thesis
    using assms
    by (auto simp: connect_handshake_with_def has_cmd_tx_def tcp_send_def err_into_def tcp_recv_timeout_def lift_result_def
        set_prompt_def andthen_def bnd_apply)
qed

subsection \<open>A keep-alive thread that outlives its connection\<close>

text \<open>A connection may be kept alive at the interval of an earlier one that failed. \<open>connect\<close> starts the keep-alive thread
  before it opens the TCP connection and leaves it behind, suspended, when that fails; a later \<open>connect\<close> with
  keep-alive 0, which starts no thread and announces 0 to the broker, resumes the thread that is left,
  which from then on sends pings.\<close>

theorem keep_alive_outlives_failed_connect:
  assumes "connect_flags W c1 x keep_alive host1 port1 cid1 will1" "(of_nat keep_alive :: u16) \<noteq> 0"
    and "\<not> cw_connect W host1 (of_nat port1)"
    and "encode_into (cw_mqttrs W) (size_of (cw_mqttrs W) T_mqttrs_Connect) (connect_packet (of_nat keep_alive) cid1 will1) = Inr buf1"
    and "connect_flags W c2 (snd (connect W c1 x)) 0 host2 port2 cid2 will2" "cw_connect W host2 (of_nat port2)"
    and "encode_into (cw_mqttrs W) (size_of (cw_mqttrs W) T_mqttrs_Connect) (connect_packet 0 cid2 will2) = Inr buf2"
    and "cw_recv W (x_recv_pos x) = Inr a" "decode_tcp_rx (cw_mqttrs W) a = Inr (M_Connack ca)"
    and "x_state x ''cmd_queue_tx'' = Some SV_Sender" "\<forall>i. cw_tx_ok W i" "\<forall>i. cw_ka_ok W i"
  shows "\<exists>x1 x2. connect W c1 x = (Inl IoError, x1) \<and> x_tcp_write_tx x1 = x_tcp_write_tx x \<and>
    x_keep_alive_tx x1 = Some (of_nat keep_alive, [Suspend]) \<and>
    connect W c2 x1 = (Inr RC_Ok, x2) \<and> x_tcp_write_tx x2 = Some [Tx_Mqtt buf2 True] \<and>
    x_keep_alive_tx x2 = Some (of_nat keep_alive, [Suspend, Resume]) \<and>
    keep_alive_run (map Woken [Suspend, Resume] @ [TimedOut]) False = [''ping -n -q'']"
proof -
  obtain x0 where x0: "x0 \<in> {x, x\<lparr>x_client_id := cid1\<rparr>}" and run1: "connect W c1 x =
      andthen (spawn_keep_alive W (of_nat keep_alive)) (connect_handshake_with W host1 (of_nat port1) buf1) x0"
    using connect_run [OF assms(1,4)] by blast
  define x1 where "x1 = x0\<lparr>x_keep_alive_tx := Some (of_nat keep_alive, [Suspend])\<rparr>"
  have state: "x_state x0 ''cmd_queue_tx'' = Some SV_Sender" "x_recv_pos x0 = x_recv_pos x" "x_tcp_write_tx x0 = x_tcp_write_tx x"
    using x0 assms(10) by auto
  have first: "connect W c1 x = (Inl IoError, x1)"
    using run1 spawn_keep_alive_run [OF state(1), of W "of_nat keep_alive"] assms(2,3,12) state(1)
    by (simp add: andthen_def bnd_apply connect_handshake_with_def has_cmd_tx_def x1_def word_gt_0)
  obtain x3 where x3: "x3 \<in> {x1, x1\<lparr>x_client_id := cid2\<rparr>}" and run2: "connect W c2 x1 =
      andthen (spawn_keep_alive W (of_nat 0)) (connect_handshake_with W host2 (of_nat port2) buf2) x3"
    using connect_run [of W c2 x1 0 host2 port2 cid2 will2 buf2] assms(5,7) first by auto
  have state3: "x_state x3 ''cmd_queue_tx'' = Some SV_Sender" "x_recv_pos x3 = x_recv_pos x"
      "x_keep_alive_tx x3 = Some (of_nat keep_alive, [Suspend])"
    using x3 state by (auto simp: x1_def)
  obtain x2 where "connect_handshake_with W host2 (of_nat port2) buf2 x3 = (Inr RC_Ok, x2)"
      "x_tcp_write_tx x2 = Some [Tx_Mqtt buf2 True]" "x_keep_alive_tx x2 = Some (of_nat keep_alive, [Suspend, Resume])"
    using handshake_run [OF state3(1) assms(6), of a ca buf2] assms(8,9,11,12) state3(2,3) by auto
  then show ?thesis
    using first run2 state(3)
    by (intro exI [of _ x1] exI [of _ x2]) (simp add: spawn_keep_alive_def andthen_def bnd_apply, simp add: x1_def)
qed

subsection \<open>Samples\<close>

definition closing_stream :: tcp_world where
  "closing_stream = \<lparr>tw_write = (\<lambda>_. None), tw_read_ok = (\<lambda>_. True), tw_shell_ok = True, tw_ka_ok = (\<lambda>_. True)\<rparr>"

theorem stale_disconnect_closes_connection_witness:
  "\<exists>it z'. shell_acts ((toy_world (\<lambda>_. Inl RecvTimeout))\<lparr>cw_iter := it\<rparr>) flag_order
       [X_Push ''disconnect -c'', X_Take, X_Finish] (shell_run main_shell toy_context []) = Some z' \<and> unconnected (z_ctx z') \<and>
     t_shell_cmds (tcp_run closing_stream [(ReadBuf [], [Tx_Mqtt [224, 0] False, Tx_Close])] tcp_thread_new) = [''disconnect -c'']"
proof -
  obtain it :: "cmd_flag set \<Rightarrow> cmd_flag list" where it: "iterates it" using ex_iterates by blast
  let ?W = "(toy_world (\<lambda>_. Inl RecvTimeout))\<lparr>cw_iter := it\<rparr>" and ?z = "shell_run main_shell toy_context []"
  have "sh_commands (z_shell ?z) = command_set" "iterates (cw_iter ?W)" "tw_shell_ok closing_stream" "z_exec ?z = E_Recv"
      "z_queue ?z = []" "x_tcp_write_tx (z_ctx ?z) \<noteq> None"
    using it by (simp_all add: shell_run_def Let_def toy_context_def closing_stream_def)
  from stale_disconnect_closes_connection [OF this(1) iterates_flag_order this(2-6),
      of "[Tx_Mqtt [224, 0] False, Tx_Close]" "[]" tcp_thread_new]
  show ?thesis by (intro exI [of _ it]) (auto simp: tcp_thread_new_def)
qed

theorem lost_connection_needs_cleanup_witness:
  "\<exists>it sh'. shell_turn ((toy_world (\<lambda>_. Inl RecvTimeout))\<lparr>cw_iter := it, cw_tx_ok := (\<lambda>_. False)\<rparr>) flag_order ''disconnect''
     (main_shell, toy_context) = Some (T_Again, sh', toy_context)"
proof -
  obtain it :: "cmd_flag set \<Rightarrow> cmd_flag list" where it: "iterates it" using ex_iterates by blast
  let ?W = "(toy_world (\<lambda>_. Inl RecvTimeout))\<lparr>cw_iter := it, cw_tx_ok := (\<lambda>_. False)\<rparr>"
  have "iterates (cw_iter ?W)" "x_tcp_write_tx toy_context \<noteq> None" "\<forall>n. \<not> cw_tx_ok ?W n"
      "try_into_args ''connect'' = Inr [''connect'']"
    using it by (simp_all add: toy_context_def try_into_args_def is_blank_def)
  from lost_connection_needs_cleanup [OF main_shell_commands iterates_flag_order this, of closing_stream "[]" "[]" tcp_thread_new]
  show ?thesis by blast
qed

definition sample_flag :: "string \<Rightarrow> char \<Rightarrow> string \<Rightarrow> cmd_flag" where
  "sample_flag name short v = \<lparr>cf_spec = spec_flag_new name short SA_Required [], cf_arg = CA_Required v\<rparr>"

definition keep_alive_flags :: "cmd_flag list" where
  "keep_alive_flags = [sample_flag ''keep-alive'' (CHR ''k'') ''5'', sample_flag ''hostname'' (CHR ''h'') ''down'']"

definition keep_alive_world :: cli_world where
  "keep_alive_world = (toy_world (\<lambda>_. Inr (Rx_Mqtt [4])))
     \<lparr>cw_connect := (\<lambda>host _. host \<noteq> ''down''), cw_iter := (\<lambda>S. if hd keep_alive_flags \<in> S then keep_alive_flags else [])\<rparr>"

theorem keep_alive_outlives_failed_connect_witness:
  "\<exists>x1 x2. connect keep_alive_world \<lparr>c_spec = spec_connect, c_flags = set keep_alive_flags, c_operands = []\<rparr> toy_context = (Inl IoError, x1) \<and>
     connect keep_alive_world \<lparr>c_spec = spec_connect, c_flags = {}, c_operands = []\<rparr> x1 = (Inr RC_Ok, x2) \<and>
     x_keep_alive_tx x2 = Some (5, [Suspend, Resume])"
proof -
  let ?W = keep_alive_world and ?c1 = "\<lparr>c_spec = spec_connect, c_flags = set keep_alive_flags, c_operands = []\<rparr>"
    and ?c2 = "\<lparr>c_spec = spec_connect, c_flags = {}, c_operands = []\<rparr>"
  note s = connect_flags_def flag_value_def get_flag_def cmd_query_def keep_alive_world_def
  have f1: "connect_flags ?W ?c1 toy_context 5 ''down'' 1883 ''mqtt-cli'' None"
    by (simp add: s keep_alive_flags_def sample_flag_def spec_flag_new_def parse_uint_def digit_val_def connect_last_will_def toy_context_def)
  have buf: "encode_into (cw_mqttrs ?W) n pkt = Inr (replicate n 0)" for n pkt
    using toy_encode by (simp add: keep_alive_world_def)
  have host: "\<exists>x1. connect ?W ?c1 toy_context = (Inl IoError, x1) \<and> x_hostname x1 = ''127.0.0.1'' \<and> x_client_id x1 = ''mqtt-cli'' \<and> x_port x1 = 1883"
    using connect_run [OF f1 buf] by (auto simp: spawn_keep_alive_def has_cmd_tx_def connect_handshake_with_def andthen_def
        bnd_apply toy_context_def keep_alive_world_def toy_world_def)
  then have f2: "connect_flags ?W ?c2 (snd (connect ?W ?c1 toy_context)) 0 ''127.0.0.1'' 1883 ''mqtt-cli'' None"
    by (auto simp: s connect_last_will_def keep_alive_flags_def)
  have w: "(of_nat 5 :: u16) \<noteq> 0" "\<not> cw_connect ?W ''down'' (of_nat 1883)" "cw_connect ?W ''127.0.0.1'' (of_nat 1883)"
      "cw_recv ?W (x_recv_pos toy_context) = Inr (Rx_Mqtt [4])" "x_state toy_context ''cmd_queue_tx'' = Some SV_Sender"
      "\<forall>i. cw_tx_ok ?W i" "\<forall>i. cw_ka_ok ?W i"
    by (simp_all add: keep_alive_world_def toy_world_def toy_context_def)
  have d: "decode_tcp_rx (cw_mqttrs ?W) (Rx_Mqtt [4]) = Inr (M_Connack \<lparr>ca_session_present = False, ca_code = NotAuthorized\<rparr>)"
    by (simp add: keep_alive_world_def toy_world_def decode_tcp_rx_def toy_api_def)
  show ?thesis
    using keep_alive_outlives_failed_connect [OF f1 w(1,2) buf f2 w(3) buf w(4) d w(5-7)] by auto
qed

end
