(* ===== verification/Client_Broker.thy ===== *)
theory Client_Broker
  imports Cli_Connections Subscribe_Properties System_Properties
begin

section \<open>This client with this broker\<close>

text \<open>
  Both crates are put together over the wire: the bytes a command of the client sends are the frames a
  client handler of the broker reads, and what the handler writes is what the command receives. Of the
  crate \<open>mqttrs\<close>, which both use, only the round trip is relied on (\<open>writes_prefix\<close> and \<open>reads_back\<close>), and that the
  packets in question fit into the buffers that the two programs choose.
\<close>

subsection \<open>Frames on the wire\<close>

definition round_trip :: "mqttrs_api \<Rightarrow> bool" where
  "round_trip X \<longleftrightarrow> writes_prefix X \<and> reads_back X"

lemma written_reads_back:
  assumes "round_trip X" "encode_slice X p buf = Inr (n, b)"
  shows "decode_slice X b = Inr (Some p)"
proof -
  have "decode_slice X (take n b @ drop n b) = Inr (Some p)"
    using assms unfolding round_trip_def reads_back_def by blast
  then show ?thesis by simp
qed

lemma client_frame:
  assumes "round_trip X" "encode_into X n p = Inr b"
  shows "decode X b = Inr (Some (packet_from p))"
  using assms(2) written_reads_back [OF assms(1)]
  by (auto simp: encode_into_def decode_def split: sum.splits prod.splits)

lemma broker_frame:
  assumes "round_trip X" "encode X k = Inr b"
  shows "decode_tcp_rx X (Rx_Mqtt b) = Inr (packet_into k)"
  using encode_Inr [OF assms(2)] written_reads_back [OF assms(1)] by (auto simp: decode_tcp_rx_def)

text \<open>What a handler writes while it reads the frames \<open>fs\<close>, and a client whose next receptions are exactly that.\<close>

definition written :: "world \<Rightarrow> bytes list \<Rightarrow> ClientHandler \<Rightarrow> framed" where
  "written V fs h =
     drop (length (h_framed h)) (h_framed (snd (listen_for_messages V (map Frame fs) h)))"

definition receives :: "cli_world \<Rightarrow> nat \<Rightarrow> framed \<Rightarrow> bool" where
  "receives W pos fs \<longleftrightarrow> (\<forall>n < length fs. cw_recv W (pos + n) = Inr (Rx_Mqtt (fs ! n)))"

lemma receives_Cons [simp]:
  "receives W pos (b # fs) \<longleftrightarrow> cw_recv W pos = Inr (Rx_Mqtt b) \<and> receives W (Suc pos) fs"
  unfolding receives_def by (auto simp: less_Suc_eq_0_disj)

lemma receives_Nil [simp]: "receives W pos []"
  by (simp add: receives_def)

text \<open>The two programs use the same crate, the queues between the threads and tasks take what they are given, and the
  connection is up.\<close>

definition joined :: "cli_world \<Rightarrow> world \<Rightarrow> bool" where
  "joined W V \<longleftrightarrow> cw_mqttrs W = w_mqttrs V \<and> round_trip (w_mqttrs V) \<and> links_up V \<and>
     (\<forall>i. cw_tx_ok W i) \<and> (\<forall>i. cw_ka_ok W i)"

lemma joinedD:
  assumes "joined W V"
  shows "cw_mqttrs W = w_mqttrs V" "round_trip (w_mqttrs V)" "links_up V" "\<And>i. cw_tx_ok W i" "\<And>i. cw_ka_ok W i"
  using assms by (simp_all add: joined_def)

definition client_bytes :: "cli_world \<Rightarrow> nat \<Rightarrow> mqttrs_Packet \<Rightarrow> bytes" where
  "client_bytes W n pkt = (case encode_into (cw_mqttrs W) n pkt of Inr b \<Rightarrow> b | Inl _ \<Rightarrow> [])"

lemma client_bytes_fits: "fits_in W n pkt \<Longrightarrow> encode_into (cw_mqttrs W) n pkt = Inr (client_bytes W n pkt)"
  by (auto simp: fits_in_def client_bytes_def)

lemma client_bytes_decode:
  "joined W V \<Longrightarrow> fits_in W n pkt \<Longrightarrow> decode (w_mqttrs V) (client_bytes W n pkt) = Inr (Some (packet_from pkt))"
  using client_bytes_fits [of W n pkt] client_frame [of "w_mqttrs V" n pkt] by (simp add: joined_def)

lemma broker_bytes_decode:
  "joined W V \<Longrightarrow> sendable (w_mqttrs V) [k] \<Longrightarrow>
    decode_tcp_rx (cw_mqttrs W) (Rx_Mqtt (frame_of (w_mqttrs V) k)) = Inr (packet_into k)"
  using broker_frame [of "w_mqttrs V" k] by (simp add: joined_def sendable_def)

subsection \<open>A handler that reads frames of the client\<close>

text \<open>The handler after a list of packets, each of which it accepts and can answer.\<close>

fun served :: "world \<Rightarrow> Packet list \<Rightarrow> ClientHandler \<Rightarrow> ClientHandler" where
  "served V [] h = h"
| "served V (k # ks) h = (case h_state h of Connected s \<Rightarrow> served V ks (reacted V k s h) | Initialized \<Rightarrow> h)"

lemma handler_serves:
  assumes "conn cid tx h" "links_up V" "list_all2 (\<lambda>b k. decode (w_mqttrs V) b = Inr (Some k)) fs ks"
    and "list_all acceptable ks" "sendable (w_mqttrs V) (concat (map replies ks))"
  shows "listen_for_messages V (map Frame fs) h = (Inr True, served V ks h)" "conn cid tx (served V ks h)"
    "h_framed (served V ks h) = h_framed h @ map (frame_of (w_mqttrs V)) (concat (map replies ks))"
    "h_broker_tx (served V ks h) = h_broker_tx h @ concat (map (requests cid) ks)"
proof -
  have "listen_for_messages V (map Frame fs) h = (Inr True, served V ks h) \<and> conn cid tx (served V ks h) \<and>
    h_framed (served V ks h) = h_framed h @ map (frame_of (w_mqttrs V)) (concat (map replies ks)) \<and>
    h_broker_tx (served V ks h) = h_broker_tx h @ concat (map (requests cid) ks)"
    using assms(3,1,4,5)
  proof (induction arbitrary: h rule: list_all2_induct)
    case (Cons b fs k ks)
    obtain s where s: "h_state h = Connected s" "s_id s = cid"
      and turn: "listen_turn V (Frame b) h = (Inr True, reacted V k s h)" "conn cid tx (reacted V k s h)"
      using react_turn [OF Cons.prems(1) Cons.hyps(1) _ assms(2)] Cons.prems(2,3) by (auto simp: sendable_def)
    have "sendable (w_mqttrs V) (concat (map replies ks))" using Cons.prems(3) by (simp add: sendable_def)
    with Cons.IH [OF turn(2)] Cons.prems(2) s show ?case
      by (simp add: listen_Cons [OF turn(1)] del: listen_for_messages.simps(2))
  qed simp
  then show "listen_for_messages V (map Frame fs) h = (Inr True, served V ks h)" "conn cid tx (served V ks h)"
    "h_framed (served V ks h) = h_framed h @ map (frame_of (w_mqttrs V)) (concat (map replies ks))"
    "h_broker_tx (served V ks h) = h_broker_tx h @ concat (map (requests cid) ks)" by blast+
qed

lemma written_served:
  assumes "conn cid tx h" "links_up V" "list_all2 (\<lambda>b k. decode (w_mqttrs V) b = Inr (Some k)) fs ks"
    and "list_all acceptable ks" "sendable (w_mqttrs V) (concat (map replies ks))"
  shows "written V fs h = map (frame_of (w_mqttrs V)) (concat (map replies ks))"
  using handler_serves [OF assms] by (simp add: written_def)

lemma served_phase:
  assumes "h_state h = Connected s" "list_all (\<lambda>k. list_all (\<lambda>a. pkt_pid a = Some p) (txn_steps k)) ks"
  shows "\<exists>s'. h_state (served V ks h) = Connected s' \<and>
    (s', h_tasks (served V ks h)) = fold (txn_update p) (concat (map txn_steps ks)) (s, h_tasks h)"
  using assms
proof (induction ks arbitrary: h s)
  case (Cons k ks)
  have "store_steps (txn_steps k) st = fold (txn_update p) (txn_steps k) st" for st
    unfolding store_steps_def using Cons.prems(2)
    by (intro fold_cong refl) (auto simp: list_all_iff)
  with Cons.IH [of "reacted V k s h"] Cons.prems show ?case by simp
qed simp

subsection \<open>Publishing\<close>

definition publish_packets :: "pid \<Rightarrow> QoS \<Rightarrow> string \<Rightarrow> string \<Rightarrow> mqttrs_Packet list" where
  "publish_packets p q topic message =
     publish_packet p q topic message # (if q = ExactlyOnce then [M_Pubrel p] else [])"

text \<open>The frames that these packets become, and the message that they carry.\<close>

definition frames_of :: "cli_world \<Rightarrow> mqttrs_Packet list \<Rightarrow> bytes list" where
  "frames_of W ks = map (\<lambda>k. client_bytes W (send_size (cw_mqttrs W) k) k) ks"

definition published :: "pid \<Rightarrow> QoS \<Rightarrow> string \<Rightarrow> string \<Rightarrow> Publish" where
  "published p q topic message =
     \<lparr>pub_dup = False,
      pub_qospid = (case q of AtMostOnce \<Rightarrow> QP_AtMostOnce | AtLeastOnce \<Rightarrow> QP_AtLeastOnce p | ExactlyOnce \<Rightarrow> QP_ExactlyOnce p),
      pub_retain = False, pub_topic_name = topic, pub_payload = utf8 message\<rparr>"

lemma packet_from_publish [simp]: "packet_from (publish_packet p q topic message) = P_Publish (published p q topic message)"
  by (simp add: publish_packet_def published_def)

lemma sent_as_fits:
  "fits_in W (send_size (cw_mqttrs W) k) k \<Longrightarrow> sent_as W k = Tx_Mqtt (client_bytes W (send_size (cw_mqttrs W) k) k) True"
  by (auto simp: fits_in_def sent_as_def client_bytes_def)

text \<open>The packets of the broker that a publish waits for.\<close>

definition publish_answers :: "pid \<Rightarrow> QoS \<Rightarrow> Packet list" where
  "publish_answers p q =
     (case q of AtMostOnce \<Rightarrow> [] | AtLeastOnce \<Rightarrow> [P_Puback p] | ExactlyOnce \<Rightarrow> [P_Pubrec p, P_Pubcomp p])"

lemma publish_answered:
  assumes J: "joined W V" and x: "x_tcp_read_rx x" "x_tcp_write_tx x = Some sent"
    and cmd: "flag_value W command (CHR ''q'') (parse_uint 8) 0 = Inr n" "c_operands command = topic # message # rest"
    and fits: "\<forall>k \<in> set (publish_packets p (publish_qos n) topic message). fits_in W (send_size (cw_mqttrs W) k) k"
    and p: "p = pid_new (cw_mqttrs W)"
    and answers: "sendable (w_mqttrs V) (publish_answers p (publish_qos n))"
      "receives W (x_recv_pos x) (map (frame_of (w_mqttrs V)) (publish_answers p (publish_qos n)))"
  shows "publish W command x = Some (Inr RC_Ok,
    x\<lparr>x_recv_pos := x_recv_pos x + length (publish_answers p (publish_qos n)),
      x_tcp_write_tx := Some (sent @ map (\<lambda>b. Tx_Mqtt b True) (frames_of W (publish_packets p (publish_qos n) topic message)))\<rparr>)"
proof -
  note J' = joinedD [OF J]
  let ?pkt = "publish_packet p (publish_qos n) topic message"
  let ?x1 = "x\<lparr>x_tcp_write_tx := Some (sent @ [sent_as W ?pkt])\<rparr>"
  have pkt: "fits_in W (send_size (cw_mqttrs W) ?pkt) ?pkt" using fits by (simp add: publish_packets_def)
  have send: "send_packet W ?pkt x = (Inr (), ?x1)" using send_packet_fits [OF pkt x(2)] J'(4) by simp
  have dec: "decode_tcp_rx (cw_mqttrs W) (Rx_Mqtt (frame_of (w_mqttrs V) k)) = Inr (packet_into k)"
    if "k \<in> set (publish_answers p (publish_qos n))" for k
    using that answers(1) broker_bytes_decode [OF J, of k] by (auto simp: sendable_def list_all_iff)
  note simps = publish_def cmd p [symmetric] Let_def send
  show ?thesis
  proof (cases "publish_qos n")
    case AtMostOnce
    then show ?thesis using send pkt
      by (simp add: simps publish_answers_def frames_of_def publish_packets_def sent_as_fits)
  next
    case AtLeastOnce
    then have "tcp_recv_timeout W ?x1 = (Inr (Rx_Mqtt (frame_of (w_mqttrs V) (P_Puback p))), ?x1\<lparr>x_recv_pos := Suc (x_recv_pos x)\<rparr>)"
      using answers(2) x(1) by (simp add: tcp_recv_timeout_def publish_answers_def)
    then have "publish_at_least_once W p 0 ?pkt ?x1 = Some (Inr True, ?x1\<lparr>x_recv_pos := Suc (x_recv_pos x)\<rparr>)"
      using dec [of "P_Puback p"] AtLeastOnce
      by (subst publish_at_least_once.simps) (simp add: publish_answers_def)
    then show ?thesis using send pkt AtLeastOnce
      by (simp add: simps publish_answers_def frames_of_def publish_packets_def sent_as_fits)
  next
    case ExactlyOnce
    then have rel: "fits_in W (send_size (cw_mqttrs W) (M_Pubrel p)) (M_Pubrel p)" using fits by (simp add: publish_packets_def)
    have r: "cw_recv W (x_recv_pos ?x1) = Inr (Rx_Mqtt (frame_of (w_mqttrs V) (P_Pubrec p)))"
      "cw_recv W (Suc (x_recv_pos ?x1)) = Inr (Rx_Mqtt (frame_of (w_mqttrs V) (P_Pubcomp p)))"
      using answers(2) ExactlyOnce by (simp_all add: publish_answers_def)
    have "handle_qos_exactly_once W MAX_RETRIES (PublishSent p 0 ?pkt) ?x1 = Some (Inr (),
        ?x1\<lparr>x_recv_pos := Suc (Suc (x_recv_pos ?x1)), x_tcp_write_tx := Some ((sent @ [sent_as W ?pkt]) @ [sent_as W (M_Pubrel p)])\<rparr>)"
      using qos2_answered [of ?x1 "sent @ [sent_as W ?pkt]" W p, OF _ _ J'(4) client_bytes_fits [OF rel] r(1) _ r(2)]
        dec [of "P_Pubrec p"] dec [of "P_Pubcomp p"] x(1) ExactlyOnce by (simp add: publish_answers_def)
    then show ?thesis using send pkt rel ExactlyOnce
      by (simp add: simps publish_answers_def frames_of_def publish_packets_def sent_as_fits)
  qed
qed

lemma publish_packets_served:
  "list_all acceptable (map packet_from (publish_packets p q topic message))"
  "concat (map replies (map packet_from (publish_packets p q topic message))) = publish_answers p q"
  "concat (map (requests cid) (map packet_from (publish_packets p q topic message))) = [BM_Publish cid (published p q topic message)]"
  "concat (map txn_steps (map packet_from (publish_packets p q topic message))) =
     (if q = ExactlyOnce then [P_Pubrec p, P_Pubrel p, P_Pubcomp p] else [])"
  by (cases q; simp add: publish_packets_def publish_answers_def published_def)+

text \<open>C12: publishing works between the two programs. When what the client receives is what the broker's handler
  writes as it reads the frames of the command, the command \<open>publish\<close> succeeds with
  every quality of service, without a retransmission; the handler has asked the broker to publish the message exactly
  once, is still connected, and has no transaction left under the packet identifier if it had none before.\<close>

theorem publish_with_broker:
  assumes "joined W V" "conn cid tx h" "x_tcp_read_rx x" "x_tcp_write_tx x = Some sent"
    and "flag_value W command (CHR ''q'') (parse_uint 8) 0 = Inr n" "c_operands command = topic # message # rest"
    and "\<forall>k \<in> set (publish_packets (pid_new (cw_mqttrs W)) (publish_qos n) topic message). fits_in W (send_size (cw_mqttrs W) k) k"
    and "sendable (w_mqttrs V) (publish_answers (pid_new (cw_mqttrs W)) (publish_qos n))"
    and "fs = frames_of W (publish_packets (pid_new (cw_mqttrs W)) (publish_qos n) topic message)"
    and "receives W (x_recv_pos x) (written V fs h)"
  shows "\<exists>x' h' s s'. publish W command x = Some (Inr RC_Ok, x') \<and>
    x_tcp_write_tx x' = Some (sent @ map (\<lambda>b. Tx_Mqtt b True) fs) \<and>
    x_recv_pos x' = x_recv_pos x + length (written V fs h) \<and>
    listen_for_messages V (map Frame fs) h = (Inr True, h') \<and> conn cid tx h' \<and>
    h_broker_tx h' = h_broker_tx h @ [BM_Publish cid (published (pid_new (cw_mqttrs W)) (publish_qos n) topic message)] \<and>
    h_state h = Connected s \<and> h_state h' = Connected s' \<and>
    (\<forall>p. phase (s, h_tasks h) p = None \<longrightarrow> phase (s', h_tasks h') p = None)"
proof -
  let ?p = "pid_new (cw_mqttrs W)" and ?q = "publish_qos n"
  let ?ks = "map packet_from (publish_packets ?p ?q topic message)"
  note ks = publish_packets_served [where p = ?p and q = ?q and topic = topic and message = message]
  have dec: "list_all2 (\<lambda>b k. decode (w_mqttrs V) b = Inr (Some k)) fs ?ks"
    unfolding assms(9) frames_of_def
    using assms(7) client_bytes_decode [OF assms(1)] by (simp add: list_all2_conv_all_nth all_set_conv_all_nth)
  note serve = handler_serves [OF assms(2) joinedD(3) [OF assms(1)] dec ks(1), unfolded ks(2,3), OF assms(8)]
  have w: "written V fs h = map (frame_of (w_mqttrs V)) (publish_answers ?p ?q)"
    using written_served [OF assms(2) joinedD(3) [OF assms(1)] dec ks(1), unfolded ks(2), OF assms(8)] .
  obtain s where s: "h_state h = Connected s" using assms(2) by (auto simp: conn_def)
  have "list_all (\<lambda>k. list_all (\<lambda>a. pkt_pid a = Some ?p) (txn_steps k)) ?ks"
    by (cases ?q) (simp_all add: publish_packets_def published_def)
  from served_phase [OF s this, of V] obtain s' where s': "h_state (served V ?ks h) = Connected s'"
      "(s', h_tasks (served V ?ks h)) =
        fold (txn_update ?p) (if ?q = ExactlyOnce then [P_Pubrec ?p, P_Pubrel ?p, P_Pubcomp ?p] else []) (s, h_tasks h)"
    unfolding ks(4) by blast
  have "phase (s', h_tasks (served V ?ks h)) p = None" if none: "phase (s, h_tasks h) p = None" for p
    unfolding s'(2) using none by (cases "p = ?p") (simp_all add: txns.ph_upd)
  then show ?thesis
    using publish_answered [OF assms(1,3-7) refl assms(8)] assms(9,10) w serve(1,2,4) s s'(1) by auto
qed

subsection \<open>Connecting and requests\<close>

definition accepted :: Packet where
  "accepted = P_Connack \<lparr>ca_session_present = False, ca_code = Accepted\<rparr>"

text \<open>The turn of a fresh handler on the packet of \<open>connect\<close>.\<close>

lemma connect_packet_from:
  "packet_from (connect_packet ka cid will) = P_Connect \<lparr>con_protocol = MQTT311, con_keep_alive = ka, con_client_id = cid,
     con_clean_session = True, con_last_will = map_option last_will_from will, con_username = Some cid, con_password = None\<rparr>"
  by (cases will) (simp_all add: connect_packet_def)

lemma connect_turn:
  assumes "links_up V" "idle tx h" "sendable (w_mqttrs V) [accepted]"
    and "decode (w_mqttrs V) b = Inr (Some (packet_from (connect_packet ka cid will)))"
  shows "\<exists>h' s. listen_turn V (Frame b) h = (Inr True, h') \<and> conn cid tx h' \<and> h_broker_tx h' = [ClientConnected cid tx] \<and>
    h_framed h' = h_framed h @ [frame_of (w_mqttrs V) accepted] \<and>
    h_state h' = Connected s \<and> s_last_will s = map_option last_will_from will"
proof -
  define c where "c = \<lparr>con_protocol = MQTT311, con_keep_alive = ka, con_client_id = cid,
     con_clean_session = True, con_last_will = map_option last_will_from will, con_username = Some cid, con_password = None\<rparr>"
  have c: "con_protocol c = MQTT311" "con_client_id c = cid" "con_last_will c = map_option last_will_from will"
    by (simp_all add: c_def)
  have dec: "decode (w_mqttrs V) b = Inr (Some (P_Connect c))" using assms(4) unfolding connect_packet_from c_def .
  have ack: "encode (w_mqttrs V) accepted = Inr (frame_of (w_mqttrs V) accepted)" using assms(3) by (simp add: sendable_def)
  define h' where "h' = h\<lparr>h_framed := h_framed h @ [frame_of (w_mqttrs V) accepted], h_broker_tx := [ClientConnected cid tx],
      h_connect_timeout := False, h_state := Connected (session_new cid (h_config h) (con_last_will c) tx)\<rparr>"
  have "listen_turn V (Frame b) h = (Inr True, h')"
    using connect_handshake [OF assms(2) dec] ack assms(1) c by (simp add: links_up_def accepted_def h'_def)
  moreover have "conn cid tx h'"
    using update_state_connect_conn [OF assms(2) update_state_connect [OF assms(2), of V c]] assms(1) c(2)
    by (simp add: links_up_def h'_def conn_def)
  ultimately show ?thesis using c(3) by (intro exI [of _ h']) (simp add: h'_def session_new_def)
qed

text \<open>C13: connecting works between the two programs. On a fresh connection the command \<open>connect\<close>, with any flags that can be
  parsed, sends one packet; the broker's handler registers the client under the identifier that the flags or
  the context give, keeps the last will of the flags and accepts; and when the client receives that answer the
  command succeeds and \<open>publish\<close> becomes available.\<close>

theorem connect_with_broker:
  assumes "joined W V" "idle tx h" "connect_flags W command x keep_alive hostname port cid last_will"
    and "x_state x ''cmd_queue_tx'' = Some SV_Sender" "cw_connect W hostname (of_nat port)"
    and "fits_in W (size_of (cw_mqttrs W) T_mqttrs_Connect) (connect_packet (of_nat keep_alive) cid last_will)"
    and "b = client_bytes W (size_of (cw_mqttrs W) T_mqttrs_Connect) (connect_packet (of_nat keep_alive) cid last_will)"
    and "sendable (w_mqttrs V) [accepted]" "receives W (x_recv_pos x) (written V [b] h)"
  shows "\<exists>x' h' s. connect W command x = (Inr RC_Ok, x') \<and>
    x_tcp_write_tx x' = Some [Tx_Mqtt b True] \<and> x_recv_pos x' = x_recv_pos x + length (written V [b] h) \<and>
    enabled x' B_publish \<and> \<not> enabled x' B_connect \<and>
    listen_turn V (Frame b) h = (Inr True, h') \<and> conn cid tx h' \<and> h_broker_tx h' = [ClientConnected cid tx] \<and>
    h_framed h' = h_framed h @ [frame_of (w_mqttrs V) accepted] \<and>
    h_state h' = Connected s \<and> s_last_will s = map_option last_will_from last_will"
proof -
  let ?pkt = "connect_packet (of_nat keep_alive) cid last_will"
  note J = joinedD [OF assms(1)]
  have dec: "decode (w_mqttrs V) b = Inr (Some (packet_from ?pkt))"
    using client_bytes_decode [OF assms(1,6)] assms(7) by simp
  obtain h' s where turn: "listen_turn V (Frame b) h = (Inr True, h')" "conn cid tx h'" "h_broker_tx h' = [ClientConnected cid tx]"
      "h_framed h' = h_framed h @ [frame_of (w_mqttrs V) accepted]" "h_state h' = Connected s"
      "s_last_will s = map_option last_will_from last_will"
    using connect_turn [OF J(3) assms(2,8) dec] by blast
  then have w: "written V [b] h = [frame_of (w_mqttrs V) accepted]"
    by (simp add: written_def listen_Cons [OF turn(1)] del: listen_turn.simps listen_for_messages.simps(2))
  obtain x1 where x1: "x1 \<in> {x, x\<lparr>x_client_id := cid\<rparr>}" and run: "connect W command x =
      andthen (spawn_keep_alive W (of_nat keep_alive)) (connect_handshake_with W hostname (of_nat port) b) x1"
    using connect_run [OF assms(3) client_bytes_fits [OF assms(6)]] assms(7) by auto
  define x2 where "x2 = (if (of_nat keep_alive :: u16) > 0 then x1\<lparr>x_keep_alive_tx := Some (of_nat keep_alive, [Suspend])\<rparr> else x1)"
  have x2: "x_state x2 ''cmd_queue_tx'' = Some SV_Sender" "x_recv_pos x2 = x_recv_pos x" "x_state x1 ''cmd_queue_tx'' = Some SV_Sender"
    using x1 assms(4) by (auto simp: x2_def)
  have "decode_tcp_rx (cw_mqttrs W) (Rx_Mqtt (frame_of (w_mqttrs V) accepted)) = Inr (packet_into accepted)"
    by (rule broker_bytes_decode [OF assms(1,8)])
  then obtain x' where "connect_handshake_with W hostname (of_nat port) b x2 = (Inr RC_Ok, x')"
      "x_tcp_write_tx x' = Some [Tx_Mqtt b True]" "x_recv_pos x' = Suc (x_recv_pos x)"
    using handshake_run [OF x2(1) assms(5) J(4,5), of "Rx_Mqtt (frame_of (w_mqttrs V) accepted)" _ b] assms(9) w x2(2)
    by (auto simp: accepted_def)
  then show ?thesis
    using run spawn_keep_alive_run [OF x2(3) J(5), of "of_nat keep_alive"] w turn
    by (intro exI [of _ x'] exI [of _ h'] exI [of _ s]) (simp add: andthen_def bnd_apply x2_def [symmetric])
qed

text \<open>One frame with one answer.\<close>

lemma one_answer:
  assumes J: "joined W V" and h: "conn cid tx h" and fits: "fits_in W n pkt" and k: "packet_from pkt = k" "acceptable k"
    and a: "replies k = [a]" "sendable (w_mqttrs V) [a]" and recv: "receives W pos (written V [client_bytes W n pkt] h)"
  shows "written V [client_bytes W n pkt] h = [frame_of (w_mqttrs V) a]"
    "\<exists>h'. listen_turn V (Frame (client_bytes W n pkt)) h = (Inr True, h') \<and> conn cid tx h' \<and>
       h_broker_tx h' = h_broker_tx h @ requests cid k"
    "cw_recv W pos = Inr (Rx_Mqtt (frame_of (w_mqttrs V) a))"
    "decode_tcp_rx (cw_mqttrs W) (Rx_Mqtt (frame_of (w_mqttrs V) a)) = Inr (packet_into a)"
proof -
  have dec: "decode (w_mqttrs V) (client_bytes W n pkt) = Inr (Some k)" using client_bytes_decode [OF J fits] k(1) by simp
  then show w: "written V [client_bytes W n pkt] h = [frame_of (w_mqttrs V) a]"
    using written_served [OF h joinedD(3) [OF J], of "[client_bytes W n pkt]" "[k]"] k(2) a by simp
  show "cw_recv W pos = Inr (Rx_Mqtt (frame_of (w_mqttrs V) a))" using recv unfolding w by simp
  show "decode_tcp_rx (cw_mqttrs W) (Rx_Mqtt (frame_of (w_mqttrs V) a)) = Inr (packet_into a)"
    by (rule broker_bytes_decode [OF J a(2)])
  show "\<exists>h'. listen_turn V (Frame (client_bytes W n pkt)) h = (Inr True, h') \<and> conn cid tx h' \<and>
       h_broker_tx h' = h_broker_tx h @ requests cid k"
    using react_turn [OF h dec k(2) joinedD(3) [OF J]] a by (metis reacted_simps(2))
qed

definition subscribe_request :: "cli_world \<Rightarrow> string list \<Rightarrow> mqttrs_Packet" where
  "subscribe_request W topics = M_Subscribe \<lparr>sub_pid = pid_new (cw_mqttrs W),
     sub_topics = map (\<lambda>t. \<lparr>mst_topic_path = t, mst_qos = AtMostOnce\<rparr>) topics\<rparr>"

definition unsubscribe_request :: "cli_world \<Rightarrow> string list \<Rightarrow> mqttrs_Packet" where
  "unsubscribe_request W topics = M_Unsubscribe \<lparr>unsub_pid = pid_new (cw_mqttrs W), unsub_topics = topics\<rparr>"

text \<open>The answer of the handler to \<open>subscribe\<close>.\<close>

definition subscribe_answer :: "cli_world \<Rightarrow> string list \<Rightarrow> Packet" where
  "subscribe_answer W topics = P_Suback \<lparr>sa_pid = pid_new (cw_mqttrs W),
     sa_return_codes = replicate (length topics) (Success AtMostOnce)\<rparr>"

lemma ping_answered:
  assumes "joined W V" "conn cid tx h" "x_tcp_read_rx x" "x_tcp_write_tx x = Some sent"
    and "sendable (w_mqttrs V) [P_Pingresp]" "fits_in W 10 M_Pingreq" "b = client_bytes W 10 M_Pingreq"
    and "receives W (x_recv_pos x) (written V [b] h)"
  shows "\<exists>x' alive h'. ping W command x = (Inr RC_Ok, x') \<and>
    x_tcp_write_tx x' = Some (sent @ [Tx_Mqtt b alive]) \<and>
    listen_turn V (Frame b) h = (Inr True, h') \<and> conn cid tx h' \<and> h_broker_tx h' = h_broker_tx h"
proof -
  note one = one_answer [OF assms(1,2,6) refl _ _ assms(5) assms(8) [unfolded assms(7)]]
  define alive where "alive = (get_flag W command (CHR ''n'') = None)"
  have "ping W command x = (Inr RC_Ok, x\<lparr>x_tcp_write_tx := Some (sent @ [Tx_Mqtt b alive]), x_recv_pos := Suc (x_recv_pos x)\<rparr>)"
    using one(3,4) assms(3,4,7) client_bytes_fits [OF assms(6)] joinedD(4) [OF assms(1)]
    by (simp add: ping_def Let_def alive_def lift_result_def err_into_def tcp_send_def tcp_recv_timeout_def andthen_def bnd_apply)
  then show ?thesis using one(2) assms(7) by auto
qed

lemma unsubscribe_answered:
  assumes "joined W V" "conn cid tx h" "x_tcp_read_rx x" "x_tcp_write_tx x = Some sent"
    and "sendable (w_mqttrs V) [P_Unsuback (pid_new (cw_mqttrs W))]" "topics \<noteq> []" "c_operands command = topics"
    and "n = size_of (cw_mqttrs W) T_Unsubscribe + topics_size topics" "fits_in W n (unsubscribe_request W topics)"
    and "b = client_bytes W n (unsubscribe_request W topics)" "receives W (x_recv_pos x) (written V [b] h)"
  shows "\<exists>x' h' u. unsubscribe W command x = (Inr RC_Ok, x') \<and>
    x_tcp_write_tx x' = Some (sent @ [Tx_Mqtt b True]) \<and>
    listen_turn V (Frame b) h = (Inr True, h') \<and> conn cid tx h' \<and>
    h_broker_tx h' = h_broker_tx h @ [BM_Unsubscribe cid u] \<and> unsub_topics u = topics"
proof -
  have k: "acceptable (packet_from (unsubscribe_request W topics))"
    "replies (packet_from (unsubscribe_request W topics)) = [P_Unsuback (pid_new (cw_mqttrs W))]"
    using assms(6) by (simp_all add: unsubscribe_request_def)
  note one = one_answer [OF assms(1,2,9) refl k assms(5) assms(11) [unfolded assms(10)]]
  have "unsubscribe W command x = (Inr RC_Ok, x\<lparr>x_tcp_write_tx := Some (sent @ [Tx_Mqtt b True]), x_recv_pos := Suc (x_recv_pos x)\<rparr>)"
    using one(3,4) assms(3,4,6-8,10) client_bytes_fits [OF assms(9)] joinedD(4) [OF assms(1)]
    by (simp add: unsubscribe_def Let_def topics_size_def [symmetric] unsubscribe_request_def lift_result_def err_into_def
        tcp_send_def tcp_recv_timeout_def andthen_def bnd_apply)
  then show ?thesis using one(2) assms(10) by (auto simp: unsubscribe_request_def)
qed

lemma subscribe_answered:
  assumes "joined W V" "conn cid tx h" "x_tcp_read_rx x" "x_tcp_write_tx x = Some sent"
    and "sendable (w_mqttrs V) [subscribe_answer W topics]" "topics \<noteq> []" "\<not> cancelled (cw_signals W (x_recv_pos x))"
    and "n = size_of (cw_mqttrs W) T_Subscribe + topics_size topics" "fits_in W n (subscribe_request W topics)"
    and "b = client_bytes W n (subscribe_request W topics)" "receives W (x_recv_pos x) (written V [b] h)"
  shows "\<exists>x1 x2 h' s. sub_request W topics x = (Inr (), x1) \<and>
    x_tcp_write_tx x1 = Some (sent @ [Tx_Mqtt b True]) \<and>
    sub_turn W (pid_new (cw_mqttrs W)) topics \<lparr>ss_shown = [], ss_codes = []\<rparr> x1 =
      Some (Sub_Again, \<lparr>ss_shown = [], ss_codes = replicate (length topics) (Success AtMostOnce)\<rparr>, x2) \<and>
    listen_turn V (Frame b) h = (Inr True, h') \<and> conn cid tx h' \<and>
    h_broker_tx h' = h_broker_tx h @ [BM_Subscribe cid s] \<and> map mst_topic_path (sub_topics s) = topics"
proof -
  have k: "acceptable (packet_from (subscribe_request W topics))"
    "replies (packet_from (subscribe_request W topics)) = [subscribe_answer W topics]"
    using assms(6) by (simp_all add: subscribe_request_def subscribe_answer_def)
  note one = one_answer [OF assms(1,2,9) refl k assms(5) assms(11) [unfolded assms(10)]]
  let ?x1 = "x\<lparr>x_tcp_write_tx := Some (sent @ [Tx_Mqtt b True])\<rparr>"
  have "sub_request W topics x = (Inr (), ?x1)"
    using assms(4,8,10) client_bytes_fits [OF assms(9)] joinedD(4) [OF assms(1)]
    by (simp add: sub_request_def Let_def topics_size_def [symmetric] subscribe_request_def lift_result_def err_into_def
        tcp_send_def bnd_apply)
  moreover have "sub_turn W (pid_new (cw_mqttrs W)) topics \<lparr>ss_shown = [], ss_codes = []\<rparr> ?x1 =
      Some (Sub_Again, \<lparr>ss_shown = [], ss_codes = replicate (length topics) (Success AtMostOnce)\<rparr>, ?x1\<lparr>x_recv_pos := Suc (x_recv_pos x)\<rparr>)"
    using one(3,4) assms(3,7)
    by (simp add: sub_turn_def tcp_recv_timeout_def sub_packet_def suback_codes_result subscribe_answer_def)
  ultimately show ?thesis using one(2) assms(10) by (auto simp: subscribe_request_def comp_def)
qed

text \<open>C14: requests work between the two programs. Over a connection on which no other packet is under way, \<open>ping\<close> and
  \<open>unsubscribe\<close> succeed with the handler's answer to their one frame. Of \<open>subscribe\<close>, the request is sent and what the handler
  answers to it is accepted by the first turn of its loop: the identifier is the right
  one, and there are never too many return codes, at which the command would panic. The handler passes exactly the requests on.\<close>

theorem requests_with_broker:
  assumes "joined W V" "conn cid tx h" "x_tcp_read_rx x" "x_tcp_write_tx x = Some sent"
    and "sendable (w_mqttrs V) [P_Pingresp, P_Unsuback (pid_new (cw_mqttrs W)), subscribe_answer W topics]"
    and "topics \<noteq> []" "c_operands command = topics" "\<not> cancelled (cw_signals W (x_recv_pos x))"
    and "n = size_of (cw_mqttrs W) T_Unsubscribe + topics_size topics" "m = size_of (cw_mqttrs W) T_Subscribe + topics_size topics"
    and "fits_in W 10 M_Pingreq" "fits_in W n (unsubscribe_request W topics)" "fits_in W m (subscribe_request W topics)"
    and "b1 = client_bytes W 10 M_Pingreq" "b2 = client_bytes W n (unsubscribe_request W topics)" "b3 = client_bytes W m (subscribe_request W topics)"
  shows "(receives W (x_recv_pos x) (written V [b1] h) \<longrightarrow>
      (\<exists>x' alive h'. ping W command x = (Inr RC_Ok, x') \<and>
         x_tcp_write_tx x' = Some (sent @ [Tx_Mqtt b1 alive]) \<and>
         listen_turn V (Frame b1) h = (Inr True, h') \<and> conn cid tx h' \<and> h_broker_tx h' = h_broker_tx h)) \<and>
    (receives W (x_recv_pos x) (written V [b2] h) \<longrightarrow>
      (\<exists>x' h' u. unsubscribe W command x = (Inr RC_Ok, x') \<and>
         x_tcp_write_tx x' = Some (sent @ [Tx_Mqtt b2 True]) \<and>
         listen_turn V (Frame b2) h = (Inr True, h') \<and> conn cid tx h' \<and>
         h_broker_tx h' = h_broker_tx h @ [BM_Unsubscribe cid u] \<and> unsub_topics u = topics)) \<and>
    (receives W (x_recv_pos x) (written V [b3] h) \<longrightarrow>
      (\<exists>x1 x2 h' s. sub_request W topics x = (Inr (), x1) \<and>
         x_tcp_write_tx x1 = Some (sent @ [Tx_Mqtt b3 True]) \<and>
         sub_turn W (pid_new (cw_mqttrs W)) topics \<lparr>ss_shown = [], ss_codes = []\<rparr> x1 =
           Some (Sub_Again, \<lparr>ss_shown = [], ss_codes = replicate (length topics) (Success AtMostOnce)\<rparr>, x2) \<and>
         listen_turn V (Frame b3) h = (Inr True, h') \<and> conn cid tx h' \<and>
         h_broker_tx h' = h_broker_tx h @ [BM_Subscribe cid s] \<and> map mst_topic_path (sub_topics s) = topics))"
proof -
  have a: "sendable (w_mqttrs V) [P_Pingresp]" "sendable (w_mqttrs V) [P_Unsuback (pid_new (cw_mqttrs W))]"
    "sendable (w_mqttrs V) [subscribe_answer W topics]"
    using assms(5) by (simp_all add: sendable_def)
  note open_link = assms(1-4)
  show ?thesis
    using ping_answered [OF open_link a(1) assms(11,14)] unsubscribe_answered [OF open_link a(2) assms(6,7,9,12,15)]
      subscribe_answered [OF open_link a(3) assms(6,8,10,13,16)]
    by blast
qed


subsection \<open>A codec to try it on\<close>

text \<open>A codec for a given list of packets: a packet is one byte, its position in the list, and the padding is left alone.\<close>

definition table_codec :: "mqttrs_Packet list \<Rightarrow> mqttrs_api" where
  "table_codec ps =
     \<lparr>encode_slice = (\<lambda>p buf. if p \<in> set ps \<and> buf \<noteq> [] then Inr (1, of_nat (length (takeWhile (\<lambda>q. q \<noteq> p) ps)) # tl buf) else Inl ''e''),
      decode_slice = (\<lambda>b. case b of [] \<Rightarrow> Inr None | c # _ \<Rightarrow> Inr (if unat c < length ps then Some (ps ! unat c) else None)),
      pid_new = Pid 1, size_of = (\<lambda>_. 1)\<rparr>"

lemma takeWhile_index:
  "p \<in> set ps \<Longrightarrow> length (takeWhile (\<lambda>q. q \<noteq> p) ps) < length ps \<and> ps ! length (takeWhile (\<lambda>q. q \<noteq> p) ps) = p"
  by (induction ps) auto

lemma table_round_trip:
  assumes "length ps \<le> 256"
  shows "round_trip (table_codec ps)"
proof -
  have "unat (of_nat (length (takeWhile (\<lambda>q. q \<noteq> p) ps)) :: u8) = length (takeWhile (\<lambda>q. q \<noteq> p) ps)" if "p \<in> set ps" for p
    using takeWhile_index [OF that] assms by (simp add: unat_of_nat)
  then show ?thesis
    by (auto simp: round_trip_def writes_prefix_def reads_back_def table_codec_def takeWhile_index Suc_le_eq
        drop_Suc split: if_splits)
qed

lemma table_simps [simp]: "pid_new (table_codec ps) = Pid 1" "size_of (table_codec ps) t = 1"
  by (simp_all add: table_codec_def)

lemma table_writes: "p \<in> set ps \<Longrightarrow> 0 < n \<Longrightarrow> \<exists>m b. encode_slice (table_codec ps) p (replicate n 0) = Inr (m, b)"
  by (simp add: table_codec_def)

lemma table_sendable:
  assumes "packet_into ` set ks \<subseteq> set ps"
  shows "sendable (table_codec ps) ks"
  unfolding sendable_iff
proof
  fix k assume "k \<in> set ks"
  then have "packet_into k \<in> set ps" "0 < encode_size (table_codec ps) (packet_into k)"
    using assms by (auto simp: encode_size_def)
  from table_writes [OF this] show "\<exists>b. encode (table_codec ps) k = Inr b" by (auto simp: encode_def Let_def)
qed

definition table_world :: "mqttrs_Packet list \<Rightarrow> framed \<Rightarrow> cmd_flag list \<Rightarrow> cli_world" where
  "table_world ps fs flags = (toy_world (\<lambda>i. if i < length fs then Inr (Rx_Mqtt (fs ! i)) else Inl RecvTimeout))
     \<lparr>cw_mqttrs := table_codec ps, cw_iter := (\<lambda>_. flags)\<rparr>"

definition table_broker :: "mqttrs_Packet list \<Rightarrow> world" where
  "table_broker ps = sample_world\<lparr>w_mqttrs := table_codec ps\<rparr>"

lemma table_world_simps [simp]:
  "cw_mqttrs (table_world ps fs flags) = table_codec ps" "w_mqttrs (table_broker ps) = table_codec ps"
  "cw_iter (table_world ps fs flags) S = flags" "cw_signals (table_world ps fs flags) i = []"
  "cw_connect (table_world ps fs flags) host port" "receives (table_world ps fs flags) 0 fs"
  by (simp_all add: table_world_def table_broker_def toy_world_def receives_def)

lemma table_fits: "k \<in> set ps \<Longrightarrow> 0 < n \<Longrightarrow> fits_in (table_world ps fs flags) n k"
  using table_writes [of k ps n] by (auto simp: fits_in_def encode_into_def)

lemma table_joined: "length ps \<le> 256 \<Longrightarrow> joined (table_world ps fs flags) (table_broker ps)"
  by (simp add: joined_def table_round_trip links_up_def table_broker_def) (simp add: table_world_def toy_world_def)

lemma toy_context_state [simp]: "x_state toy_context ''cmd_queue_tx'' = Some SV_Sender"
  by (simp add: toy_context_def)

definition qos_flag :: "string \<Rightarrow> cmd_flag" where
  "qos_flag v = \<lparr>cf_spec = spec_flag_new ''qos'' (CHR ''q'') SA_Required [], cf_arg = CA_Required v\<rparr>"

theorem publish_with_broker_witness:
  "\<exists>W V x' h'. publish W \<lparr>c_spec = spec_publish, c_flags = {qos_flag ''2''}, c_operands = [''t'', ''m'']\<rparr> toy_context
       = Some (Inr RC_Ok, x') \<and> conn ''c'' 9 h' \<and> x_recv_pos x' = 2 \<and>
     h_broker_tx h' = h_broker_tx sample_connected @ [BM_Publish ''c'' (published (Pid 1) ExactlyOnce ''t'' ''m'')] \<and> joined W V"
proof -
  define ks where "ks = publish_packets (Pid 1) ExactlyOnce ''t'' ''m''"
  define ps where "ps = ks @ map packet_into (publish_answers (Pid 1) ExactlyOnce)"
  let ?V = "table_broker ps" and ?c = "\<lparr>c_spec = spec_publish, c_flags = {qos_flag ''2''}, c_operands = [''t'', ''m'']\<rparr>"
  define fs where "fs = frames_of (table_world ps [] []) ks"
  define W where "W = table_world ps (written ?V fs sample_connected) [qos_flag ''2'']"
  have len: "length ps \<le> 256" by (simp add: ps_def ks_def publish_packets_def publish_answers_def)
  have J: "joined W ?V" unfolding W_def by (rule table_joined [OF len])
  have q: "flag_value W ?c (CHR ''q'') (parse_uint 8) 0 = Inr 2"
    by (simp add: W_def flag_value_def get_flag_def cmd_query_def qos_flag_def spec_flag_new_def parse_uint_def digit_val_def)
  have fits: "\<forall>k \<in> set ks. fits_in W (send_size (cw_mqttrs W) k) k"
    unfolding W_def by (intro ballI table_fits) (simp_all add: ps_def send_size_def)
  have ans: "sendable (w_mqttrs ?V) (publish_answers (Pid 1) ExactlyOnce)"
    by (simp add: table_sendable ps_def)
  have fsW: "fs = frames_of W ks" by (simp add: fs_def W_def frames_of_def client_bytes_def)
  have recv: "receives W (x_recv_pos toy_context) (written ?V fs sample_connected)" by (simp add: W_def)
  have two: "publish_qos 2 = ExactlyOnce" "pid_new (cw_mqttrs W) = Pid 1" by (simp_all add: publish_qos_def W_def)
  have w: "length (written ?V fs sample_connected) = 2"
    using written_served [OF sample_conn joinedD(3) [OF J], of fs "map packet_from ks"] publish_packets_served(1,2) ans
      client_bytes_decode [OF J] fits
    by (simp add: ks_def fsW frames_of_def list_all2_conv_all_nth all_set_conv_all_nth)
      (simp add: publish_answers_def)
  show ?thesis
    using publish_with_broker [OF J sample_conn _ _ q, of toy_context "[]" "''t''" "''m''" "[]" fs] fits ans fsW recv two J w
    by (auto simp: ks_def)
qed

theorem connect_with_broker_witness:
  "\<exists>W V x' h'. connect W \<lparr>c_spec = spec_connect, c_flags = {}, c_operands = []\<rparr> toy_context = (Inr RC_Ok, x') \<and>
     enabled x' B_publish \<and> conn ''mqtt-cli'' 9 h' \<and> h_broker_tx h' = [ClientConnected ''mqtt-cli'' 9] \<and> joined W V"
proof -
  define pkt where "pkt = connect_packet (of_nat 0) ''mqtt-cli'' None"
  define ps where "ps = [pkt, packet_into accepted]"
  let ?V = "table_broker ps" and ?c = "\<lparr>c_spec = spec_connect, c_flags = {}, c_operands = []\<rparr>"
  define b where "b = client_bytes (table_world ps [] []) 1 pkt"
  define W where "W = table_world ps (written ?V [b] sample_handler) []"
  have J: "joined W ?V" unfolding W_def by (rule table_joined) (simp add: ps_def)
  have flags: "connect_flags W ?c toy_context 0 ''127.0.0.1'' 1883 ''mqtt-cli'' None"
    by (simp add: connect_flags_def W_def flag_value_def get_flag_def cmd_query_def toy_context_def connect_last_will_def)
  have fits: "fits_in W (size_of (cw_mqttrs W) T_mqttrs_Connect) pkt"
    unfolding W_def by (rule table_fits) (simp_all add: ps_def)
  have ans: "sendable (w_mqttrs ?V) [accepted]" by (simp add: table_sendable ps_def)
  have b: "b = client_bytes W (size_of (cw_mqttrs W) T_mqttrs_Connect) pkt" by (simp add: b_def W_def client_bytes_def)
  have recv: "receives W (x_recv_pos toy_context) (written ?V [b] sample_handler)" "cw_connect W ''127.0.0.1'' (of_nat 1883)"
    by (simp_all add: W_def)
  from connect_with_broker [OF J sample_idle flags toy_context_state recv(2) fits [unfolded pkt_def] b [unfolded pkt_def] ans recv(1)] J
  show ?thesis by blast
qed

theorem requests_with_broker_witness:
  "\<exists>W V x' b alive h'. ping W \<lparr>c_spec = spec_subscribe, c_flags = {}, c_operands = [''t'']\<rparr> toy_context = (Inr RC_Ok, x') \<and>
     x_tcp_write_tx x' = Some [Tx_Mqtt b alive] \<and> listen_turn V (Frame b) sample_connected = (Inr True, h') \<and>
     conn ''c'' 9 h' \<and> joined W V"
proof -
  define W0 where "W0 = table_world [] [] []"
  define ps where "ps = [M_Pingreq, unsubscribe_request W0 [''t''], subscribe_request W0 [''t''],
    M_Pingresp, M_Unsuback (Pid 1), packet_into (subscribe_answer W0 [''t''])]"
  let ?V = "table_broker ps" and ?c = "\<lparr>c_spec = spec_subscribe, c_flags = {}, c_operands = [''t'']\<rparr>"
  define b where "b = client_bytes (table_world ps [] []) 10 M_Pingreq"
  define W where "W = table_world ps (written ?V [b] sample_connected) []"
  have J: "joined W ?V" unfolding W_def by (rule table_joined) (simp add: ps_def)
  have same: "unsubscribe_request W = unsubscribe_request W0" "subscribe_request W = subscribe_request W0"
    "subscribe_answer W = subscribe_answer W0" "pid_new (cw_mqttrs W) = Pid 1"
    by (simp_all add: fun_eq_iff W_def W0_def unsubscribe_request_def subscribe_request_def subscribe_answer_def)
  have ans: "sendable (w_mqttrs ?V) [P_Pingresp, P_Unsuback (pid_new (cw_mqttrs W)), subscribe_answer W [''t'']]"
    by (simp add: same table_sendable ps_def)
  have fits: "fits_in W n k" if "k \<in> set ps" "0 < n" for n k unfolding W_def using that by (rule table_fits)
  have b: "b = client_bytes W 10 M_Pingreq" by (simp add: b_def W_def client_bytes_def)
  have up: "x_tcp_read_rx toy_context" "x_tcp_write_tx toy_context = Some []" by simp_all
  have recv: "receives W (x_recv_pos toy_context) (written ?V [b] sample_connected)" by (simp add: W_def)
  have f: "fits_in W 10 M_Pingreq" "0 < n \<Longrightarrow> fits_in W n (unsubscribe_request W [''t''])"
    "0 < n \<Longrightarrow> fits_in W n (subscribe_request W [''t''])" for n
    by (rule fits; simp add: same ps_def)+
  have c: "\<not> cancelled (cw_signals W (x_recv_pos toy_context))" "0 < size_of (cw_mqttrs W) t + m" for t m
    by (simp_all add: W_def)
  have "\<exists>x' alive h'. ping W ?c toy_context = (Inr RC_Ok, x') \<and> x_tcp_write_tx x' = Some ([] @ [Tx_Mqtt b alive]) \<and>
      listen_turn ?V (Frame b) sample_connected = (Inr True, h') \<and> conn ''c'' 9 h' \<and> h_broker_tx h' = h_broker_tx sample_connected"
    using requests_with_broker [OF J sample_conn up ans _ _ c(1) refl refl f(1) f(2) [OF c(2)] f(3) [OF c(2)] b refl refl,
        of ?c, THEN conjunct1, THEN mp, OF _ _ recv] by simp
  with J show ?thesis unfolding append_Nil by blast
qed

end
