(* ===== verification/Delivery.thy ===== *)
theory Delivery
  imports Client_Broker
begin

section \<open>From one client to another\<close>

text \<open>
  The whole way of a message: the command \<open>publish\<close> of one client, the broker process with its tasks and
  channels, and the command \<open>subscribe\<close> of another client, which shows the message and acknowledges it.
\<close>

subsection \<open>The last hop\<close>

text \<open>What a subscriber's handler writes for a publish and the packets with which its client answers.\<close>

definition delivery_packets :: "Publish \<Rightarrow> Packet list" where
  "delivery_packets k = P_Publish k # (case pub_qospid k of QP_ExactlyOnce p \<Rightarrow> [P_Pubrel p] | _ \<Rightarrow> [])"

definition ack_packets :: "QosPid \<Rightarrow> mqttrs_Packet list" where
  "ack_packets q = (case q of QP_AtMostOnce \<Rightarrow> [] | QP_AtLeastOnce p \<Rightarrow> [M_Puback p] | QP_ExactlyOnce p \<Rightarrow> [M_Pubrec p, M_Pubcomp p])"

text \<open>The size of the buffer that \<open>subscribe.rs\<close> chooses for them.\<close>

definition ack_size :: "cli_world \<Rightarrow> mqttrs_Packet \<Rightarrow> nat" where
  "ack_size W k = (case k of M_Puback _ \<Rightarrow> puback_size W | _ \<Rightarrow> send_size (cw_mqttrs W) k)"

definition ack_bytes :: "cli_world \<Rightarrow> QosPid \<Rightarrow> bytes list" where
  "ack_bytes W q = map (\<lambda>k. client_bytes W (ack_size W k) k) (ack_packets q)"

lemma encoded_fits: "fits_in W n k \<Longrightarrow> encoded W n k = Tx_Mqtt (client_bytes W n k) True"
  by (auto simp: fits_in_def encoded_def client_bytes_def)

lemma subscriber_takes:
  assumes J: "joined W V" and x: "x_tcp_read_rx x" "x_tcp_write_tx x = Some sent" "\<not> cancelled (cw_signals W (x_recv_pos x))"
    and fits: "\<forall>k \<in> set (ack_packets (pub_qospid m)). fits_in W (ack_size W k) k"
    and out: "sendable (w_mqttrs V) (delivery_packets m)"
    and recv: "receives W (x_recv_pos x) (map (frame_of (w_mqttrs V)) (delivery_packets m))"
  shows "sub_turn W q topics st x = Some (Sub_Again, st\<lparr>ss_shown := ss_shown st @ [(pub_topic_name m, pub_payload m)]\<rparr>,
    x\<lparr>x_recv_pos := x_recv_pos x + length (delivery_packets m),
      x_tcp_write_tx := Some (sent @ map (\<lambda>b. Tx_Mqtt b True) (ack_bytes W (pub_qospid m)))\<rparr>)"
proof -
  note J' = joinedD [OF J]
  let ?f = "\<lambda>k. Rx_Mqtt (frame_of (w_mqttrs V) k)" and ?x1 = "x\<lparr>x_recv_pos := Suc (x_recv_pos x)\<rparr>"
  have dec: "decode_tcp_rx (cw_mqttrs W) (?f k) = Inr (packet_into k)" if "k \<in> set (delivery_packets m)" for k
    using that out broker_bytes_decode [OF J, of k] by (auto simp: sendable_def list_all_iff)
  have first: "tcp_recv_timeout W x = (Inr (?f (P_Publish m)), ?x1)"
    using recv x(1) by (simp add: tcp_recv_timeout_def delivery_packets_def)
  obtain pub where pub: "decode_tcp_rx (cw_mqttrs W) (?f (P_Publish m)) = Inr (M_Publish pub)"
      "mpub_topic_name pub = pub_topic_name m" "mpub_payload pub = pub_payload m" "mpub_qospid pub = pub_qospid m"
    using dec [of "P_Publish m"] by (simp add: delivery_packets_def)
  have "acknowledge W (pub_qospid m) ?x1 = Some (Inr (), x\<lparr>x_recv_pos := x_recv_pos x + length (delivery_packets m),
      x_tcp_write_tx := Some (sent @ map (\<lambda>b. Tx_Mqtt b True) (ack_bytes W (pub_qospid m)))\<rparr>)"
  proof (cases "pub_qospid m")
    case QP_AtMostOnce
    then show ?thesis using x(2) by (simp add: acknowledge_def delivery_packets_def ack_bytes_def ack_packets_def)
  next
    case (QP_AtLeastOnce p)
    then have "fits_in W (puback_size W) (M_Puback p)" using fits by (simp add: ack_packets_def ack_size_def)
    then show ?thesis using QP_AtLeastOnce encode_send [of W "puback_size W" "M_Puback p" ?x1 sent] x(2) J'(4) encoded_fits
      by (simp add: acknowledge_def delivery_packets_def ack_bytes_def ack_packets_def ack_size_def puback_size_def)
  next
    case (QP_ExactlyOnce p)
    let ?x2 = "?x1\<lparr>x_tcp_write_tx := Some (sent @ [sent_as W (M_Pubrec p)])\<rparr>"
    let ?x3 = "?x2\<lparr>x_recv_pos := Suc (Suc (x_recv_pos x))\<rparr>"
    have f: "fits_in W (send_size (cw_mqttrs W) (M_Pubrec p)) (M_Pubrec p)" "fits_in W (send_size (cw_mqttrs W) (M_Pubcomp p)) (M_Pubcomp p)"
      using fits QP_ExactlyOnce by (simp_all add: ack_packets_def ack_size_def)
    have "tcp_recv_timeout W ?x2 = (Inr (?f (P_Pubrel p)), ?x3)"
      using recv x(1) QP_ExactlyOnce by (simp add: tcp_recv_timeout_def delivery_packets_def)
    then have "await_pubrel W p 0 ?x2 = Some (Inr (), ?x3)"
      using await_packet [of W ?x2 _ ?x3 _ 0 p] dec [of "P_Pubrel p"] QP_ExactlyOnce by (simp add: delivery_packets_def)
    moreover have "send_packet W (M_Pubrec p) ?x1 = (Inr (), ?x2)"
      using send_packet_fits [OF f(1), of ?x1 sent] x(2) J'(4) by simp
    moreover have "send_packet W (M_Pubcomp p) ?x3 =
        (Inr (), ?x3\<lparr>x_tcp_write_tx := Some ((sent @ [sent_as W (M_Pubrec p)]) @ [sent_as W (M_Pubcomp p)])\<rparr>)"
      using J'(4) by (intro send_packet_fits [OF f(2)]) auto
    ultimately show ?thesis
      using QP_ExactlyOnce f
      by (simp add: acknowledge_def receive_exactly_once_def delivery_packets_def ack_bytes_def ack_packets_def ack_size_def sent_as_fits)
  qed
  then show ?thesis using first pub x(3) by (simp add: sub_turn_def sub_packet_def Let_def)
qed

text \<open>The handler's part: the message of the broker, then the client's answers.\<close>

definition informed :: "world \<Rightarrow> Publish \<Rightarrow> ClientHandler \<Rightarrow> ClientHandler" where
  "informed V k h = (case h_state h of
     Connected s \<Rightarrow>
       (with_store (case pkt_pid (P_Publish k) of None \<Rightarrow> (s, h_tasks h) | Some p \<Rightarrow> txn_update p (P_Publish k) (s, h_tasks h)) h)
         \<lparr>h_framed := h_framed h @ [frame_of (w_mqttrs V) (P_Publish k)]\<rparr>
   | Initialized \<Rightarrow> h)"

lemma inform_turn:
  assumes "conn cid tx h" "links_up V" "sendable (w_mqttrs V) [P_Publish k]"
  shows "listen_turn V (FromBroker (BM_Publish c k)) h = (Inr True, informed V k h)" "conn cid tx (informed V k h)"
    "h_framed (informed V k h) = h_framed h @ [frame_of (w_mqttrs V) (P_Publish k)]"
    "h_broker_tx (informed V k h) = h_broker_tx h"
proof -
  obtain s where s: "h_state h = Connected s" using assms(1) by (auto simp: conn_def)
  show turn: "listen_turn V (FromBroker (BM_Publish c k)) h = (Inr True, informed V k h)"
    using s assms(2,3)
    by (cases "pub_qospid k")
      (simp_all add: decode_broker_msg_def send_client_sendable session_update_qos_Connected informed_def with_store_def)
  then show "conn cid tx (informed V k h)" using keeps_run [OF turn_conn assms(1) turn] by simp
  show "h_framed (informed V k h) = h_framed h @ [frame_of (w_mqttrs V) (P_Publish k)]"
    "h_broker_tx (informed V k h) = h_broker_tx h"
    using s by (simp_all add: informed_def with_store_def)
qed

lemma ack_packets_served:
  "list_all acceptable (map packet_from (ack_packets q))" "concat (map (requests cid) (map packet_from (ack_packets q))) = []"
  "delivery_packets k = P_Publish k # concat (map replies (map packet_from (ack_packets (pub_qospid k))))"
  by (cases q; simp add: ack_packets_def; fail)+ (cases "pub_qospid k"; simp add: ack_packets_def delivery_packets_def)

text \<open>The transaction of the delivery, from its start to its end.\<close>

lemma delivery_closes:
  assumes "h_state h = Connected s"
  shows "\<exists>s'. h_state (served V (map packet_from (ack_packets (pub_qospid k))) (informed V k h)) = Connected s' \<and>
    (\<forall>p. phase (s, h_tasks h) p = None \<longrightarrow>
       phase (s', h_tasks (served V (map packet_from (ack_packets (pub_qospid k))) (informed V k h))) p = None)"
proof (cases "pkt_pid (P_Publish k)")
  case None
  then have q: "pub_qospid k = QP_AtMostOnce" by (cases "pub_qospid k") auto
  show ?thesis using assms None by (simp add: q ack_packets_def informed_def with_store_def)
next
  case (Some p)
  have i: "h_state (informed V k h) = Connected (fst (txn_update p (P_Publish k) (s, h_tasks h)))"
    "h_tasks (informed V k h) = snd (txn_update p (P_Publish k) (s, h_tasks h))"
    using assms Some by (simp_all add: informed_def with_store_def)
  have steps: "list_all (\<lambda>k. list_all (\<lambda>a. pkt_pid a = Some p) (txn_steps k)) (map packet_from (ack_packets (pub_qospid k)))"
    using Some by (cases "pub_qospid k") (auto simp: ack_packets_def)
  from served_phase [OF i(1) this, of V] i(2) obtain s' where s':
      "h_state (served V (map packet_from (ack_packets (pub_qospid k))) (informed V k h)) = Connected s'"
      "(s', h_tasks (served V (map packet_from (ack_packets (pub_qospid k))) (informed V k h))) =
        fold (txn_update p) (concat (map txn_steps (map packet_from (ack_packets (pub_qospid k)))))
          (txn_update p (P_Publish k) (s, h_tasks h))"
    by auto
  have "phase (s', h_tasks (served V (map packet_from (ack_packets (pub_qospid k))) (informed V k h))) r = None"
    if "phase (s, h_tasks h) r = None" for r
    unfolding s'(2) using Some that
    by (cases "pub_qospid k"; cases "r = p") (simp_all add: ack_packets_def txns.ph_upd)
  with s'(1) show ?thesis by blast
qed


subsection \<open>The broker process\<close>

text \<open>The world of the handlers of a process while the connections are up, and a handler that waits in its loop.\<close>

definition world_of :: "platform \<Rightarrow> world" where
  "world_of P = \<lparr>w_mqttrs = pf_mqttrs P, w_tcp_ok = up, w_broker_ok = (\<lambda>_. True), w_info = pf_info P\<rparr>"

lemma world_of_simps [simp]: "w_mqttrs (world_of P) = pf_mqttrs P" "links_up (world_of P)"
  by (simp_all add: world_of_def links_up_def up_def)

definition serving :: "system \<Rightarrow> sender \<Rightarrow> string \<Rightarrow> ClientHandler \<Rightarrow> bool" where
  "serving y i cid h \<longleftrightarrow> y_handlers y i = Some h \<and> i \<in> y_running y \<and> conn cid i h \<and> flushed y i"

lemma serving_update:
  assumes "serving y i cid h" "conn cid i h'" "h_broker_tx h' = h_broker_tx h"
  shows "serving (y\<lparr>y_handlers := (y_handlers y)(i \<mapsto> h')\<rparr>) i cid h'"
  using assms by (auto simp: serving_def flushed_def)

lemma handler_turn_again:
  assumes "serving y i cid h" "listen_turn (world_of P) e h = (Inr True, h')"
  shows "handler_turn P i e up y = Some (y\<lparr>y_handlers := (y_handlers y)(i \<mapsto> h')\<rparr>)"
proof -
  have "handler_run (world_of P) [e] h = (Inr True, h')"
    by (simp add: handler_run_def listen_Cons [OF assms(2)] del: listen_for_messages.simps(2))
  then show ?thesis using assms(1) by (simp add: serving_def handler_turn_def world_of_def)
qed

text \<open>A handler that reads frames none of which is a request for the broker.\<close>

lemma net_frames:
  assumes "serving y i cid h" "y_halted y = None" "list_all2 (\<lambda>b k. decode (pf_mqttrs P) b = Inr (Some k)) fs ks"
    and "list_all acceptable ks" "sendable (pf_mqttrs P) (concat (map replies ks))" "concat (map (requests cid) ks) = []"
  shows "acts P (map (\<lambda>b. Net i (Frame b) up) fs) y = Some (y\<lparr>y_handlers := (y_handlers y)(i \<mapsto> served (world_of P) ks h)\<rparr>) \<and>
    serving (y\<lparr>y_handlers := (y_handlers y)(i \<mapsto> served (world_of P) ks h)\<rparr>) i cid (served (world_of P) ks h)"
  using assms(3,1,2,4-6)
proof (induction arbitrary: y h rule: list_all2_induct)
  case Nil
  then have "(y_handlers y)(i \<mapsto> h) = y_handlers y" by (auto simp: serving_def)
  with Nil show ?case by simp
next
  case (Cons b fs k ks)
  then have h: "conn cid i h" by (simp add: serving_def)
  obtain s where s: "h_state h = Connected s" "s_id s = cid"
    and turn: "listen_turn (world_of P) (Frame b) h = (Inr True, reacted (world_of P) k s h)" "conn cid i (reacted (world_of P) k s h)"
    using react_turn [OF h, of "world_of P" b k] Cons.hyps(1) Cons.prems(3,4) by (auto simp: sendable_def)
  let ?h = "reacted (world_of P) k s h"
  let ?y = "y\<lparr>y_handlers := (y_handlers y)(i \<mapsto> ?h)\<rparr>"
  have sv: "serving ?y i cid ?h" using serving_update [OF Cons.prems(1) turn(2)] s(2) Cons.prems(5) by simp
  let ?z = "y\<lparr>y_handlers := (y_handlers y)(i \<mapsto> served (world_of P) ks ?h)\<rparr>"
  have z: "?y\<lparr>y_handlers := (y_handlers ?y)(i \<mapsto> served (world_of P) ks ?h)\<rparr> = ?z" by simp
  have "acts P (map (\<lambda>b. Net i (Frame b) up) fs) ?y = Some ?z \<and> serving ?z i cid (served (world_of P) ks ?h)"
    unfolding z [symmetric] by (rule Cons.IH [OF sv]) (use Cons.prems in \<open>simp_all add: sendable_def\<close>)
  moreover have "served (world_of P) (k # ks) h = served (world_of P) ks ?h" using s(1) by simp
  moreover have "acts P (map (\<lambda>b. Net i (Frame b) up) (b # fs)) y = acts P (map (\<lambda>b. Net i (Frame b) up) fs) ?y"
    using Cons.prems(2) handler_turn_again [OF Cons.prems(1) turn(1)] by simp
  ultimately show ?case by (simp only: simp_thms)
qed

text \<open>A handler that takes a publish from its channel and then the answers of its client.\<close>

lemma inbox_and_acks:
  assumes "serving y i cid h" "y_halted y = None" "y_inbox y i = BM_Publish c k # ms"
    and "list_all2 (\<lambda>b k. decode (pf_mqttrs P) b = Inr (Some k)) fs (map packet_from (ack_packets (pub_qospid k)))"
    and "sendable (pf_mqttrs P) (delivery_packets k)"
  shows "\<exists>y'. acts P (Inbox i up # map (\<lambda>b. Net i (Frame b) up) fs) y = Some y' \<and> y_halted y' = None \<and>
    y_handlers y' = (y_handlers y)(i \<mapsto> served (world_of P) (map packet_from (ack_packets (pub_qospid k))) (informed (world_of P) k h)) \<and>
    y_inbox y' = (y_inbox y)(i := ms)"
proof -
  let ?V = "world_of P" and ?ks = "map packet_from (ack_packets (pub_qospid k))" and ?h = "informed (world_of P) k h"
  have out: "sendable (pf_mqttrs P) [P_Publish k]" "sendable (pf_mqttrs P) (concat (map replies ?ks))"
    using assms(5) unfolding ack_packets_served(3) by (simp_all add: sendable_def)
  have h: "conn cid i h" using assms(1) by (simp add: serving_def)
  note inform = inform_turn [OF h world_of_simps(2) [of P], unfolded world_of_simps(1), OF out(1)]
  let ?y1 = "y\<lparr>y_handlers := (y_handlers y)(i \<mapsto> ?h)\<rparr>" and ?y2 = "y\<lparr>y_handlers := (y_handlers y)(i \<mapsto> ?h), y_inbox := (y_inbox y)(i := ms)\<rparr>"
  have first: "act P (Inbox i up) y = Some ?y2"
    using handler_turn_again [OF assms(1) inform(1)] assms(3) by simp
  have "serving ?y2 i cid ?h" using serving_update [OF assms(1) inform(2,4)] by (simp add: serving_def flushed_def)
  from net_frames [OF this _ assms(4) ack_packets_served(1) out(2) ack_packets_served(2)] assms(2)
  have "acts P (map (\<lambda>b. Net i (Frame b) up) fs) ?y2 = Some (?y2\<lparr>y_handlers := (y_handlers ?y2)(i \<mapsto> served ?V ?ks ?h)\<rparr>)" by simp
  with first assms(2) show ?thesis by (intro exI [of _ "?y2\<lparr>y_handlers := (y_handlers ?y2)(i \<mapsto> served ?V ?ks ?h)\<rparr>"]) simp
qed


subsection \<open>The whole way\<close>

text \<open>A reachable state of the process in which nothing is under way.\<close>

definition at_rest :: "platform \<Rightarrow> Config \<Rightarrow> system \<Rightarrow> bool" where
  "at_rest P config y \<longleftrightarrow> reach P config y \<and> y_halted y = None \<and> y_queue y = [] \<and> y_pending y = []"

text \<open>All recipients' handlers are there and have room in their channels.\<close>

definition can_deliver :: "system \<Rightarrow> string set \<Rightarrow> bool" where
  "can_deliver y R \<longleftrightarrow> (\<forall>d \<in> R. receiver_open y (the (address (y_broker y) d))) \<and>
     (\<forall>i. length (y_inbox y i) + card R \<le> BROKER_MSG_CAPACITY)"

lemma ack_frames_answers:
  assumes "sendable (pf_mqttrs P) (publish_answers p q)"
  shows "ack_ok P up (pub_qospid (published p q topic message))"
    "ack_frames P (pub_qospid (published p q topic message)) @ (if q = ExactlyOnce then [frame_of (pf_mqttrs P) (P_Pubcomp p)] else []) =
      map (frame_of (pf_mqttrs P)) (publish_answers p q)"
  using assms
  by (cases q; simp add: sendable_def ack_ok_def ack_frames_def publish_answers_def published_def up_def)+

text \<open>The publisher's part: its packets, the broker's work and the sends to the recipients.\<close>

lemma publisher_side:
  assumes P: "platform_ok P" and y: "at_rest P config y" and h: "serving y j c h"
    and k: "k = published p q topic message" and R: "R = recipients (y_broker y) c topic" "can_deliver y R"
    and dec: "list_all2 (\<lambda>b k. decode (pf_mqttrs P) b = Inr (Some k)) (b # fs) (map packet_from (publish_packets p q topic message))"
    and ans: "sendable (pf_mqttrs P) (publish_answers p q)"
  shows "\<exists>y' h' out. acts P ([Net j (Frame b) up, Forward j, Serve] @ replicate (card R) Deliver @ map (\<lambda>b. Net j (Frame b) up) fs) y = Some y' \<and>
    y_halted y' = None \<and> y_handlers y' = (y_handlers y)(j \<mapsto> h') \<and> y_running y' = y_running y \<and>
    (\<forall>i. i \<noteq> j \<longrightarrow> y_sent y' i = y_sent y i) \<and> y_inbox y' = post out (y_inbox y) \<and>
    mset out = image_mset (deliver (y_broker y) (BM_Publish c k)) (mset_set R) \<and>
    conn c j h' \<and> h_framed h' = h_framed h @ map (frame_of (pf_mqttrs P)) (publish_answers p q)"
proof -
  let ?ks = "if q = ExactlyOnce then [P_Pubrel p] else []"
  have y': "reach P config y" "y_halted y = None" "y_queue y = []" "y_pending y = []" using y by (simp_all add: at_rest_def)
  have h': "y_handlers y j = Some h" "j \<in> y_running y" "conn c j h" "flushed y j" using h by (simp_all add: serving_def)
  have d: "decode (pf_mqttrs P) b = Inr (Some (P_Publish k))"
    "list_all2 (\<lambda>b k. decode (pf_mqttrs P) b = Inr (Some k)) fs ?ks"
    using dec by (simp_all add: publish_packets_def k split: if_splits)
  note ack = ack_frames_answers [OF ans, of topic message, folded k]
  have t: "pub_topic_name k = topic" by (simp add: k published_def)
  obtain h1 b' out where round: "acts P ([Net j (Frame b) up, Forward j, Serve] @ replicate (card R) Deliver) y
    = Some (y\<lparr>y_handlers := (y_handlers y)(j \<mapsto> h1), y_sent := (y_sent y)(j := Suc (y_sent y j)),
        y_trace := y_trace y @ [(j, BM_Publish c k)], y_broker := b', y_queue := [], y_pending := [],
        y_inbox := post out (y_inbox y)\<rparr>)"
    and h1: "conn c j h1" "length (h_broker_tx h1) = Suc (y_sent y j)" "h_framed h1 = h_framed h @ ack_frames P (pub_qospid k)"
    and out: "mset out = image_mset (deliver (y_broker y) (BM_Publish c k)) (mset_set R)"
    using publish_round [OF P reach_ok [OF y'(1) P] y'(2-4) h' d(1) ack(1), unfolded t, OF R(1)] R(2)
    unfolding can_deliver_def by blast
  define y1 where "y1 = y\<lparr>y_handlers := (y_handlers y)(j \<mapsto> h1), y_sent := (y_sent y)(j := Suc (y_sent y j)),
        y_trace := y_trace y @ [(j, BM_Publish c k)], y_broker := b', y_queue := [], y_pending := [],
        y_inbox := post out (y_inbox y)\<rparr>"
  have sv: "serving y1 j c h1" "y_halted y1 = None"
    using h1(1,2) h'(2) y'(2) by (simp_all add: serving_def y1_def flushed_def)
  have rep: "concat (map replies ?ks) = (if q = ExactlyOnce then [P_Pubcomp p] else [])" "list_all acceptable ?ks"
    "concat (map (requests c) ?ks) = []" "sendable (pf_mqttrs P) (concat (map replies ?ks))"
    using ans by (cases q; simp add: sendable_def publish_answers_def)+
  note run = net_frames [OF sv d(2) rep(2,4,3)]
  let ?h = "served (world_of P) ?ks h1"
  have "h_framed ?h = h_framed h1 @ map (frame_of (pf_mqttrs P)) (concat (map replies ?ks))"
    using handler_serves(3) [OF h1(1), of "world_of P" fs ?ks] d(2) rep(2,4) by simp
  then have framed: "h_framed ?h = h_framed h @ map (frame_of (pf_mqttrs P)) (publish_answers p q)"
    unfolding rep(1) h1(3) ack(2) [symmetric] by simp
  have "acts P ([Net j (Frame b) up, Forward j, Serve] @ replicate (card R) Deliver @ map (\<lambda>b. Net j (Frame b) up) fs) y =
      Some (y1\<lparr>y_handlers := (y_handlers y1)(j \<mapsto> ?h)\<rparr>)"
    using round run unfolding append_assoc [symmetric] acts_append [of P _ "map _ fs"] y1_def by simp
  moreover have "conn c j ?h" using run by (simp add: serving_def)
  ultimately show ?thesis using sv(2) framed out
    by (intro exI [of _ "y1\<lparr>y_handlers := (y_handlers y1)(j \<mapsto> ?h)\<rparr>"] exI [of _ ?h] exI [of _ out]) (simp add: y1_def)
qed

lemma inbox_starts:
  assumes "mset out = image_mset (deliver b m) (mset_set R)" "finite R" "d \<in> R" "address b d = Some i" "inbox i = []"
  shows "\<exists>ms. post out inbox i = m # ms"
proof -
  define sel where "sel = map snd (filter (\<lambda>(tx, m). tx = i) out)"
  have all: "snd ` set out \<subseteq> {m}"
    using arg_cong [OF assms(1), of set_mset] assms(2) by (auto simp: deliver_def)
  have "(i, m) \<in> set out"
    using arg_cong [OF assms(1), of set_mset] assms(2-4) by (auto simp: deliver_def image_iff intro!: bexI [of _ d])
  then have "m \<in> set sel" unfolding sel_def by (intro in_selected) simp
  moreover have "set sel \<subseteq> {m}" using all by (auto simp: sel_def)
  ultimately have "\<exists>ms. sel = m # ms" by (cases sel) auto
  then show ?thesis using assms(5) by (simp add: post_def sel_def)
qed

text \<open>C2: from one client to another. The command \<open>publish\<close> of one client and the loop of \<open>subscribe\<close> of
  another, with the broker process between them, in any state it can reach in which nothing is under way: when the
  bytes the clients send are what their handlers read and what the handlers write is what the
  clients receive, then with every quality of service the publish command succeeds, the subscriber's loop
  shows exactly the topic and the message that were given to the command, the acknowledgements on both sides complete the
  exchange, both handlers go on, and the delivery leaves no transaction open at the subscriber's handler.\<close>

theorem published_message_is_shown:
  assumes "platform_ok P" "at_rest P config y" "serving y j c hj" "serving y i d hi" "y_inbox y i = []"
    and "R = recipients (y_broker y) c topic" "can_deliver y R" "d \<in> R" "address (y_broker y) d = Some i"
    and "joined W1 (world_of P)" "x_tcp_read_rx x1" "x_tcp_write_tx x1 = Some s1"
    and "flag_value W1 command (CHR ''q'') (parse_uint 8) 0 = Inr n" "c_operands command = topic # message # rest"
    and "p = pid_new (cw_mqttrs W1)" "q = publish_qos n" "b # fs1 = frames_of W1 (publish_packets p q topic message)"
    and "\<forall>k \<in> set (publish_packets p q topic message). fits_in W1 (send_size (cw_mqttrs W1) k) k"
    and "sendable (pf_mqttrs P) (publish_answers p q)"
    and "receives W1 (x_recv_pos x1) (map (frame_of (pf_mqttrs P)) (publish_answers p q))"
    and "joined W2 (world_of P)" "x_tcp_read_rx x2" "x_tcp_write_tx x2 = Some s2" "\<not> cancelled (cw_signals W2 (x_recv_pos x2))"
    and "k = published p q topic message" "\<forall>a \<in> set (ack_packets (pub_qospid k)). fits_in W2 (ack_size W2 a) a"
    and "fs2 = ack_bytes W2 (pub_qospid k)" "sendable (pf_mqttrs P) (delivery_packets k)"
    and "receives W2 (x_recv_pos x2) (map (frame_of (pf_mqttrs P)) (delivery_packets k))"
  shows "\<exists>x1' x2' y' hj' hi' s s'.
    publish W1 command x1 = Some (Inr RC_Ok, x1') \<and> x_tcp_write_tx x1' = Some (s1 @ map (\<lambda>b. Tx_Mqtt b True) (b # fs1)) \<and>
    sub_turn W2 r topics st x2 = Some (Sub_Again, st\<lparr>ss_shown := ss_shown st @ [(topic, utf8 message)]\<rparr>, x2') \<and>
    x_tcp_write_tx x2' = Some (s2 @ map (\<lambda>b. Tx_Mqtt b True) fs2) \<and>
    acts P (([Net j (Frame b) up, Forward j, Serve] @ replicate (card R) Deliver @ map (\<lambda>b. Net j (Frame b) up) fs1) @
      Inbox i up # map (\<lambda>b. Net i (Frame b) up) fs2) y = Some y' \<and> y_halted y' = None \<and>
    y_handlers y' j = Some hj' \<and> h_framed hj' = h_framed hj @ map (frame_of (pf_mqttrs P)) (publish_answers p q) \<and>
    y_handlers y' i = Some hi' \<and> h_framed hi' = h_framed hi @ map (frame_of (pf_mqttrs P)) (delivery_packets k) \<and>
    h_state hi = Connected s \<and> h_state hi' = Connected s' \<and>
    (\<forall>r. phase (s, h_tasks hi) r = None \<longrightarrow> phase (s', h_tasks hi') r = None)"
proof -
  let ?V = "world_of P" and ?acks = "map packet_from (ack_packets (pub_qospid k))"
  have dec1: "list_all2 (\<lambda>b k. decode (pf_mqttrs P) b = Inr (Some k)) (b # fs1) (map packet_from (publish_packets p q topic message))"
    unfolding assms(17) frames_of_def
    using assms(18) client_bytes_decode [OF assms(10)] by (simp add: list_all2_conv_all_nth all_set_conv_all_nth)
  have dec2: "list_all2 (\<lambda>b k. decode (pf_mqttrs P) b = Inr (Some k)) fs2 ?acks"
    unfolding assms(27) ack_bytes_def
    using assms(26) client_bytes_decode [OF assms(21)] by (simp add: list_all2_conv_all_nth all_set_conv_all_nth)
  obtain y1 hj' out where pub: "acts P ([Net j (Frame b) up, Forward j, Serve] @ replicate (card R) Deliver @ map (\<lambda>b. Net j (Frame b) up) fs1) y = Some y1"
    "y_halted y1 = None" "y_handlers y1 = (y_handlers y)(j \<mapsto> hj')" "y_running y1 = y_running y" "\<forall>i. i \<noteq> j \<longrightarrow> y_sent y1 i = y_sent y i"
    "y_inbox y1 = post out (y_inbox y)" "mset out = image_mset (deliver (y_broker y) (BM_Publish c k)) (mset_set R)"
    "h_framed hj' = h_framed hj @ map (frame_of (pf_mqttrs P)) (publish_answers p q)"
    using publisher_side [OF assms(1-3,25,6,7) dec1 assms(19)] by blast
  have ij: "i \<noteq> j" using assms(3,4,6,8) by (auto simp: serving_def conn_def conversation_def recipients_def)
  have sv: "serving y1 i d hi" using assms(4) ij pub(3-5) by (auto simp: serving_def flushed_def)
  have "finite R" using reach_ok [of P config y] assms(1,2,6) by (auto simp: at_rest_def system_ok_def trace_ok_def recipients_def)
  then obtain ms where "y_inbox y1 i = BM_Publish c k # ms"
    using inbox_starts [OF pub(7) _ assms(8,9), of "y_inbox y"] assms(5) pub(6) by auto
  from inbox_and_acks [OF sv pub(2) this dec2 assms(28)] obtain y2 where sub:
    "acts P (Inbox i up # map (\<lambda>b. Net i (Frame b) up) fs2) y1 = Some y2" "y_halted y2 = None"
    "y_handlers y2 = (y_handlers y1)(i \<mapsto> served ?V ?acks (informed ?V k hi))" by blast
  have h: "conn d i hi" "links_up ?V" using assms(4) by (simp_all add: serving_def)
  have out2: "sendable (pf_mqttrs P) [P_Publish k]" "sendable (pf_mqttrs P) (concat (map replies ?acks))"
    using assms(28) unfolding ack_packets_served(3) by (simp_all add: sendable_def)
  note inform = inform_turn [OF h, unfolded world_of_simps(1), OF out2(1)]
  have framed: "h_framed (served ?V ?acks (informed ?V k hi)) = h_framed hi @ map (frame_of (pf_mqttrs P)) (delivery_packets k)"
    using handler_serves(3) [OF inform(2) h(2), of fs2 ?acks] dec2 ack_packets_served(1) out2(2) inform(3)
    unfolding ack_packets_served(3) by simp
  obtain s s' where s': "h_state hi = Connected s" "h_state (served ?V ?acks (informed ?V k hi)) = Connected s'"
      "\<forall>r. phase (s, h_tasks hi) r = None \<longrightarrow> phase (s', h_tasks (served ?V ?acks (informed ?V k hi))) r = None"
    using delivery_closes [of hi _ ?V k] h(1) unfolding conn_def by blast
  have t: "pub_topic_name k = topic" "pub_payload k = utf8 message" using assms(25) by (simp_all add: published_def)
  note command = publish_answered [OF assms(10-14) assms(18) [unfolded assms(16)] assms(15), unfolded world_of_simps(1), folded assms(16), OF assms(19,20)]
  note loop = subscriber_takes [OF assms(21-24,26), unfolded world_of_simps(1) t, OF assms(28,29), of r topics st]
  have run: "acts P (([Net j (Frame b) up, Forward j, Serve] @ replicate (card R) Deliver @ map (\<lambda>b. Net j (Frame b) up) fs1) @
      Inbox i up # map (\<lambda>b. Net i (Frame b) up) fs2) y = Some y2"
    unfolding acts_append [of P _ "Inbox i up # _"] pub(1) using sub(1) by simp
  show ?thesis
    using command loop run sub(2,3) pub(3,8) ij framed s' assms(17,27) by auto
qed


text \<open>Two clients of one broker, with quality of service 2.\<close>

definition trio_packets :: "mqttrs_Packet list" where
  "trio_packets =
     [M_Disconnect, M_Connect (duo_connect ''c''), M_Connect (duo_connect ''d''), M_Subscribe sample_subscribe,
      packet_into accepted, M_Suback \<lparr>sa_pid = Pid 2, sa_return_codes = [Success AtMostOnce]\<rparr>,
      publish_packet (Pid 1) ExactlyOnce ''t'' ''m'', M_Pubrec (Pid 1), M_Pubrel (Pid 1), M_Pubcomp (Pid 1)]"

definition trio_platform :: platform where
  "trio_platform = duo_platform\<lparr>pf_mqttrs := table_codec trio_packets\<rparr>"

lemma trio_platform_ok [simp]: "platform_ok trio_platform"
  using duo_platform_ok by (simp add: platform_ok_def trio_platform_def)

definition trio_state :: system where
  "trio_state = the (acts trio_platform duo_setup (broker_run duo_config))"

lemma trio_state_acts: "acts trio_platform duo_setup (broker_run duo_config) = Some trio_state"
proof -
  have "acts trio_platform duo_setup (broker_run duo_config) \<noteq> None" by code_simp
  then show ?thesis by (auto simp: trio_state_def)
qed

lemma trio_facts:
  "y_halted trio_state = None" "y_queue trio_state = []" "y_pending trio_state = []"
  "0 \<in> y_running trio_state" "1 \<in> y_running trio_state" "flushed trio_state 0" "flushed trio_state 1"
  "members (y_broker trio_state) ''t'' = {''c''}" "address (y_broker trio_state) ''c'' = Some 0"
  "y_next trio_state = 2" "y_inbox trio_state 0 = []" "y_inbox trio_state 1 = []"
  "log_of trio_state 0 = [ClientConnected ''c'' 0, BM_Subscribe ''c'' sample_subscribe]"
  "log_of trio_state 1 = [ClientConnected ''d'' 1]"
  by code_simp+


lemma trio_reach: "reach trio_platform duo_config trio_state"
  using reach_acts [OF reach_init trio_state_acts] .

lemma trio_inbox: "y_inbox trio_state i = []"
proof (cases "i < 2")
  case True
  then show ?thesis using trio_facts(11,12) by (auto simp: less_2_cases_iff)
next
  case False
  then show ?thesis
    using reach_ok [OF trio_reach trio_platform_ok] handlers_okD(5) [of trio_state i] handlers_okD(1) [of trio_state i] trio_facts(10)
    by (cases "y_handlers trio_state i") (auto simp: system_ok_def)
qed

lemma trio_serving: "\<exists>h. serving trio_state 0 ''c'' h" "\<exists>h. serving trio_state 1 ''d'' h"
proof -
  have ok: "handlers_ok trio_state" using reach_ok [OF trio_reach trio_platform_ok] by (simp add: system_ok_def)
  show "\<exists>h. serving trio_state 0 ''c'' h" "\<exists>h. serving trio_state 1 ''d'' h"
    using handlers_okD(3) [OF ok _ trio_facts(4)] handlers_okD(3) [OF ok _ trio_facts(5)] trio_facts(4-7,13,14)
    by (cases "y_handlers trio_state 0"; cases "y_handlers trio_state 1";
        auto simp: wf_handler_def idle_def conn_def conversation_def serving_def log_of_def)+
qed

theorem published_message_is_shown_witness:
  "\<exists>W1 W2 x1' x2' y'. publish W1 \<lparr>c_spec = spec_publish, c_flags = {qos_flag ''2''}, c_operands = [''t'', ''m'']\<rparr> toy_context
       = Some (Inr RC_Ok, x1') \<and>
     sub_turn W2 (Pid 1) [''t''] \<lparr>ss_shown = [], ss_codes = []\<rparr> toy_context =
       Some (Sub_Again, \<lparr>ss_shown = [(''t'', utf8 ''m'')], ss_codes = []\<rparr>, x2') \<and>
     reach trio_platform duo_config y' \<and> y_halted y' = None"
proof -
  let ?P = trio_platform and ?X = "table_codec trio_packets" and ?p = "Pid 1"
    and ?c = "\<lparr>c_spec = spec_publish, c_flags = {qos_flag ''2''}, c_operands = [''t'', ''m'']\<rparr>"
  let ?k = "published ?p ExactlyOnce ''t'' ''m''"
  let ?q = "QP_ExactlyOnce ?p"
  define W1 where "W1 = table_world trio_packets (map (frame_of ?X) (publish_answers ?p ExactlyOnce)) [qos_flag ''2'']"
  define W2 where "W2 = table_world trio_packets (map (frame_of ?X) (delivery_packets ?k)) []"
  have X: "pf_mqttrs ?P = ?X" by (simp add: trio_platform_def)
  have len: "length trio_packets \<le> 256" by (simp add: trio_packets_def)
  have "joined (table_world trio_packets fs flags) (world_of ?P)" for fs flags
    using table_joined [of trio_packets fs flags] len by (auto simp: joined_def X)
  then have J: "joined W1 (world_of ?P)" "joined W2 (world_of ?P)" by (simp_all add: W1_def W2_def)
  have q: "flag_value W1 ?c (CHR ''q'') (parse_uint 8) 0 = Inr 2"
    by (simp add: W1_def flag_value_def get_flag_def cmd_query_def qos_flag_def spec_flag_new_def parse_uint_def digit_val_def)
  have two: "publish_qos 2 = ExactlyOnce" "pid_new (cw_mqttrs W1) = ?p" "pub_qospid ?k = ?q"
    by (simp_all add: publish_qos_def W1_def published_def)
  have rest: "at_rest ?P duo_config trio_state" using trio_reach trio_facts(1-3) by (simp add: at_rest_def)
  obtain hi hj where h: "serving trio_state 0 ''c'' hi" "serving trio_state 1 ''d'' hj" using trio_serving by blast
  have R: "{''c''} = recipients (y_broker trio_state) ''d'' ''t''" using trio_facts(8,9) by (auto simp: recipients_def)
  have deliver: "can_deliver trio_state {''c''}" "''c'' \<in> {''c''}"
    using trio_facts(4,9) trio_inbox by (simp_all add: can_deliver_def receiver_open_def BROKER_MSG_CAPACITY_def)
  have fits1: "\<forall>k \<in> set (publish_packets ?p ExactlyOnce ''t'' ''m''). fits_in W1 (send_size (cw_mqttrs W1) k) k"
    unfolding W1_def by (intro ballI table_fits) (auto simp: trio_packets_def publish_packets_def send_size_def)
  have fits2: "\<forall>a \<in> set (ack_packets (pub_qospid ?k)). fits_in W2 (ack_size W2 a) a"
    unfolding W2_def two(3)
    by (intro ballI table_fits) (auto simp: trio_packets_def ack_packets_def ack_size_def send_size_def)
  have out: "sendable (pf_mqttrs ?P) (publish_answers ?p ExactlyOnce)" "sendable (pf_mqttrs ?P) (delivery_packets ?k)"
    unfolding X by (rule table_sendable; simp add: trio_packets_def publish_answers_def delivery_packets_def two(3)
        publish_packet_def published_def)+
  have recv: "receives W1 (x_recv_pos toy_context) (map (frame_of (pf_mqttrs ?P)) (publish_answers ?p ExactlyOnce))"
    "receives W2 (x_recv_pos toy_context) (map (frame_of (pf_mqttrs ?P)) (delivery_packets ?k))"
    "\<not> cancelled (cw_signals W2 (x_recv_pos toy_context))"
    unfolding X by (simp_all add: W1_def W2_def)
  have frames: "hd (frames_of W1 (publish_packets ?p ExactlyOnce ''t'' ''m'')) # tl (frames_of W1 (publish_packets ?p ExactlyOnce ''t'' ''m''))
      = frames_of W1 (publish_packets ?p ExactlyOnce ''t'' ''m'')" by (simp add: frames_of_def publish_packets_def)
  have up: "x_tcp_read_rx toy_context" "x_tcp_write_tx toy_context = Some []" "c_operands ?c = ''t'' # ''m'' # []" by simp_all
  note shown = published_message_is_shown [OF trio_platform_ok rest h(2,1) trio_inbox R deliver trio_facts(9) J(1) up(1,2) q up(3)
      two(2,1) [symmetric] frames fits1 out(1) recv(1) J(2) up(1,2) recv(3) refl fits2 refl out(2) recv(2),
      of ?p "[''t'']" "\<lparr>ss_shown = [], ss_codes = []\<rparr>"]
  then obtain x1' x2' y' steps where run: "publish W1 ?c toy_context = Some (Inr RC_Ok, x1')"
    "sub_turn W2 ?p [''t''] \<lparr>ss_shown = [], ss_codes = []\<rparr> toy_context = Some (Sub_Again, \<lparr>ss_shown = [], ss_codes = []\<rparr>
       \<lparr>ss_shown := ss_shown \<lparr>ss_shown = [], ss_codes = []\<rparr> @ [(''t'', utf8 ''m'')]\<rparr>, x2')"
    "acts ?P steps trio_state = Some y'" "y_halted y' = None" by blast
  then show ?thesis using reach_acts [OF trio_reach run(3)]
    by (intro exI [of _ W1] exI [of _ W2] exI [of _ x1'] exI [of _ x2'] exI [of _ y']) simp
qed

end
