(* ===== verification/Cli_Errors.thy ===== *)
theory Cli_Errors
  imports Cli_Properties
begin

section \<open>What the client says when a command fails (\<open>Display\<close> of its errors)\<close>

text \<open>
  A command that fails returns a boxed error, which the execution thread of the shell prints. The texts of
  the errors of this program are those of its \<open>Display\<close> implementations; the texts of library errors, and
  the \<open>Debug\<close> output of the packets of \<open>mqttrs\<close>, are the fields of \<open>lib_texts\<close>.
\<close>

record lib_texts =
  lt_error :: "cli_error \<Rightarrow> string"
  lt_packet :: "mqttrs_Packet \<Rightarrow> string"
  lt_pid :: "pid \<Rightarrow> string"

definition quoted :: "string \<Rightarrow> string" where
  "quoted s = [CHR 0x27] @ s @ [CHR 0x27]"

definition parse_error_text :: string where
  "parse_error_text = ''missing closing quote''"

definition command_not_available_text :: "string \<Rightarrow> string" where
  "command_not_available_text name = ''Error: '' @ name @ '' is not available in this context.''"

definition unknown_command_text :: "string \<Rightarrow> string" where
  "unknown_command_text name = ''Error: unknown command '' @ name"

definition unknown_flag_text :: "Query \<Rightarrow> string" where
  "unknown_flag_text flag = ''unrecognized flag '' @ quoted (query_text flag)"

definition flag_missing_arg_text :: "Query \<Rightarrow> string" where
  "flag_missing_arg_text flag = ''unrecognzied flag '' @ quoted (query_text flag)"

subsection \<open>Errors of the commands\<close>

fun connack_timeout_text :: "recv_error \<Rightarrow> string" where
  "connack_timeout_text RecvTimeout = ''Timeout waiting for CONNACK.''"
| "connack_timeout_text RecvDisconnected = ''Disconnected while waiting for CONNACK.''"

fun pingresp_timeout_text :: "recv_error \<Rightarrow> string" where
  "pingresp_timeout_text RecvTimeout = ''Timeout waiting for PINGRESP.''"
| "pingresp_timeout_text RecvDisconnected = ''Disconnected while waiting for PINGRESP.''"

fun unsuback_timeout_text :: "recv_error \<Rightarrow> string" where
  "unsuback_timeout_text RecvTimeout = ''Timeout waiting for UNSUBACK.''"
| "unsuback_timeout_text RecvDisconnected = ''Disconnected while waiting for UNSUBACK.''"

fun unsub_ack_timeout_text :: "recv_error \<Rightarrow> string" where
  "unsub_ack_timeout_text RecvTimeout = ''Timeout waiting for UNSUBACK.''"
| "unsub_ack_timeout_text RecvDisconnected = ''Disconnected while waiting for UNSUBACK.''"

fun awaited_text :: "awaited \<Rightarrow> string" where
  "awaited_text Await_Connack = ''CONNACK''"
| "awaited_text Await_Pingresp = ''PINGRESP''"
| "awaited_text Await_Unsuback = ''UNSUBACK''"

definition unexpected_packet_text :: "lib_texts \<Rightarrow> awaited \<Rightarrow> mqttrs_Packet \<Rightarrow> string" where
  "unexpected_packet_text T a pkt =
     ''Received unexpected packet while waiting for '' @ awaited_text a @ '': '' @ lt_packet T pkt"

text \<open>\<open>QoSState\<close> has the same text in both of its states.\<close>

fun qos_state_text :: "lib_texts \<Rightarrow> QoSState \<Rightarrow> string" where
  "qos_state_text T (PublishSent pid _ pkt) = ''QoS::ExactlyOnce{'' @ lt_pid T pid @ ''} - '' @ lt_packet T pkt"
| "qos_state_text T (PubrelSent pid _ pkt) = ''QoS::ExactlyOnce{'' @ lt_pid T pid @ ''} - '' @ lt_packet T pkt"

definition qos_protocol_error_text :: "lib_texts \<Rightarrow> QoSState \<Rightarrow> string \<Rightarrow> string" where
  "qos_protocol_error_text T state message = ''Transaction failed for '' @ qos_state_text T state @ '': '' @ message"

definition mqtt_error_text :: "string \<Rightarrow> string" where
  "mqtt_error_text message = ''Error: unknown command '' @ message"

text \<open>\<open>MissingOperandError\<close> and the second \<open>UnknownCommandError\<close>, of \<open>cli/command/error.rs\<close>, which nothing constructs.\<close>

definition missing_operand_text :: "string list \<Rightarrow> nat \<Rightarrow> string" where
  "missing_operand_text operands expected =
     ''not enough operands provided. Received '' @ show_nat (length operands) @ '', expected '' @ show_nat expected"

definition command_unknown_command_text :: "string \<Rightarrow> string" where
  "command_unknown_command_text name = ''Error: unknown command '' @ name"

text \<open>\<open>Display\<close> of a message to the keep-alive thread.\<close>

fun ka_msg_text :: "ka_msg \<Rightarrow> string" where
  "ka_msg_text Reset = ''Reset''"
| "ka_msg_text Suspend = ''Suspend''"
| "ka_msg_text Resume = ''Resume''"
| "ka_msg_text Kill = ''Kill''"

subsection \<open>What is printed\<close>

text \<open>The state of a failed transaction is kept in the error without its counter, which its text does not show. A panic has no text.\<close>

fun error_text :: "lib_texts \<Rightarrow> cli_error \<Rightarrow> string option" where
  "error_text T ParseError = Some parse_error_text"
| "error_text T (CommandNotAvailableError name) = Some (command_not_available_text name)"
| "error_text T (UnknownCommandError name) = Some (unknown_command_text name)"
| "error_text T (UnknownFlagError flag) = Some (unknown_flag_text flag)"
| "error_text T (FlagMissingArgError flag) = Some (flag_missing_arg_text flag)"
| "error_text T (ConnackTimeoutError e) = Some (connack_timeout_text e)"
| "error_text T (PingrespTimeoutError e) = Some (pingresp_timeout_text e)"
| "error_text T (UnsubackTimeoutError e) = Some (unsuback_timeout_text e)"
| "error_text T (UnsubAckTimeoutError e) = Some (unsub_ack_timeout_text e)"
| "error_text T (UnexpectedPacket a pkt) = Some (unexpected_packet_text T a pkt)"
| "error_text T (QoSProtocolError pid pkt message) = Some (qos_protocol_error_text T (PublishSent pid 0 pkt) message)"
| "error_text T (MQTTError message) = Some (mqtt_error_text message)"
| "error_text T (Message message) = Some message"
| "error_text T Panic = None"
| "error_text T e = Some (lt_error T e)"

text \<open>The line that the execution thread prints after a turn, if any.\<close>

definition turn_stderr :: "lib_texts \<Rightarrow> cli_world \<Rightarrow> (spec_flag set \<Rightarrow> spec_flag list) \<Rightarrow> string \<Rightarrow>
    builtin shell \<times> MqttContext \<Rightarrow> string option" where
  "turn_stderr T W it input_text = (\<lambda>(sh, x).
     case parse_and_execute W it (update_enable_set (\<lambda>c. enabled x (sc_callback c)) sh) input_text x of
       Some (Inl e, _) \<Rightarrow> error_text T e
     | _ \<Rightarrow> None)"

subsection \<open>Input that is refused\<close>

lemma flag_token_text:
  assumes "is_flag tok" "flag_extract tok = Some q"
  shows "query_text q = (if is_long tok then tok else take 2 tok)"
proof (cases "is_long tok")
  case True
  then have "tok = ''--'' @ drop 2 tok"
    by (metis append_take_drop_id is_long_def length_Cons list.size(3) numeral_2_eq_2 starts_with_def)
  with True assms(2) show ?thesis by (auto simp: flag_extract_def)
next
  case False
  then have s: "is_short tok" using assms(1) by simp
  then obtain c d rest where "tok = c # d # rest" using is_short_char by (cases tok; cases "tl tok") fastforce+
  with s False assms(2) show ?thesis by (auto simp: flag_extract_def is_short_def starts_with_def)
qed

text \<open>An error of the flags and operands is about a flag among them.\<close>

definition flag_fault :: "(spec_flag set \<Rightarrow> spec_flag list) \<Rightarrow> spec_flag set \<Rightarrow> string list \<Rightarrow> cli_error \<Rightarrow> bool" where
  "flag_fault it specs tokens e \<longleftrightarrow> (\<exists>tok \<in> set tokens. \<exists>q. is_flag tok \<and> flag_extract tok = Some q \<and>
    (e = UnknownFlagError q \<and> query it q specs = None \<or>
     e = FlagMissingArgError q \<and> (\<exists>sp. query it q specs = Some sp \<and> sf_arg sp = SA_Required)))"

lemma flag_fault_mono: "flag_fault it specs xs e \<Longrightarrow> set xs \<subseteq> set ys \<Longrightarrow> flag_fault it specs ys e"
  unfolding flag_fault_def by blast

lemma parse_tokens_error: "parse_tokens it specs tokens acc = Inl e \<Longrightarrow> flag_fault it specs tokens e"
proof (induction it specs tokens acc rule: parse_tokens.induct)
  case (2 it specs token rest flags operands)
  have sub: "set (tl rest) \<subseteq> set (token # rest)" "set rest \<subseteq> set (token # rest)" by (cases rest; auto)+
  note more = flag_fault_mono [OF _ sub(1), of it specs e] flag_fault_mono [OF _ sub(2), of it specs e]
  show ?case
  proof (cases "is_flag token")
    case False
    then show ?thesis using 2 more(2) by simp
  next
    case True
    then obtain q where q: "flag_extract token = Some q" using flag_extract_None by fastforce
    show ?thesis
    proof (cases "query it q specs")
      case None
      then show ?thesis using "2.prems" True q by (auto simp: flag_fault_def)
    next
      case (Some sp)
      show ?thesis
      proof (cases "sf_arg sp = SA_Required \<and> (rest = [] \<or> is_flag (hd rest))")
        case True
        then show ?thesis using "2.prems" \<open>is_flag token\<close> q Some by (auto simp: flag_fault_def)
      next
        case False
        then show ?thesis using 2 more \<open>is_flag token\<close> q Some by (cases "sf_arg sp") (auto split: if_splits)
      qed
    qed
  qed
qed simp

text \<open>C34: input that the parser refuses changes nothing and is explained. The turn on it leaves the context as it is
  and prints one line: that a quote is missing; or the name of the command, with the remark that it is
  unknown or, exactly if the table of commands has it, not available; or the flag as it was typed (of a short
  flag, its first two characters), when the command has no such flag, or has it and its argument is missing.\<close>

theorem refused_input_is_explained:
  assumes "sh' = update_enable_set (\<lambda>c. enabled x (sc_callback c)) sh" "parse it sh' input = Inl e"
  shows "shell_turn W it input (sh, x) = Some (T_Again, sh', x) \<and>
    turn_stderr T W it input (sh, x) = error_text T e \<and>
    (case try_into_args input of
       Inl _ \<Rightarrow> error_text T e = Some ''missing closing quote''
     | Inr [] \<Rightarrow> False
     | Inr (name # tokens) \<Rightarrow>
         (case find_command_spec sh' name of
            None \<Rightarrow> error_text T e = Some (if sh_commands sh name = None then ''Error: unknown command '' @ name
              else ''Error: '' @ name @ '' is not available in this context.'')
          | Some sp \<Rightarrow> (\<exists>tok \<in> set tokens. \<exists>q. is_flag tok \<and> flag_extract tok = Some q \<and>
              error_text T e = Some ((if query it q (sc_flags sp) = None then ''unrecognized flag '' else ''unrecognzied flag '') @
                quoted (if is_long tok then tok else take 2 tok)))))"
proof -
  have "e \<noteq> Panic"
    using assms(2)
    by (auto simp: parse_def flag_fault_def dest!: parse_tokens_error split: sum.splits list.splits option.splits if_splits)
  then have t: "turn_of (Inl e) = T_Again" by (cases e) simp_all
  have run: "parse_and_execute W it sh' input x = Some (Inl e, x)" using assms(2) by (simp add: parse_and_execute_def)
  have turn: "shell_turn W it input (sh, x) = Some (T_Again, sh', x)" "turn_stderr T W it input (sh, x) = error_text T e"
    using run t assms(1) by (simp_all add: shell_turn_def turn_stderr_def)
  have cmds: "sh_commands sh' = sh_commands sh" using assms(1) by (simp add: update_enable_set_def)
  show ?thesis
  proof (cases "\<exists>name tokens sp. try_into_args input = Inr (name # tokens) \<and> find_command_spec sh' name = Some sp")
    case False
    with assms(2) turn cmds show ?thesis
      by (auto simp: parse_def parse_error_text_def command_not_available_text_def unknown_command_text_def
          split: sum.splits list.splits option.splits if_splits)
  next
    case True
    then obtain name tokens sp where n: "try_into_args input = Inr (name # tokens)" "find_command_spec sh' name = Some sp" by blast
    with assms(2) have "parse_tokens it (sc_flags sp) tokens ({}, []) = Inl e"
      by (auto simp: parse_def split: sum.splits)
    from parse_tokens_error [OF this] obtain tok q where tok: "tok \<in> set tokens" "is_flag tok" "flag_extract tok = Some q"
      and e: "e = (if query it q (sc_flags sp) = None then UnknownFlagError q else FlagMissingArgError q)"
      unfolding flag_fault_def by force
    have "error_text T e = Some ((if query it q (sc_flags sp) = None then ''unrecognized flag '' else ''unrecognzied flag '') @
        quoted (if is_long tok then tok else take 2 tok))"
      using flag_token_text [OF tok(2,3)] by (simp add: e unknown_flag_text_def flag_missing_arg_text_def)
    with turn n tok show ?thesis unfolding n sum.case list.case option.case by blast
  qed
qed

theorem refused_input_is_explained_witness:
  "\<forall>T. \<exists>sh'. shell_turn (toy_world (\<lambda>_. Inl RecvTimeout)) flag_order ''exit --now'' (shell_new command_set [], toy_context)
       = Some (T_Again, sh', toy_context) \<and>
     turn_stderr T (toy_world (\<lambda>_. Inl RecvTimeout)) flag_order ''exit --now'' (shell_new command_set [], toy_context)
       = Some (''unrecognized flag '' @ quoted ''--now'')"
proof -
  let ?sh = "update_enable_set (\<lambda>c. enabled toy_context (sc_callback c)) (shell_new command_set [])"
  have sp: "command_set ''exit'' = Some spec_exit" "sc_callback spec_exit = B_exit" "sc_flags spec_exit = {}"
    by (simp_all add: command_set_def builtin_specs_def spec_connect_def spec_connack_def spec_disconnect_def spec_exit_def
        builder_defs)
  have find: "find_command_spec ?sh ''exit'' = Some spec_exit"
    using sp by (simp add: find_command_spec_def get_enabled_commands_def update_enable_set_def shell_new_def)
  have none: "query flag_order q {} = None" for q by (simp add: query_def flag_order_def)
  have args: "try_into_args ''exit --now'' = Inr [''exit'', ''--now'']" by (simp add: try_into_args_def is_blank_def)
  have long: "is_long ''--now''" by (simp add: is_long_def starts_with_def str_len_Cons is_ascii_def)
  then have "parse flag_order ?sh ''exit --now'' = Inl (UnknownFlagError (Name ''now''))"
    by (simp add: parse_def args find sp none is_long_short flag_extract_def)
  from refused_input_is_explained [OF refl this, of "toy_world (\<lambda>_. Inl RecvTimeout)"] show ?thesis
    by (auto simp: args find sp none long)
qed

end
