(* ===== verification/Context_Invariant.thy ===== *)
theory Context_Invariant
  imports Cli_Connections Panic_Freedom
begin

section \<open>What every command keeps of the client's context\<close>

text \<open>
  The context of the shell (\<open>MqttContext\<close>) is changed by every command. Its fields fit together in every
  state that the shell can reach, and what has been queued for the TCP thread of a connection
  is what the protocol allows: one \<open>Connect\<close>, which comes first.
\<close>

subsection \<open>The invariant\<close>

text \<open>The packets that the client may send after its \<open>Connect\<close>: those of a client, and the \<open>Connack\<close> of the
  debug command.\<close>

fun follow_up :: "mqttrs_Packet \<Rightarrow> bool" where
  "follow_up (M_Subscribe s) \<longleftrightarrow> sub_topics s \<noteq> []"
| "follow_up (M_Unsubscribe u) \<longleftrightarrow> unsub_topics u \<noteq> []"
| "follow_up k \<longleftrightarrow> (case k of M_Connect _ \<Rightarrow> False | M_Suback _ \<Rightarrow> False | M_Unsuback _ \<Rightarrow> False | M_Pingresp \<Rightarrow> False
     | _ \<Rightarrow> True)"

text \<open>A message to the TCP thread that is an encoded packet.\<close>

definition carries :: "cli_world \<Rightarrow> mqttrs_Packet \<Rightarrow> PacketTx \<Rightarrow> bool" where
  "carries W k t \<longleftrightarrow> (\<exists>n b alive. encode_into (cw_mqttrs W) n k = Inr b \<and> t = Tx_Mqtt b alive)"

text \<open>What has been sent over a connection. It is empty only if the TCP thread has gone before the first packet was
  queued, and then nothing can be sent at all.\<close>

fun sends_ok :: "cli_world \<Rightarrow> PacketTx list \<Rightarrow> bool" where
  "sends_ok W [] \<longleftrightarrow> \<not> cw_tx_ok W 0"
| "sends_ok W (t # ts) \<longleftrightarrow> (\<exists>ka cid will. carries W (connect_packet ka cid will) t) \<and> (\<forall>u \<in> set ts. \<exists>k. follow_up k \<and> carries W k u)"

text \<open>The messages to the keep-alive thread, which runs only for an interval other than 0.\<close>

definition keep_alive_ok :: "(u16 \<times> ka_msg list) option \<Rightarrow> bool" where
  "keep_alive_ok tx \<longleftrightarrow> (\<forall>d msgs. tx = Some (d, msgs) \<longrightarrow> d \<noteq> 0 \<and> (\<exists>n. msgs = Suspend # replicate n Resume))"

definition ctx_ok :: "cli_world \<Rightarrow> MqttContext \<Rightarrow> bool" where
  "ctx_ok W x \<longleftrightarrow>
     (x_tcp_read_rx x \<longleftrightarrow> x_tcp_write_tx x \<noteq> None) \<and>
     (\<forall>sent. x_tcp_write_tx x = Some sent \<longrightarrow> sends_ok W sent) \<and>
     keep_alive_ok (x_keep_alive_tx x) \<and>
     x_state x ''cmd_queue_tx'' = Some SV_Sender"

abbreviation steady :: "cli_world \<Rightarrow> 'a cop \<Rightarrow> bool" where
  "steady W m \<equiv> keeps (ctx_ok W) (\<lambda>_. True) m"

lemma steadyI: "(\<And>x. ctx_ok W x \<Longrightarrow> ctx_ok W (snd (m x))) \<Longrightarrow> steady W m"
  by (simp add: keeps_def)

subsection \<open>The operations that commands are made of\<close>

lemma sends_ok_snoc:
  "sends_ok W sent \<Longrightarrow> cw_tx_ok W (length sent) \<Longrightarrow> follow_up k \<Longrightarrow> carries W k t \<Longrightarrow> sends_ok W (sent @ [t])"
  by (cases sent) auto

lemma steady_send:
  "follow_up k \<Longrightarrow> encode_into (cw_mqttrs W) n k = Inr b \<Longrightarrow> steady W (tcp_send W (Tx_Mqtt b alive))"
  by (rule steadyI) (auto simp: tcp_send_def ctx_ok_def carries_def split: option.splits intro!: sends_ok_snoc)

lemma steady_get [keeps]: "steady W (\<lambda>x. (Inr (f x), x))"
  by (simp add: keeps_def)

lemma steady_set_prompt [keeps]: "steady W (set_prompt v)"
  by (rule steadyI) (simp add: set_prompt_def ctx_ok_def)

lemma steady_err_into [keeps]: "(\<And>x. ctx_ok W x \<Longrightarrow> ctx_ok W (snd (m x))) \<Longrightarrow> steady W (err_into f m)"
  by (rule steadyI) (simp add: err_into_def split: prod.splits, metis snd_conv)

lemma steady_lift [keeps]: "steady W (lift_result r)"
  by (simp add: keeps_def lift_result_def)

lemma steady_recv: "ctx_ok W x \<Longrightarrow> ctx_ok W (snd (tcp_recv_timeout W x))"
  by (auto simp: tcp_recv_timeout_def ctx_ok_def)

lemma steady_has_cmd_tx [keeps]: "steady W has_cmd_tx"
  by (rule steadyI) (simp add: has_cmd_tx_def)

lemma steady_bnd_lift: "(\<And>b. r = Inr b \<Longrightarrow> steady W (f b)) \<Longrightarrow> steady W (bnd (lift_result r) f)"
  by (rule steadyI) (auto simp: keeps_def bnd_apply lift_result_def split: sum.splits)

text \<open>Encoding a packet and sending it, before whatever follows.\<close>

lemma steady_request:
  assumes "follow_up k"
  shows "steady W (bnd (lift_result (encode_into (cw_mqttrs W) n k)) (\<lambda>buf. err_into f (tcp_send W (Tx_Mqtt buf alive))))"
    and "steady W (bnd (lift_result (encode_into (cw_mqttrs W) n k)) (\<lambda>buf. tcp_send W (Tx_Mqtt buf alive)))"
    and "steady W m \<Longrightarrow>
      steady W (bnd (lift_result (encode_into (cw_mqttrs W) n k)) (\<lambda>buf. andthen (err_into f (tcp_send W (Tx_Mqtt buf alive))) m))"
proof -
  have send: "steady W (tcp_send W (Tx_Mqtt b alive))" if "encode_into (cw_mqttrs W) n k = Inr b" for b
    using steady_send [OF assms that] .
  then have "steady W (err_into f (tcp_send W (Tx_Mqtt b alive)))" if "encode_into (cw_mqttrs W) n k = Inr b" for b
    using that by (intro steady_err_into) (simp add: keeps_def)
  with send show "steady W (bnd (lift_result (encode_into (cw_mqttrs W) n k)) (\<lambda>buf. err_into f (tcp_send W (Tx_Mqtt buf alive))))"
    "steady W (bnd (lift_result (encode_into (cw_mqttrs W) n k)) (\<lambda>buf. tcp_send W (Tx_Mqtt buf alive)))"
    "steady W m \<Longrightarrow>
      steady W (bnd (lift_result (encode_into (cw_mqttrs W) n k)) (\<lambda>buf. andthen (err_into f (tcp_send W (Tx_Mqtt buf alive))) m))"
    by (intro steady_bnd_lift keeps_andthen; blast)+
qed

lemma steady_case_packet:
  "(\<And>a. steady W (f a)) \<Longrightarrow> steady W m \<Longrightarrow> steady W (case k of M_Connack a \<Rightarrow> f a | _ \<Rightarrow> m)"
  "(\<And>p. steady W (g p)) \<Longrightarrow> steady W m \<Longrightarrow> steady W (case k of M_Unsuback p \<Rightarrow> g p | _ \<Rightarrow> m)"
  "steady W n \<Longrightarrow> steady W m \<Longrightarrow> steady W (case k of M_Pingresp \<Rightarrow> n | _ \<Rightarrow> m)"
  by (cases k; simp)+

subsection \<open>The commands that do not loop\<close>

lemma steady_toggle_debug: "steady W (toggle_debug c)"
proof -
  have "steady W (modify (\<lambda>x. x\<lparr>x_debug := \<not> x_debug x\<rparr>))" by (rule steadyI) (simp add: ctx_ok_def)
  then show ?thesis unfolding toggle_debug_def by (intro keeps)
qed

lemma steady_connack: "steady W (connack W c)"
  unfolding connack_def Let_def by (intro steady_request keeps) simp

lemma steady_ping: "steady W (ping W c)"
  unfolding ping_def Let_def by (intro steady_request keeps steady_case_packet steady_recv) simp_all

lemma steady_unsubscribe: "steady W (unsubscribe W c)"
  unfolding unsubscribe_def Let_def by (intro keeps_if keeps_fail steady_request keeps steady_case_packet steady_recv) simp_all

lemma steady_help: "steady W (help_callback V it sh c)"
  unfolding help_callback_def by (auto intro!: keeps split: list.splits option.splits)

lemma steady_spawn: "steady W (spawn_keep_alive W ka)"
  by (rule steadyI)
    (auto simp: spawn_keep_alive_def has_cmd_tx_def andthen_def bnd_apply ctx_ok_def keep_alive_ok_def word_gt_0)

lemma steady_resume: "steady W (ka_send W Resume)"
proof (rule steadyI)
  fix x assume x: "ctx_ok W x"
  have "keep_alive_ok (Some (d, msgs)) \<Longrightarrow> keep_alive_ok (Some (d, msgs @ [Resume]))" for d msgs
    unfolding keep_alive_ok_def by (auto simp: replicate_append_same intro: exI [of _ "Suc _"])
  with x show "ctx_ok W (snd (ka_send W Resume x))" by (auto simp: ka_send_def ctx_ok_def split: option.splits)
qed

text \<open>A new connection is in order once its \<open>Connect\<close> packet is on its way.\<close>

lemma keeps_together:
  assumes "keeps P E (andthen m n)" "keeps P E l"
  shows "keeps P E (andthen m (andthen n l))"
proof -
  have "andthen m (andthen n l) = andthen (andthen m n) l"
    by (rule ext) (auto simp: andthen_def bnd_def split: prod.splits sum.splits)
  with keeps_andthen [OF assms] show ?thesis by simp
qed

lemma steady_handshake:
  assumes "encode_into (cw_mqttrs W) n (connect_packet ka cid will) = Inr buf"
  shows "steady W (connect_handshake_with W hostname port buf)"
proof -
  have carry: "\<exists>ka cid will. carries W (connect_packet ka cid will) (Tx_Mqtt buf True)"
    using assms by (auto simp: carries_def)
  have opened: "steady W (andthen (\<lambda>x. if cw_connect W hostname port
         then (Inr (), x\<lparr>x_tcp_write_tx := Some [], x_tcp_read_rx := True\<rparr>) else (Inl IoError, x)) (tcp_send W (Tx_Mqtt buf True)))"
    by (rule steadyI) (use carry in \<open>auto simp: andthen_def bnd_apply tcp_send_def ctx_ok_def\<close>)
  show ?thesis
    unfolding connect_handshake_with_def
    by (rule keeps_andthen [OF steady_has_cmd_tx keeps_together [OF opened]])
      (intro keeps steady_case_packet steady_recv steady_resume, simp_all)
qed

lemma steady_connect: "steady W (connect W c)"
proof -
  have cid: "steady W (modify (\<lambda>x. x\<lparr>x_client_id := cid\<rparr>))" for cid by (rule steadyI) (simp add: ctx_ok_def)
  have user: "steady W (case get_flag W c (CHR ''u'') of
            Some f \<Rightarrow>
              (case arg_get_as Inr (cf_arg f) of
                 Inr (Some cid) \<Rightarrow> andthen (modify (\<lambda>x. x\<lparr>x_client_id := cid\<rparr>)) (ok cid)
               | Inl Panic \<Rightarrow> fail Panic
               | _ \<Rightarrow> ok d)
          | None \<Rightarrow> ok d)" for d
    by (auto split: option.splits sum.splits cli_error.splits intro!: keeps cid)
  have last: "steady W (bnd (lift_result (encode_into (cw_mqttrs W) n (connect_packet ka cid will)))
      (\<lambda>buf. andthen (spawn_keep_alive W ka) (connect_handshake_with W hostname port buf)))" for n ka cid will hostname port
    by (intro steady_bnd_lift keeps_andthen steady_spawn steady_handshake)
  show ?thesis unfolding connect_def by (intro keeps_bnd steady_get steady_lift user last)
qed

subsection \<open>\<open>disconnect\<close>\<close>

lemma steady_leave: "steady W (leave W cleanup)"
proof -
  let ?close = "tolerate cleanup (\<lambda>x. if x_tcp_write_tx x = None then ok () x else tcp_send W Tx_Close x)"
  have kill: "steady W (andthen (tolerate cleanup (ka_send W Kill)) (modify (\<lambda>x. x\<lparr>x_keep_alive_tx := None\<rparr>)))"
    by (rule steadyI) (auto simp: andthen_def bnd_apply tolerate_def ka_send_def ctx_ok_def keep_alive_ok_def split: option.splits)
  have close: "steady W (andthen ?close (modify (\<lambda>x. x\<lparr>x_tcp_write_tx := None, x_tcp_read_rx := False\<rparr>)))"
    by (rule steadyI) (auto simp: andthen_def bnd_apply tolerate_def tcp_send_def ctx_ok_def split: option.splits)
  have quit: "steady W (bnd (lift_result (encode_into (cw_mqttrs W) 2 M_Disconnect)) (\<lambda>buf. tcp_send W (Tx_Mqtt buf False)))"
    by (rule steady_request) simp
  show ?thesis
    unfolding leave_def
    by (intro keeps_andthen [OF _ keeps_together [OF kill keeps_together [OF close]]]) (intro keeps quit)+
qed

lemma steady_disconnect: "steady W (disconnect W c)"
  by (rule steadyI) (use steady_leave in \<open>auto simp: disconnect_leave keeps_def\<close>)

subsection \<open>\<open>publish\<close>\<close>

lemma steady_send_packet: "follow_up k \<Longrightarrow> steady W (send_packet W k)" "follow_up k \<Longrightarrow> steady W (sub_send_packet W k)"
  unfolding send_packet_def sub_send_packet_def by (rule steady_request; assumption)+

lemma send_packet_ok:
  "send_packet W k x = (r, x') \<Longrightarrow> follow_up k \<Longrightarrow> ctx_ok W x \<Longrightarrow> ctx_ok W x'"
  "sub_send_packet W k x = (r, x') \<Longrightarrow> follow_up k \<Longrightarrow> ctx_ok W x \<Longrightarrow> ctx_ok W x'"
  by (rule keeps_run [OF steady_send_packet(1)] keeps_run [OF steady_send_packet(2)]; assumption)+

lemma recv_ok: "tcp_recv_timeout W x = (r, x') \<Longrightarrow> ctx_ok W x \<Longrightarrow> ctx_ok W x'"
  using steady_recv [of W x] by simp

lemma follow_up_mark_dup [simp]: "follow_up (mark_dup k) \<longleftrightarrow> follow_up k"
  by (cases k) simp_all

lemma wait_ok:
  "wait_on_response_with_retry W a n k x = (r, x') \<Longrightarrow> follow_up k \<Longrightarrow> ctx_ok W x \<Longrightarrow>
     ctx_ok W x' \<and> (\<forall>k' got. r = Inr (k', got) \<longrightarrow> follow_up k')"
proof (induction W a n k x arbitrary: r x' rule: wait_on_response_with_retry.induct)
  case (2 W a n k x)
  obtain r1 x1 where recv: "tcp_recv_timeout W x = (r1, x1)" by fastforce
  note x1 = recv_ok [OF recv "2.prems"(3)]
  show ?case
  proof (cases "r1 = Inl RecvTimeout")
    case True
    obtain r2 x2 where send: "send_packet W (mark_dup k) x1 = (r2, x2)" by fastforce
    have x2: "ctx_ok W x2" using send_packet_ok(1) [OF send] "2.prems"(2) x1 by simp
    show ?thesis
    proof (cases r2)
      case (Inl e)
      with "2.prems"(1) recv True send x2 show ?thesis by (auto simp: andthen_def bnd_def)
    next
      case (Inr u)
      with "2.prems"(1) recv True send have "wait_on_response_with_retry W (Suc a) n (mark_dup k) x2 = (r, x')"
        by (simp add: andthen_def bnd_def)
      from "2.IH" [OF recv [symmetric] _ _ this] True "2.prems"(2) x2 show ?thesis by simp
    qed
  next
    case False
    with "2.prems" recv x1 show ?thesis by (auto split: sum.splits recv_error.splits)
  qed
qed simp

fun in_flight :: "QoSState \<Rightarrow> mqttrs_Packet" where
  "in_flight (PublishSent _ _ k) = k"
| "in_flight (PubrelSent _ _ k) = k"

lemma qos_turn_ok:
  assumes "qos_turn W m st x = (r, x')" "follow_up (in_flight st)" "ctx_ok W x"
  shows "ctx_ok W x' \<and> (\<forall>st'. r = Inr st' \<longrightarrow> follow_up (in_flight st'))"
proof (cases st)
  case (PublishSent p n k)
  obtain r1 x1 where wait: "wait_on_response_with_retry W 0 (m - n) k x = (r1, x1)" by fastforce
  from wait_ok [OF wait _ assms(3)] assms(2) PublishSent
  have x1: "ctx_ok W x1" "\<And>k' got. r1 = Inr (k', got) \<Longrightarrow> follow_up k'" by auto
  obtain r2 x2 where send: "send_packet W (M_Pubrel p) x1 = (r2, x2)" by fastforce
  have "ctx_ok W x2" using send_packet_ok(1) [OF send _ x1(1)] by simp
  with assms(1) PublishSent wait send x1 show ?thesis
    by (auto simp: qos_turn_def split: sum.splits option.splits if_splits)
next
  case (PubrelSent p n k)
  obtain r1 x1 where wait: "wait_on_response_with_retry W 0 (m - n) k x = (r1, x1)" by fastforce
  from wait_ok [OF wait _ assms(3)] assms(2) PubrelSent
  have x1: "ctx_ok W x1" "\<And>k' got. r1 = Inr (k', got) \<Longrightarrow> follow_up k'" by auto
  with assms(1) PubrelSent wait show ?thesis
    by (auto simp: qos_turn_def split: sum.splits option.splits if_splits)
qed

lemma qos2_ok:
  assumes "handle_qos_exactly_once W m st x = Some y" "follow_up (in_flight st)" "ctx_ok W x"
  shows "ctx_ok W (snd y)"
proof -
  have "follow_up (in_flight st) \<longrightarrow> ctx_ok W x \<longrightarrow> ctx_ok W (snd y)"
  proof (rule handle_qos_exactly_once.raw_induct [of "\<lambda>W m st x y. follow_up (in_flight st) \<longrightarrow> ctx_ok W x \<longrightarrow> ctx_ok W (snd y)"
        "(((W, m), st), x)" y, unfolded prod.case, OF _ assms(1)], intro impI)
    fix f :: "cli_world \<Rightarrow> nat \<Rightarrow> QoSState \<Rightarrow> MqttContext \<Rightarrow> ((cli_error + unit) \<times> MqttContext) option" and W m st x y
    assume IH: "\<And>W m st x y. f W m st x = Some y \<Longrightarrow> follow_up (in_flight st) \<longrightarrow> ctx_ok W x \<longrightarrow> ctx_ok W (snd y)"
      and eq: "(case qos_turn W m st x of (Inl r, x') \<Rightarrow> Some (r, x') | (Inr st', x') \<Rightarrow> f W m st' x') = Some y"
      and ok: "follow_up (in_flight st)" "ctx_ok W x"
    obtain r x' where turn: "qos_turn W m st x = (r, x')" by fastforce
    from qos_turn_ok [OF turn ok] eq turn IH show "ctx_ok W (snd y)" by (cases r) auto
  qed
  with assms show ?thesis by blast
qed

lemma qos1_ok:
  assumes "publish_at_least_once W p n k x = Some y" "follow_up k" "ctx_ok W x"
  shows "ctx_ok W (snd y)"
proof -
  have "follow_up k \<longrightarrow> ctx_ok W x \<longrightarrow> ctx_ok W (snd y)"
  proof (rule publish_at_least_once.raw_induct [of "\<lambda>W p n k x y. follow_up k \<longrightarrow> ctx_ok W x \<longrightarrow> ctx_ok W (snd y)"
        "((((W, p), n), k), x)" y, unfolded prod.case, OF _ assms(1)], intro impI)
    fix f :: "cli_world \<Rightarrow> pid \<Rightarrow> nat \<Rightarrow> mqttrs_Packet \<Rightarrow> MqttContext \<Rightarrow> ((cli_error + bool) \<times> MqttContext) option"
      and W p n k x y
    assume IH: "\<And>W p n k x y. f W p n k x = Some y \<Longrightarrow> follow_up k \<longrightarrow> ctx_ok W x \<longrightarrow> ctx_ok W (snd y)"
      and eq: "(case tcp_recv_timeout W x of
        (Inr rx_pkt, x1) \<Rightarrow>
          (case decode_tcp_rx (cw_mqttrs W) rx_pkt of
             Inl e \<Rightarrow> Some (Inl e, x1)
           | Inr rx \<Rightarrow> if rx = M_Puback p then Some (Inr True, x1) else f W p n k x1)
      | (Inl _, x1) \<Rightarrow>
          if n \<ge> MAX_RETRIES then Some (Inr False, x1)
          else
            (case send_packet W (mark_dup k) x1 of
               (Inl e, x2) \<Rightarrow> Some (Inl e, x2)
             | (Inr _, x2) \<Rightarrow> f W p (n + 1) (mark_dup k) x2)) = Some y"
      and ok: "follow_up k" "ctx_ok W x"
    obtain r1 x1 where recv: "tcp_recv_timeout W x = (r1, x1)" by fastforce
    note x1 = recv_ok [OF recv ok(2)]
    obtain r2 x2 where send: "send_packet W (mark_dup k) x1 = (r2, x2)" by fastforce
    have "ctx_ok W x2" using send_packet_ok(1) [OF send _ x1] ok(1) by simp
    with eq recv send x1 ok(1) IH show "ctx_ok W (snd y)" by (auto split: if_splits sum.splits)
  qed
  with assms show ?thesis by blast
qed

lemma publish_ok:
  assumes "publish W c x = Some (r, x')" "ctx_ok W x"
  shows "ctx_ok W x'"
proof -
  have no: "follow_up (publish_packet p q t m)" for p q t m by (simp add: publish_packet_def)
  show ?thesis
    using assms
    by (auto simp: publish_def Let_def no split: sum.splits list.splits prod.splits QoS.splits
        dest: send_packet_ok(1) [OF _ no assms(2)] dest!: qos1_ok [OF _ no] qos2_ok)
qed

subsection \<open>\<open>subscribe\<close>\<close>

lemma sub_wait_ok:
  "sub_wait_on_response_with_retry W a n k x = (r, x') \<Longrightarrow> follow_up k \<Longrightarrow> ctx_ok W x \<Longrightarrow> ctx_ok W x'"
proof (induction W a n k x arbitrary: r x' rule: sub_wait_on_response_with_retry.induct)
  case (2 W a n k x)
  obtain r1 x1 where recv: "tcp_recv_timeout W x = (r1, x1)" by fastforce
  note x1 = recv_ok [OF recv "2.prems"(3)]
  obtain r2 x2 where send: "sub_send_packet W k x1 = (r2, x2)" by fastforce
  note x2 = send_packet_ok(2) [OF send "2.prems"(2) x1]
  have "r1 = Inl RecvTimeout \<Longrightarrow> sub_wait_on_response_with_retry W (Suc a) n k x2 = (r3, x3) \<Longrightarrow> ctx_ok W x3" for r3 x3
    using "2.IH" [OF recv [symmetric] _ _ _ "2.prems"(2) x2] by blast
  with "2.prems"(1) recv send x1 x2 show ?case
    by (auto simp: andthen_def bnd_def split: sum.splits recv_error.splits)
qed simp

lemma await_pubrel_keeps:
  assumes "await_pubrel W p n x = Some y" "ctx_ok W x"
  shows "ctx_ok W (snd y)"
proof -
  have "ctx_ok W x \<longrightarrow> ctx_ok W (snd y)"
  proof (rule await_pubrel.raw_induct [of "\<lambda>W p n x y. ctx_ok W x \<longrightarrow> ctx_ok W (snd y)"
        "(((W, p), n), x)" y, unfolded prod.case, OF _ assms(1)], intro impI)
    fix f :: "cli_world \<Rightarrow> pid \<Rightarrow> nat \<Rightarrow> MqttContext \<Rightarrow> ((cli_error + unit) \<times> MqttContext) option" and W p n x y
    assume IH: "\<And>W p n x y. f W p n x = Some y \<Longrightarrow> ctx_ok W x \<longrightarrow> ctx_ok W (snd y)"
      and eq: "(if n > SUB_MAX_RETRIES then Some (Inl Panic, x)
        else if SUB_MAX_RETRIES - n > 0 then
          (case sub_wait_on_response_with_retry W 0 (SUB_MAX_RETRIES - n) (M_Pubrec p) x of
             (Inl e, x1) \<Rightarrow> Some (Inl e, x1)
           | (Inr None, x1) \<Rightarrow> Some (Inl (MQTTError ''Timeout waiting on pubrel.''), x1)
           | (Inr (Some (rx_pkt, attempts)), x1) \<Rightarrow>
               (case decode_tcp_rx (cw_mqttrs W) rx_pkt of
                  Inl e \<Rightarrow> Some (Inl e, x1)
                | Inr rx \<Rightarrow> if rx = M_Pubrel p then Some (Inr (), x1) else f W p (n + attempts) x1))
        else Some (Inr (), x)) = Some y"
      and ok: "ctx_ok W x"
    obtain r1 x1 where wait: "sub_wait_on_response_with_retry W 0 (SUB_MAX_RETRIES - n) (M_Pubrec p) x = (r1, x1)" by fastforce
    have "ctx_ok W x1" using sub_wait_ok [OF wait _ ok] by simp
    with eq wait ok IH [of W p _ x1 y] show "ctx_ok W (snd y)" by (auto split: if_splits sum.splits option.splits)
  qed
  with assms show ?thesis by blast
qed

lemma acknowledge_ok:
  assumes "acknowledge W q x = Some (r, x')" "ctx_ok W x"
  shows "ctx_ok W x'"
proof (cases q)
  case QP_AtMostOnce
  with assms show ?thesis by (simp add: acknowledge_def)
next
  case (QP_AtLeastOnce p)
  have "follow_up (M_Puback p)" by simp
  note steady_request(1) [OF this, of W]
  from keeps_run [OF this assms(2)] assms(1) QP_AtLeastOnce show ?thesis by (simp add: acknowledge_def)
next
  case (QP_ExactlyOnce p)
  obtain r1 x1 where send: "sub_send_packet W (M_Pubrec p) x = (r1, x1)" by fastforce
  have x1: "ctx_ok W x1" using send_packet_ok(2) [OF send _ assms(2)] by simp
  note last = send_packet_ok(1) [of W "M_Pubcomp p", simplified]
  from assms(1) QP_ExactlyOnce send x1 show ?thesis
    by (auto simp: acknowledge_def receive_exactly_once_def split: sum.splits option.splits
        dest!: await_pubrel_keeps dest: last)
qed

lemma sub_turn_ok:
  assumes "sub_turn W p topics st x = Some (res, st', x')" "ctx_ok W x"
  shows "ctx_ok W x'"
proof -
  obtain r1 x1 where recv: "tcp_recv_timeout W x = (r1, x1)" by fastforce
  note x1 = recv_ok [OF recv assms(2)]
  have "ctx_ok W x''" if "sub_packet W p topics a st x1 = Some (res, st', x'')" for a x''
    using that x1
    by (auto simp: sub_packet_def Let_def split: sum.splits mqttrs_Packet.splits option.splits if_splits dest: acknowledge_ok)
  with assms recv x1 show ?thesis
    by (auto simp: sub_turn_def split: if_splits sum.splits recv_error.splits)
qed

lemma sub_loop_ok:
  assumes "sub_loop W p topics st x = Some y" "ctx_ok W x"
  shows "ctx_ok W (snd (snd y))"
proof -
  have "ctx_ok W x \<longrightarrow> ctx_ok W (snd (snd y))"
  proof (rule sub_loop.raw_induct [of "\<lambda>W p topics st x y. ctx_ok W x \<longrightarrow> ctx_ok W (snd (snd y))"
        "((((W, p), topics), st), x)" y, unfolded prod.case, OF _ assms(1)], intro impI)
    fix f :: "cli_world \<Rightarrow> pid \<Rightarrow> string list \<Rightarrow> sub_state \<Rightarrow> MqttContext \<Rightarrow>
        (((cli_error + return_code) + unit) \<times> sub_state \<times> MqttContext) option"
      and W p topics st x y
    assume IH: "\<And>W p topics st x y. f W p topics st x = Some y \<Longrightarrow> ctx_ok W x \<longrightarrow> ctx_ok W (snd (snd y))"
      and eq: "(case sub_turn W p topics st x of
          None \<Rightarrow> None
        | Some (Sub_Cancelled, st', x') \<Rightarrow> Some (Inr (), st', x')
        | Some (Sub_Return r, st', x') \<Rightarrow> Some (Inl r, st', x')
        | Some (Sub_Again, st', x') \<Rightarrow> f W p topics st' x') = Some y"
      and ok: "ctx_ok W x"
    then obtain res st' x' where turn: "sub_turn W p topics st x = Some (res, st', x')"
      by (cases "sub_turn W p topics st x") auto
    from sub_turn_ok [OF turn ok] eq turn IH show "ctx_ok W (snd (snd y))" by (cases res) auto
  qed
  with assms show ?thesis by blast
qed

lemma subscribe_ok:
  assumes "subscribe W c x = Some (r, x')" "ctx_ok W x"
  shows "ctx_ok W x'"
proof -
  have "ts \<noteq> [] \<Longrightarrow> steady W (sub_request W ts)" "ts \<noteq> [] \<Longrightarrow> steady W (sub_finish W p ts)" for p ts
    unfolding sub_request_def sub_finish_def Let_def
    by (intro steady_request keeps steady_case_packet steady_recv; simp)+
  then have "sub_request W ts y = (r1, x1) \<Longrightarrow> ts \<noteq> [] \<Longrightarrow> ctx_ok W y \<Longrightarrow> ctx_ok W x1"
      "sub_finish W p ts y = (r2, x2) \<Longrightarrow> ts \<noteq> [] \<Longrightarrow> ctx_ok W y \<Longrightarrow> ctx_ok W x2" for ts p y r1 x1 r2 x2
    by (metis keeps_run)+
  with assms show ?thesis
    by (auto simp: subscribe_def subscribe_run_def Let_def split: if_splits sum.splits option.splits prod.splits
        dest!: sub_loop_ok)
qed

subsection \<open>The reachable states of the shell\<close>

lemma execute_ok:
  assumes "execute W it sh c x = Some (r, x')" "ctx_ok W x"
  shows "ctx_ok W x'"
proof -
  have plain: "steady W m \<Longrightarrow> m x = (r, x') \<Longrightarrow> ctx_ok W x'" for m :: "return_code cop"
    using assms(2) by (metis keeps_run)
  note cmds = plain [OF steady_help] plain [OF steady_connect] plain [OF steady_connack] plain [OF steady_disconnect]
    plain [OF steady_ping] plain [OF steady_unsubscribe] plain [OF steady_toggle_debug]
  show ?thesis
    using assms
    by (cases "sc_callback (c_spec c)")
      (auto simp: execute_def exit_def dest: cmds publish_ok subscribe_ok)
qed

lemma shell_turn_ok:
  "shell_turn W it input (sh, x) = Some (res, sh', x') \<Longrightarrow> ctx_ok W x \<Longrightarrow> ctx_ok W x'"
  by (auto simp: shell_turn_def Let_def parse_and_execute_def execute_ok split: sum.splits option.splits)

lemma shell_act_ctx:
  assumes "shell_act W it a z = Some z'" "ctx_ok W (z_ctx z)"
  shows "ctx_ok W (z_ctx z')"
proof (cases a)
  case X_Finish
  with assms show ?thesis
    by (auto simp: exec_finish_def split: exec_pc.splits option.splits turn_end.splits dest: shell_turn_ok)
next
  case X_Take
  with assms show ?thesis by (auto split: exec_pc.splits list.splits)
qed (use assms in \<open>auto simp: input_recv_def input_prompt_def input_read_def Let_def
    split: exec_pc.splits list.splits if_splits option.splits\<close>)

lemma main_ctx_ok: "ctx_ok W (z_ctx (shell_run main_shell main_context stdin))"
  by (simp add: shell_run_def Let_def main_context_def ctx_ok_def keep_alive_ok_def)

lemma shell_reach_ctx_ok: "shell_reach W it (shell_run main_shell main_context stdin) z \<Longrightarrow> ctx_ok W (z_ctx z)"
  by (induction rule: shell_reach.induct) (auto intro: main_ctx_ok shell_act_ctx)

text \<open>C15: whatever is typed, whatever the network does and however the threads interleave, the context of the client
  is in order. It has a receiver for packets exactly when it has a sender; what has been queued on a connection is
  one \<open>Connect\<close> packet and then only packets that a client may send on an open connection, or the \<open>Connack\<close> of the debug command, unless the TCP thread has gone before the
  first and nothing can be sent; the keep-alive thread has an interval other than 0 and has been suspended
  and then only resumed; and the sender of the command queue is there, so that \<open>connect\<close> never fails for the want of it.\<close>

theorem context_stays_in_order:
  assumes "shell_reach W it (shell_run main_shell main_context stdin) z"
  shows "ctx_ok W (z_ctx z) \<and> has_cmd_tx (z_ctx z) = (Inr (), z_ctx z)"
  using shell_reach_ctx_ok [OF assms] by (simp add: ctx_ok_def has_cmd_tx_def)

subsection \<open>A shell in which \<open>connect\<close> has been typed, and answered\<close>

lemma plain_connect:
  assumes "\<And>S. cw_iter W S = []" "\<And>h p. cw_connect W h p" "\<And>i. cw_tx_ok W i" "\<And>i. cw_ka_ok W i"
    and "encode_into (cw_mqttrs W) (size_of (cw_mqttrs W) T_mqttrs_Connect) (connect_packet 0 (x_client_id x) None) = Inr buf"
    and "cw_recv W (x_recv_pos x) = Inr a" "decode_tcp_rx (cw_mqttrs W) a = Inr (M_Connack ca)" "x_state x ''cmd_queue_tx'' = Some SV_Sender"
  shows "\<exists>x'. connect W \<lparr>c_spec = spec_connect, c_flags = {}, c_operands = []\<rparr> x = (Inr RC_Ok, x') \<and>
    x_tcp_write_tx x' = Some [Tx_Mqtt buf True]"
proof -
  let ?c = "\<lparr>c_spec = spec_connect, c_flags = {}, c_operands = []\<rparr> :: builtin cmd"
  have f: "connect_flags W ?c x 0 (x_hostname x) (unat (x_port x)) (x_client_id x) None"
    using assms(1) by (simp add: connect_flags_def flag_value_def get_flag_def cmd_query_def connect_last_will_def)
  have "encode_into (cw_mqttrs W) (size_of (cw_mqttrs W) T_mqttrs_Connect) (connect_packet (of_nat 0) (x_client_id x) None) = Inr buf"
    using assms(5) by simp
  from connect_run [OF f this] obtain x1 where x1: "x1 \<in> {x, x\<lparr>x_client_id := x_client_id x\<rparr>}" "connect W ?c x =
      andthen (spawn_keep_alive W (of_nat 0)) (connect_handshake_with W (x_hostname x) (of_nat (unat (x_port x))) buf) x1"
    by blast
  then have "connect W ?c x = connect_handshake_with W (x_hostname x) (of_nat (unat (x_port x))) buf x1"
    by (simp add: spawn_keep_alive_def andthen_def bnd_apply)
  moreover have "x_state x1 ''cmd_queue_tx'' = Some SV_Sender" "x_recv_pos x1 = x_recv_pos x" using x1(1) assms(8) by auto
  ultimately show ?thesis using handshake_run [OF _ assms(2-4), of x1 a ca] assms(6,7) by fastforce
qed

lemma connect_typed:
  assumes "iterates (cw_names W)" "\<And>S. cw_iter W S = []" "\<And>h p. cw_connect W h p" "\<And>i. cw_tx_ok W i" "\<And>i. cw_ka_ok W i"
    and "encode_into (cw_mqttrs W) (size_of (cw_mqttrs W) T_mqttrs_Connect) (connect_packet 0 ''mqtt-cli'' None) = Inr buf"
    and "cw_recv W 0 = Inr a" "decode_tcp_rx (cw_mqttrs W) a = Inr (M_Connack ca)"
  shows "\<exists>z. shell_reach W flag_order (shell_run main_shell main_context [''connect'' @ [nl]]) z \<and>
    x_tcp_write_tx (z_ctx z) = Some [Tx_Mqtt buf True]"
proof -
  let ?z0 = "shell_run main_shell main_context [''connect'' @ [nl]]"
    and ?x = "main_context\<lparr>x_state := (x_state main_context)(''cmd_queue_tx'' \<mapsto> SV_Sender)\<rparr>"
  obtain sh1 where sh1: "sh_commands sh1 = command_set" "shell_acts W flag_order [X_Take, X_Finish, X_Recv, X_Prompt] ?z0 =
      Some (?z0\<lparr>z_shell := sh1, z_queue := [], z_input := I_Read, z_taken := [''help''], z_prompts := [''mqtt>'']\<rparr>)"
    using main_start [OF assms(1)] by blast
  obtain x' where x': "connect W \<lparr>c_spec = spec_connect, c_flags = {}, c_operands = []\<rparr> ?x = (Inr RC_Ok, x')"
      "x_tcp_write_tx x' = Some [Tx_Mqtt buf True]"
    using plain_connect [OF assms(2-5), of ?x buf a ca] assms(6-8) by (auto simp: main_context_def)
  have cb: "sc_callback spec_connect = B_connect" by (simp add: spec_connect_def builder_defs)
  then have "enabled ?x (sc_callback spec_connect)" by (simp add: main_context_def)
  moreover have "try_into_args ''connect'' = Inr [''connect'']" by (simp add: try_into_args_def is_blank_def)
  ultimately obtain sh2 where sh2: "shell_turn W flag_order ''connect'' (sh1, ?x) = Some (T_Again, sh2, x')"
    using plain_word_turn [OF sh1(1) disconnect_lookup(2)] x'(1) cb by (simp add: execute_def)
  have read: "read_input [''connect'' @ [nl]] = Some (''connect'' @ [nl], [])" "str_trim (''connect'' @ [nl]) = ''connect''"
    by (simp_all add: read_input_def read_command.simps count_quotes_def str_len_Cons str_trim_def is_whitespace_def)
  have "\<exists>z. shell_acts W flag_order [X_Read, X_Take, X_Finish]
      (?z0\<lparr>z_shell := sh1, z_queue := [], z_input := I_Read, z_taken := [''help''], z_prompts := [''mqtt>'']\<rparr>) = Some z \<and> z_ctx z = x'"
    using read sh2 by (simp add: shell_run_def Let_def exec_finish_def input_read_def main_context_def)
  then obtain z where "shell_reach W flag_order ?z0 z" "z_ctx z = x'"
    using shell_reach_acts [OF shell_reach_acts [OF shell_reach.start sh1(2)]] by blast
  with x'(2) show ?thesis by blast
qed

definition connected_world :: cli_world where
  "connected_world = (toy_world (\<lambda>_. Inr (Rx_Mqtt [4])))\<lparr>cw_iter := (\<lambda>_. [])\<rparr>"

theorem context_stays_in_order_witness:
  "\<exists>z buf. shell_reach connected_world flag_order (shell_run main_shell main_context [''connect'' @ [nl]]) z \<and>
     x_tcp_write_tx (z_ctx z) = Some [Tx_Mqtt buf True] \<and> ctx_ok connected_world (z_ctx z)"
proof -
  let ?W = connected_world
  have w: "iterates (cw_names ?W)" "cw_iter ?W S = []" "cw_connect ?W h p" "cw_tx_ok ?W i" "cw_ka_ok ?W i"
      "cw_recv ?W i = Inr (Rx_Mqtt [4])" for S h p i
    using quiet_names by (simp_all add: connected_world_def quiet_world_def toy_world_def)
  have buf: "encode_into (cw_mqttrs ?W) n pkt = Inr (replicate n 0)" for n pkt
    using toy_encode by (simp add: connected_world_def)
  have "decode_tcp_rx (cw_mqttrs ?W) (Rx_Mqtt [4]) = Inr (M_Connack \<lparr>ca_session_present = False, ca_code = NotAuthorized\<rparr>)"
    by (simp add: connected_world_def toy_world_def decode_tcp_rx_def toy_api_def)
  from connect_typed [OF w(1-5) buf w(6) this] show ?thesis using context_stays_in_order by blast
qed

end
