(* ===== verification/Client_Conforms.thy ===== *)
theory Client_Conforms
  imports Context_Invariant Client_Broker
begin

section \<open>What this client sends, this broker accepts\<close>

text \<open>
  The invariant of the client's context says which packets are queued on a connection; the broker's handler is
  read against it: over all commands a user may type, nothing that the client sends is a violation of the protocol.
\<close>

fun tx_bytes :: "PacketTx \<Rightarrow> bytes" where
  "tx_bytes (Tx_Mqtt b _) = b"
| "tx_bytes Tx_Close = []"

lemma follow_up_acceptable: "follow_up k \<Longrightarrow> \<forall>a. k \<noteq> M_Connack a \<Longrightarrow> acceptable (packet_from k)"
  by (cases k) auto

lemma carried_decodes:
  assumes "joined W V" "carries W k t"
  shows "decode (w_mqttrs V) (tx_bytes t) = Inr (Some (packet_from k))"
  using assms client_frame [of "w_mqttrs V"] joinedD(1,2) [OF assms(1)] by (auto simp: carries_def)

lemma list_all2_partner: "list_all2 P xs ys \<Longrightarrow> x \<in> set xs \<Longrightarrow> \<exists>y \<in> set ys. P x y"
  by (induction rule: list_all2_induct) auto

text \<open>Every message of a list of follow-up packets is one that a connected handler accepts.\<close>

lemma follow_ups_decode:
  assumes "joined W V" "\<forall>u \<in> set ts. \<exists>k. follow_up k \<and> carries W k u" "\<forall>u \<in> set ts. \<forall>a. \<not> carries W (M_Connack a) u"
  shows "\<exists>ks. list_all2 (carries W) ks ts \<and> list_all2 (\<lambda>b k. decode (w_mqttrs V) b = Inr (Some k)) (map tx_bytes ts) (map packet_from ks) \<and>
    list_all acceptable (map packet_from ks)"
  using assms(2,3)
proof (induction ts)
  case (Cons u ts)
  then obtain k where k: "follow_up k" "carries W k u" by auto
  moreover have "\<forall>a. k \<noteq> M_Connack a" using Cons.prems(2) k(2) by auto
  moreover obtain ks where "list_all2 (carries W) ks ts"
      "list_all2 (\<lambda>b k. decode (w_mqttrs V) b = Inr (Some k)) (map tx_bytes ts) (map packet_from ks)"
      "list_all acceptable (map packet_from ks)"
    using Cons by auto
  ultimately show ?case
    using carried_decodes [OF assms(1) k(2)] follow_up_acceptable by (intro exI [of _ "k # ks"]) simp
qed simp

text \<open>The packets that the broker answers a packet of the client with.\<close>

definition answers :: "mqttrs_Packet \<Rightarrow> Packet list" where
  "answers k = (case k of M_Connect _ \<Rightarrow> [accepted] | _ \<Rightarrow> replies (packet_from k))"

text \<open>C4: the client keeps to the protocol. Whatever is typed but the debug command \<open>connack\<close>, whatever arrives and however the
  threads interleave: when the broker's handler reads what the client has sent over its present
  connection, packet by packet, it accepts all of it. It registers the client under
  one identifier, passes on exactly the requests of the later packets, each of which is one that a client may send, and is connected in the end.\<close>

theorem client_keeps_to_protocol:
  assumes "shell_reach W it (shell_run main_shell main_context stdin) z" "x_tcp_write_tx (z_ctx z) = Some sent"
    and "joined W V" "idle tx h" "\<forall>t \<in> set sent. \<forall>a. \<not> carries W (M_Connack a) t"
    and "\<forall>t \<in> set sent. \<forall>k. carries W k t \<longrightarrow> sendable (w_mqttrs V) (answers k)"
  shows "\<exists>cid ks h'. listen_for_messages V (map (\<lambda>t. Frame (tx_bytes t)) sent) h = (Inr True, h') \<and> conn cid tx h' \<and>
    h_broker_tx h' = ClientConnected cid tx # concat (map (requests cid) ks) \<and>
    list_all2 (\<lambda>t k. decode (w_mqttrs V) (tx_bytes t) = Inr (Some k)) (tl sent) ks \<and> list_all acceptable ks"
proof -
  have "ctx_ok W (z_ctx z)" by (rule shell_reach_ctx_ok [OF assms(1)])
  then have "sends_ok W sent" using assms(2) by (simp add: ctx_ok_def)
  then obtain t ts ka cid will where sent: "sent = t # ts" "carries W (connect_packet ka cid will) t"
      "\<forall>u \<in> set ts. \<exists>k. follow_up k \<and> carries W k u"
    using joinedD(4) [OF assms(3)] by (cases sent) auto
  obtain ks where ks: "list_all2 (carries W) ks ts" "list_all acceptable (map packet_from ks)"
      "list_all2 (\<lambda>b k. decode (w_mqttrs V) b = Inr (Some k)) (map tx_bytes ts) (map packet_from ks)"
    using follow_ups_decode [OF assms(3) sent(3)] assms(5) sent(1) by auto
  have "sendable (w_mqttrs V) [accepted]" using assms(6) sent(1,2) by (fastforce simp: answers_def connect_packet_def)
  then obtain h1 where turn: "listen_turn V (Frame (tx_bytes t)) h = (Inr True, h1)" "conn cid tx h1"
      "h_broker_tx h1 = [ClientConnected cid tx]"
    using connect_turn [OF joinedD(3) [OF assms(3)] assms(4) _ carried_decodes [OF assms(3) sent(2)]] by blast
  have "sendable (w_mqttrs V) (replies (packet_from k))" if k: "k \<in> set ks" for k
  proof -
    obtain u where "u \<in> set ts" "carries W k u" using list_all2_partner [OF ks(1) k] by blast
    moreover have "acceptable (packet_from k)" using ks(2) k by (auto simp: list_all_iff)
    then have "answers k = replies (packet_from k)" by (cases k) (simp_all add: answers_def)
    ultimately show ?thesis using assms(6) sent(1) by (metis list.set_intros(2))
  qed
  then have "sendable (w_mqttrs V) (concat (map replies (map packet_from ks)))" by (auto simp: sendable_def list_all_iff)
  from handler_serves [OF turn(2) joinedD(3) [OF assms(3)] ks(3,2) this] turn(1,3) ks(2,3) sent(1) show ?thesis
    by (intro exI [of _ cid] exI [of _ "map packet_from ks"])
      (simp add: listen_Cons [OF turn(1)] comp_def list_all2_map1 del: listen_turn.simps listen_for_messages.simps(2))
qed

lemma carried_unique:
  assumes "joined W V" "carries W k t" "carries W k' t"
  shows "packet_from k = packet_from k'"
  using carried_decodes [OF assms(1,2)] carried_decodes [OF assms(1,3)] by simp

theorem client_keeps_to_protocol_witness:
  "\<exists>W V z b h'. shell_reach W flag_order (shell_run main_shell main_context [''connect'' @ [nl]]) z \<and>
     x_tcp_write_tx (z_ctx z) = Some [Tx_Mqtt b True] \<and>
     listen_for_messages V [Frame b] sample_handler = (Inr True, h') \<and> (\<exists>cid. h_broker_tx h' = [ClientConnected cid 9])"
proof -
  define pkt where "pkt = connect_packet 0 ''mqtt-cli'' None"
  define ps where "ps = [pkt, packet_into accepted]"
  define fs where "fs = [frame_of (table_codec ps) accepted]"
  define W where "W = table_world ps fs []"
  let ?V = "table_broker ps"
  have J: "joined W ?V" unfolding W_def by (rule table_joined) (simp add: ps_def)
  define b where "b = client_bytes W (size_of (cw_mqttrs W) T_mqttrs_Connect) pkt"
  have "fits_in W (size_of (cw_mqttrs W) T_mqttrs_Connect) pkt"
    unfolding W_def by (rule table_fits) (simp_all add: ps_def)
  then have b: "encode_into (cw_mqttrs W) (size_of (cw_mqttrs W) T_mqttrs_Connect) pkt = Inr b"
    unfolding b_def by (rule client_bytes_fits)
  have ans: "sendable (w_mqttrs ?V) [accepted]" by (simp add: table_sendable ps_def)
  have w: "iterates (cw_names W)" "cw_iter W S = []" "cw_connect W h p" "cw_recv W 0 = Inr (Rx_Mqtt (frame_of (w_mqttrs ?V) accepted))" for S h p
    using quiet_names by (simp_all add: W_def table_world_def quiet_world_def toy_world_def fs_def table_broker_def)
  have d: "decode_tcp_rx (cw_mqttrs W) (Rx_Mqtt (frame_of (w_mqttrs ?V) accepted)) =
      Inr (M_Connack \<lparr>ca_session_present = False, ca_code = Accepted\<rparr>)"
    using broker_bytes_decode [OF J ans] by (simp add: accepted_def)
  obtain z where z: "shell_reach W flag_order (shell_run main_shell main_context [''connect'' @ [nl]]) z"
      "x_tcp_write_tx (z_ctx z) = Some [Tx_Mqtt b True]"
    using connect_typed [OF w(1-3) joinedD(4,5) [OF J] b [unfolded pkt_def] w(4) d] by blast
  have sent: "carries W pkt (Tx_Mqtt b True)" using b by (auto simp: carries_def)
  have k: "\<exists>c. k = M_Connect c" if k: "carries W k (Tx_Mqtt b True)" for k
    using carried_unique [OF J sent k] by (cases k) (auto simp: pkt_def connect_packet_from)
  have "\<forall>t \<in> set [Tx_Mqtt b True]. \<forall>a. \<not> carries W (M_Connack a) t"
    "\<forall>t \<in> set [Tx_Mqtt b True]. \<forall>k. carries W k t \<longrightarrow> sendable (w_mqttrs ?V) (answers k)"
    using k ans by (fastforce simp: answers_def)+
  from client_keeps_to_protocol [OF z J sample_idle this]
  obtain cid h' where "listen_for_messages ?V [Frame b] sample_handler = (Inr True, h')" "h_broker_tx h' = [ClientConnected cid 9]"
    by (auto simp del: listen_for_messages.simps)
  with z show ?thesis by blast
qed

end
