(* ===== verification/Test_Support.thy ===== *)
theory Test_Support
  imports Client_Broker
begin

section \<open>The test support of the broker (\<open>mqttrs-1/src/test\<close>) and its integration tests\<close>

text \<open>
  The allocation of TCP ports to tests (\<open>setup/portref.rs\<close>), the client of the tests (\<open>fixtures/client.rs\<close>),
  and the tests of \<open>tests/broker.rs\<close>, which are theorems about the process here.
\<close>

subsection \<open>Ports\<close>

definition PORT_START :: u16 where "PORT_START = 1883"
definition PORT_END :: u16 where "PORT_END = 2883"

text \<open>\<open>PORTS_IN_USE\<close>: the last port given out, and the ports in use.\<close>

record port_table =
  pt_last :: u16
  pt_used :: "u16 set"

definition ports_in_use :: port_table where
  "ports_in_use = \<lparr>pt_last = PORT_START - 1, pt_used = {}\<rparr>"

definition port_candidate :: "u16 \<Rightarrow> u16 \<Rightarrow> u16" where
  "port_candidate from_port port =
     (let port = (from_port + 1 + port) mod PORT_END
      in if port < PORT_START then port + PORT_START else port)"

definition get_port :: "port_table \<Rightarrow> (error + u16) \<times> port_table" where
  "get_port ports =
     (case find (\<lambda>port. port \<notin> pt_used ports)
         (map (\<lambda>n. port_candidate (pt_last ports) (of_nat n)) [0..<unat (PORT_END - PORT_START + 1) + 1]) of
        Some port \<Rightarrow> (Inr port, \<lparr>pt_last = port, pt_used = insert port (pt_used ports)\<rparr>)
      | None \<Rightarrow> (Inl CreateClientTaskFailed, ports))"

definition drop_port :: "u16 \<Rightarrow> port_table \<Rightarrow> port_table" where
  "drop_port port ports = ports\<lparr>pt_used := pt_used ports - {port}\<rparr>"

text \<open>A run of tests: a \<open>PortRef\<close> is got, or the \<open>n\<close>-th of those that are held goes out of scope.\<close>

datatype port_op = Get_Port | Drop_Port nat

fun port_step :: "port_op \<Rightarrow> u16 list \<times> port_table \<Rightarrow> u16 list \<times> port_table" where
  "port_step Get_Port (held, ports) =
     (case get_port ports of (Inr port, ports') \<Rightarrow> (held @ [port], ports') | (Inl _, ports') \<Rightarrow> (held, ports'))"
| "port_step (Drop_Port n) (held, ports) =
     (if n < length held then (take n held @ drop (Suc n) held, drop_port (held ! n) ports) else (held, ports))"

lemma candidate_unat:
  assumes "unat l < 60000" "n \<le> 1001"
  shows "unat (port_candidate l (of_nat n)) =
    (let m = (unat l + 1 + n) mod 2883 in if m < 1883 then m + 1883 else m)"
proof -
  have "unat (l + 1 + of_nat n) = unat l + 1 + n"
    using assms by (simp add: unat_word_ariths unat_of_nat)
  then have m: "unat ((l + 1 + of_nat n) mod 2883) = (unat l + 1 + n) mod 2883"
    by (simp add: unat_mod)
  moreover have "(unat l + 1 + n) mod 2883 < 2883" by simp
  ultimately show ?thesis
    by (simp add: port_candidate_def PORT_END_def PORT_START_def Let_def word_less_nat_alt unat_word_ariths)
qed

text \<open>Counting on from the last port reaches every port of the range but its end.\<close>

lemma candidate_covers:
  assumes "1882 \<le> unat l" "unat l \<le> 2882" "1883 \<le> unat p" "unat p \<le> 2882"
  shows "\<exists>n \<le> 999. port_candidate l (of_nat n) = p"
proof (cases "unat l < unat p")
  case True
  then have "unat (port_candidate l (of_nat (unat p - unat l - 1))) = unat p"
    using assms by (subst candidate_unat) (simp_all add: Let_def)
  with True assms show ?thesis by (intro exI [of _ "unat p - unat l - 1"]) (simp add: word_unat_eq_iff)
next
  case False
  then have "unat l + 1 + (999 + unat p - unat l) = 1000 + unat p" using assms by simp
  moreover have "(1000 + unat p) mod 2883 = unat p - 1883" using assms by (simp add: mod_if)
  ultimately have "unat (port_candidate l (of_nat (999 + unat p - unat l))) = unat p"
    using False assms by (subst candidate_unat) (simp_all add: Let_def)
  with False assms show ?thesis by (intro exI [of _ "999 + unat p - unat l"]) (simp add: word_unat_eq_iff)
qed

lemma candidate_near:
  assumes "1882 \<le> unat l" "unat l \<le> 2882" "n \<le> 999"
  shows "1883 \<le> unat (port_candidate l (of_nat n))" "unat (port_candidate l (of_nat n)) \<le> 2882"
proof -
  have "(unat l + 1 + n) mod 2883 = (if unat l + 1 + n < 2883 then unat l + 1 + n else unat l + 1 + n - 2883)"
    using assms by (simp add: mod_if)
  with assms show "1883 \<le> unat (port_candidate l (of_nat n))" "unat (port_candidate l (of_nat n)) \<le> 2882"
    by (auto simp: candidate_unat Let_def split: if_splits)
qed

lemma get_port_at:
  assumes "i \<le> 1001" "\<forall>j < i. port_candidate (pt_last ports) (of_nat j) \<in> pt_used ports"
    and "port_candidate (pt_last ports) (of_nat i) = p" "p \<notin> pt_used ports"
  shows "get_port ports = (Inr p, \<lparr>pt_last = p, pt_used = insert p (pt_used ports)\<rparr>)"
proof -
  let ?xs = "map (\<lambda>n. port_candidate (pt_last ports) (of_nat n)) [0..<unat (PORT_END - PORT_START + 1) + 1]"
  have len: "unat (PORT_END - PORT_START + 1) + 1 = 1002" by (simp add: PORT_END_def PORT_START_def)
  have "find (\<lambda>port. port \<notin> pt_used ports) ?xs = Some p"
    using assms unfolding find_Some_iff len by (intro exI [of _ i]) (auto simp del: upt_Suc)
  then show ?thesis by (simp add: get_port_def)
qed

lemma get_port_taken:
  assumes "get_port ports = (Inr p, ports')"
  shows "p \<notin> pt_used ports" "ports' = \<lparr>pt_last = p, pt_used = insert p (pt_used ports)\<rparr>"
  using assms by (auto simp: get_port_def find_Some_iff split: option.splits)

lemma get_port_failed: "get_port ports = (Inl e, ports') \<Longrightarrow> ports' = ports"
  by (auto simp: get_port_def split: option.splits)

text \<open>As long as a port of the range is free, one is given out.\<close>

definition in_range :: "u16 \<Rightarrow> bool" where
  "in_range p \<longleftrightarrow> 1883 \<le> unat p \<and> unat p \<le> 2882"

lemma get_port_free:
  assumes "1882 \<le> unat (pt_last ports)" "unat (pt_last ports) \<le> 2882" "in_range p" "p \<notin> pt_used ports"
  shows "\<exists>q. get_port ports = (Inr q, \<lparr>pt_last = q, pt_used = insert q (pt_used ports)\<rparr>) \<and> in_range q"
proof -
  let ?free = "\<lambda>n. port_candidate (pt_last ports) (of_nat n) \<notin> pt_used ports"
  obtain n where n: "n \<le> 999" "?free n"
    using candidate_covers [OF assms(1,2)] assms(3,4) by (metis in_range_def)
  define i where "i = (LEAST n. ?free n)"
  have i: "?free i" "i \<le> n" "\<forall>j < i. \<not> ?free j"
    using LeastI [of ?free, OF n(2)] Least_le [of ?free, OF n(2)] not_less_Least [of _ ?free] unfolding i_def by blast+
  then have "in_range (port_candidate (pt_last ports) (of_nat i))"
    using candidate_near [OF assms(1,2), of i] n(1) by (simp add: in_range_def)
  moreover have "get_port ports = (Inr (port_candidate (pt_last ports) (of_nat i)),
      \<lparr>pt_last = port_candidate (pt_last ports) (of_nat i), pt_used = insert (port_candidate (pt_last ports) (of_nat i)) (pt_used ports)\<rparr>)"
    using i n(1) by (intro get_port_at) auto
  ultimately show ?thesis by blast
qed

lemma free_port_exists:
  assumes "length held < 1000"
  shows "\<exists>p. in_range p \<and> p \<notin> set held"
proof -
  let ?R = "(of_nat :: nat \<Rightarrow> u16) ` {1883..2882}"
  have "inj_on (of_nat :: nat \<Rightarrow> u16) {1883..2882}"
    by (rule inj_on_inverseI [of _ unat]) (auto simp: unat_of_nat)
  then have "card ?R = 1000" by (simp add: card_image)
  then have "\<not> ?R \<subseteq> set held" using assms card_mono [of "set held" ?R] card_length [of held] by auto
  moreover have "in_range p" if "p \<in> ?R" for p using that by (auto simp: in_range_def unat_of_nat)
  ultimately show ?thesis by blast
qed

definition ports_ok :: "u16 list \<times> port_table \<Rightarrow> bool" where
  "ports_ok = (\<lambda>(held, ports). distinct held \<and> set held = pt_used ports)"

definition ports_near :: "u16 list \<times> port_table \<Rightarrow> bool" where
  "ports_near = (\<lambda>(held, ports). (\<forall>p \<in> set held. in_range p) \<and> 1882 \<le> unat (pt_last ports) \<and> unat (pt_last ports) \<le> 2882)"

lemma drop_nth_distinct:
  assumes "distinct xs" "n < length xs"
  shows "distinct (take n xs @ drop (Suc n) xs)" "set (take n xs @ drop (Suc n) xs) = set xs - {xs ! n}"
proof -
  define ys zs where d: "ys = take n xs" "zs = drop (Suc n) xs"
  then have "xs = ys @ xs ! n # zs" using id_take_nth_drop [OF assms(2)] by simp
  then have "distinct (ys @ xs ! n # zs)" "set xs = set (ys @ xs ! n # zs)" using assms(1) by simp_all
  then show "distinct (take n xs @ drop (Suc n) xs)" "set (take n xs @ drop (Suc n) xs) = set xs - {xs ! n}"
    unfolding d [symmetric] by auto
qed

lemma ports_ok_step: "ports_ok s \<Longrightarrow> ports_ok (port_step a s)"
proof (cases s)
  fix held ports assume ok: "ports_ok s" and s: "s = (held, ports)"
  show ?thesis
  proof (cases a)
    case Get_Port
    obtain r ports' where r: "get_port ports = (r, ports')" by fastforce
    show ?thesis
    proof (cases r)
      case (Inl e)
      with ok s Get_Port r get_port_failed [of ports e] show ?thesis by simp
    next
      case (Inr p)
      from get_port_taken [of ports p ports'] r Inr
      have "p \<notin> pt_used ports" "ports' = \<lparr>pt_last = p, pt_used = insert p (pt_used ports)\<rparr>" by simp_all
      with ok s Get_Port r Inr show ?thesis by (simp add: ports_ok_def)
    qed
  next
    case (Drop_Port n)
    with ok s drop_nth_distinct [of held n] show ?thesis by (simp add: ports_ok_def drop_port_def)
  qed
qed

lemma ports_near_step:
  assumes "ports_ok s" "ports_near s" "length (fst (port_step a s)) \<le> 1000"
  shows "ports_near (port_step a s)"
proof (cases s)
  fix held ports assume s: "s = (held, ports)"
  show ?thesis
  proof (cases a)
    case Get_Port
    show ?thesis
    proof (cases "length held < 1000")
      case True
      then obtain p where "in_range p" "p \<notin> set held" using free_port_exists by blast
      then obtain q where "get_port ports = (Inr q, \<lparr>pt_last = q, pt_used = insert q (pt_used ports)\<rparr>)" "in_range q"
        using get_port_free [of ports p] assms(1,2) s by (auto simp: ports_ok_def ports_near_def)
      with assms(2) s Get_Port show ?thesis by (auto simp: ports_near_def in_range_def)
    next
      case False
      obtain r ports' where r: "get_port ports = (r, ports')" by fastforce
      with False assms(3) s Get_Port have "\<exists>e. r = Inl e" by (cases r) auto
      with r get_port_failed [of ports] assms(2) s Get_Port show ?thesis by auto
    qed
  next
    case (Drop_Port n)
    with assms(2) s show ?thesis by (auto simp: ports_near_def drop_port_def dest: in_set_takeD in_set_dropD)
  qed
qed

text \<open>C40: tests that run at the same time have ports of their own. Whatever ports are got and dropped in whatever order, those held are
  distinct and are exactly those in use; and as long as no more than 1000 are held at a time, each lies
  in the range from 1883, though its last port, 2883, is never given out, and every request is granted.\<close>

theorem ports_are_exclusive:
  assumes "fold port_step ops ([], ports_in_use) = (held, ports)"
  shows "distinct held \<and> set held = pt_used ports \<and>
    ((\<forall>k \<le> length ops. length (fst (fold port_step (take k ops) ([], ports_in_use))) \<le> 1000) \<longrightarrow>
       (\<forall>p \<in> set held. 1883 \<le> p \<and> p \<le> 2882) \<and>
       (length held < 1000 \<longrightarrow> (\<exists>port. fst (get_port ports) = Inr port \<and> 1883 \<le> port \<and> port \<le> 2882 \<and> port \<notin> set held)))"
proof -
  have init: "ports_ok ([], ports_in_use)" "ports_near ([], ports_in_use)"
    by (simp_all add: ports_ok_def ports_near_def ports_in_use_def PORT_START_def)
  have ok: "ports_ok (fold port_step as ([], ports_in_use))" for as
    by (induction as rule: rev_induct) (simp_all add: init ports_ok_step)
  have near: "ports_near (fold port_step (take k ops) ([], ports_in_use))"
    if "\<forall>k \<le> length ops. length (fst (fold port_step (take k ops) ([], ports_in_use))) \<le> 1000" "k \<le> length ops" for k
    using that(2)
  proof (induction k)
    case (Suc k)
    then have "take (Suc k) ops = take k ops @ [ops ! k]" by (simp add: take_Suc_conv_app_nth)
    with ports_near_step [OF ok Suc.IH, of "ops ! k"] Suc.prems that(1) [rule_format, of "Suc k"] show ?case by simp
  qed (simp add: init)
  have words: "in_range p \<longleftrightarrow> 1883 \<le> p \<and> p \<le> 2882" for p by (simp add: in_range_def word_le_nat_alt)
  have "distinct held" "set held = pt_used ports" using ok [of ops] assms by (simp_all add: ports_ok_def)
  moreover have "(\<forall>p \<in> set held. 1883 \<le> p \<and> p \<le> 2882) \<and>
      (length held < 1000 \<longrightarrow> (\<exists>port. fst (get_port ports) = Inr port \<and> 1883 \<le> port \<and> port \<le> 2882 \<and> port \<notin> set held))"
    if "\<forall>k \<le> length ops. length (fst (fold port_step (take k ops) ([], ports_in_use))) \<le> 1000"
  proof (intro conjI impI)
    have n: "ports_near (held, ports)" using near [OF that, of "length ops"] assms by simp
    then show "\<forall>p \<in> set held. 1883 \<le> p \<and> p \<le> 2882" by (simp add: ports_near_def words)
    assume "length held < 1000"
    then obtain p where "in_range p" "p \<notin> pt_used ports" using free_port_exists \<open>set held = pt_used ports\<close> by blast
    then obtain q where q: "get_port ports = (Inr q, \<lparr>pt_last = q, pt_used = insert q (pt_used ports)\<rparr>)" "in_range q"
      using get_port_free [of ports p] n by (auto simp: ports_near_def)
    with get_port_taken(1) [OF q(1)] \<open>set held = pt_used ports\<close>
    show "\<exists>port. fst (get_port ports) = Inr port \<and> 1883 \<le> port \<and> port \<le> 2882 \<and> port \<notin> set held"
      by (intro exI [of _ q]) (simp add: words)
  qed
  ultimately show ?thesis by blast
qed

theorem ports_are_exclusive_witness:
  "\<exists>ports p. fold port_step [Get_Port, Get_Port, Drop_Port 0] ([], ports_in_use) = ([p], ports) \<and> p = 1884 \<and>
    distinct [p] \<and> set [p] = pt_used ports"
proof -
  have one: "get_port ports_in_use = (Inr 1883, \<lparr>pt_last = 1883, pt_used = {1883}\<rparr>)"
    using get_port_at [of 0 ports_in_use 1883]
    by (simp add: ports_in_use_def port_candidate_def PORT_START_def PORT_END_def)
  have two: "get_port \<lparr>pt_last = 1883, pt_used = {1883}\<rparr> = (Inr 1884, \<lparr>pt_last = 1884, pt_used = {1884, 1883}\<rparr>)"
    using get_port_at [of 0 "\<lparr>pt_last = 1883, pt_used = {1883}\<rparr>" 1884]
    by (simp add: port_candidate_def PORT_START_def PORT_END_def)
  have run: "fold port_step [Get_Port, Get_Port, Drop_Port 0] ([], ports_in_use) = ([1884], \<lparr>pt_last = 1884, pt_used = {1884}\<rparr>)"
    using one two by (simp add: drop_port_def insert_Diff_if)
  with ports_are_exclusive [OF run] show ?thesis by blast
qed

text \<open>When the range is used up, requests are not refused: ports beyond its end are given out.\<close>

lemma u16_nat: "n < 65536 \<Longrightarrow> unat (of_nat n :: u16) = n"
  by (simp add: unat_of_nat)

lemma u16_nat_eq: "m < 65536 \<Longrightarrow> n < 65536 \<Longrightarrow> (of_nat m :: u16) = of_nat n \<longleftrightarrow> m = n"
  by (metis u16_nat)

lemma next_candidate:
  assumes "l < 60000" "n \<le> 1001" "m = (l + 1 + n) mod 2883" "p = (if m < 1883 then m + 1883 else m)"
  shows "port_candidate (of_nat l) (of_nat n) = of_nat p"
proof -
  have "unat (of_nat l :: u16) = l" using assms(1) by (intro u16_nat) simp
  moreover from this have "unat (port_candidate (of_nat l) (of_nat n)) = p"
    using assms by (subst candidate_unat) (simp_all add: Let_def)
  moreover have "m < 2883" using assms(3) by simp
  then have "unat (of_nat p :: u16) = p" using assms(4) by (intro u16_nat) auto
  ultimately show ?thesis by (simp only: word_unat_eq_iff)
qed

lemma first_thousand:
  "n \<le> 1000 \<Longrightarrow> fold port_step (replicate n Get_Port) ([], ports_in_use) =
     (map of_nat [1883..<1883 + n], \<lparr>pt_last = of_nat (1882 + n), pt_used = of_nat ` {1883..<1883 + n}\<rparr>)"
proof (induction n)
  case (Suc n)
  let ?ports = "\<lparr>pt_last = of_nat (1882 + n), pt_used = of_nat ` {1883..<1883 + n}\<rparr> :: port_table" and ?p = "of_nat (1883 + n) :: u16"
  have c: "port_candidate (of_nat (1882 + n)) (of_nat 0) = ?p" using Suc.prems by (intro next_candidate) auto
  have new: "?p \<notin> of_nat ` {1883..<1883 + n}"
  proof
    assume "?p \<in> of_nat ` {1883..<1883 + n}"
    then obtain m where "?p = of_nat m" "m < 1883 + n" by (elim imageE) simp
    with Suc.prems u16_nat_eq [of "1883 + n" m] show False by simp
  qed
  have "get_port ?ports = (Inr ?p, \<lparr>pt_last = ?p, pt_used = insert ?p (of_nat ` {1883..<1883 + n})\<rparr>)"
    using get_port_at [of 0 ?ports ?p] c new by (simp del: of_nat_add)
  moreover have "{1883..<1883 + Suc n} = insert (1883 + n) {1883..<1883 + n}" by auto
  moreover have "[1883..<1883 + Suc n] = [1883..<1883 + n] @ [1883 + n]" "1882 + Suc n = 1883 + n"
    using upt_Suc_append [of 1883 "1883 + n"] by simp_all
  moreover have "replicate (Suc n) Get_Port = replicate n Get_Port @ [Get_Port]" by (simp add: replicate_append_same)
  ultimately show ?case using Suc by (simp del: replicate.simps of_nat_add upt_Suc add_Suc_right)
qed (simp add: ports_in_use_def PORT_START_def)

lemma port_beyond:
  assumes "2882 \<le> l" "l \<le> 2883"
  shows "get_port \<lparr>pt_last = of_nat l, pt_used = of_nat ` {1883..<Suc l}\<rparr> =
    (Inr (of_nat (Suc l)), \<lparr>pt_last = of_nat (Suc l), pt_used = of_nat ` {1883..<Suc (Suc l)}\<rparr>)"
proof -
  have used: "port_candidate (of_nat l) (of_nat j) \<in> of_nat ` {1883..<Suc l}" if "j < 1000" for j
  proof -
    have "(l + 1 + j) mod 2883 = l + 1 + j - 2883" using assms that by (simp add: mod_if)
    then have "port_candidate (of_nat l) (of_nat j) = of_nat (l + 1 + j - 2883 + 1883)"
      using assms that by (intro next_candidate) auto
    moreover have "l + 1 + j - 2883 + 1883 \<in> {1883..<Suc l}" using assms that by auto
    ultimately show ?thesis by (simp only: imageI)
  qed
  have "(l + 1 + 1000) mod 2883 = l + 1001 - 2883" using assms by (simp add: mod_if)
  then have cand: "port_candidate (of_nat l) (of_nat 1000) = of_nat (Suc l)"
    using assms by (intro next_candidate [of l 1000 "l + 1001 - 2883"]) auto
  have new: "(of_nat (Suc l) :: u16) \<notin> of_nat ` {1883..<Suc l}"
  proof
    assume "(of_nat (Suc l) :: u16) \<in> of_nat ` {1883..<Suc l}"
    then obtain m where "(of_nat (Suc l) :: u16) = of_nat m" "m < Suc l" by (elim imageE) simp
    with assms u16_nat_eq [of "Suc l" m] show False by simp
  qed
  have "{1883..<Suc (Suc l)} = insert (Suc l) {1883..<Suc l}" using assms by auto
  then show ?thesis
    using get_port_at [of 1000 "\<lparr>pt_last = of_nat l, pt_used = of_nat ` {1883..<Suc l}\<rparr>" "of_nat (Suc l)"] used cand new
    by (simp del: of_nat_Suc of_nat_numeral)
qed

lemma ports_overrun:
  "fold port_step (replicate 1002 Get_Port) ([], ports_in_use) =
     (map of_nat [1883..<2885], \<lparr>pt_last = of_nat 2884, pt_used = of_nat ` {1883..<2885}\<rparr>)"
proof -
  have "replicate 1002 Get_Port = replicate 1000 Get_Port @ [Get_Port, Get_Port]"
    using replicate_add [of 1000 2 Get_Port] by (simp add: numeral_2_eq_2)
  moreover have "[1883..<2885] = [1883..<2883] @ [2883, 2884 :: nat]"
    using upt_add_eq_append [of 1883 2883 2] by (simp add: upt_conv_Cons)
  ultimately show ?thesis
    using first_thousand [of 1000] port_beyond [of 2882] port_beyond [of 2883]
    by (simp del: of_nat_Suc of_nat_numeral upt_Suc)
qed

subsection \<open>The client of the tests\<close>

text \<open>What the stream still yields: frames and errors, and whether it has been closed after them. A value \<open>None\<close> means that the
  client waits.\<close>

datatype stream_item = Item bytes | Item_Error

record test_client =
  tc_addr :: string
  tc_stream :: "stream_item list"
  tc_closed :: bool
  tc_sent :: framed

definition client_new :: "(string \<Rightarrow> string option) \<Rightarrow> string \<Rightarrow> error + test_client" where
  "client_new refused addr =
     (case refused addr of
        Some e \<Rightarrow> Inl (TokioErr e)
      | None \<Rightarrow> Inr \<lparr>tc_addr = addr, tc_stream = [], tc_closed = False, tc_sent = []\<rparr>)"

definition client_send :: "mqttrs_api \<Rightarrow> (nat \<Rightarrow> bool) \<Rightarrow> Packet \<Rightarrow> (test_client, error, unit) op" where
  "client_send X tcp_ok pkt = (\<lambda>c. case mqtt_send X tcp_ok pkt (tc_sent c) of (r, framed) \<Rightarrow> (r, c\<lparr>tc_sent := framed\<rparr>))"

definition receive :: "mqttrs_api \<Rightarrow> test_client \<Rightarrow> ((error + Packet option) \<times> test_client) option" where
  "receive X c =
     (case tc_stream c of
        Item buf # rest \<Rightarrow> Some (decode X buf, c\<lparr>tc_stream := rest\<rparr>)
      | Item_Error # rest \<Rightarrow> Some (Inl PacketReceiveFailed, c\<lparr>tc_stream := rest\<rparr>)
      | [] \<Rightarrow> if tc_closed c then Some (Inr None, c) else None)"

text \<open>The bodies of the \<open>expect\<close> functions differ in the pattern only.\<close>

definition expect_packet :: "(Packet \<Rightarrow> 'a option) \<Rightarrow> mqttrs_api \<Rightarrow> test_client \<Rightarrow> ((error + 'a) \<times> test_client) option" where
  "expect_packet sel X c =
     (case receive X c of
        None \<Rightarrow> None
      | Some (Inl e, c') \<Rightarrow> Some (Inl e, c')
      | Some (Inr None, c') \<Rightarrow> Some (Inl PacketReceiveFailed, c')
      | Some (Inr (Some pkt), c') \<Rightarrow> Some (case sel pkt of Some a \<Rightarrow> Inr a | None \<Rightarrow> Inl PacketReceiveFailed, c'))"

definition expect_connect :: "mqttrs_api \<Rightarrow> test_client \<Rightarrow> ((error + Connect) \<times> test_client) option" where
  "expect_connect X = expect_packet (\<lambda>pkt. case pkt of P_Connect a \<Rightarrow> Some a | _ \<Rightarrow> None) X"

definition expect_connack :: "mqttrs_api \<Rightarrow> test_client \<Rightarrow> ((error + Connack) \<times> test_client) option" where
  "expect_connack X = expect_packet (\<lambda>pkt. case pkt of P_Connack a \<Rightarrow> Some a | _ \<Rightarrow> None) X"

definition expect_publish :: "mqttrs_api \<Rightarrow> test_client \<Rightarrow> ((error + Publish) \<times> test_client) option" where
  "expect_publish X = expect_packet (\<lambda>pkt. case pkt of P_Publish a \<Rightarrow> Some a | _ \<Rightarrow> None) X"

definition expect_puback :: "mqttrs_api \<Rightarrow> test_client \<Rightarrow> ((error + pid) \<times> test_client) option" where
  "expect_puback X = expect_packet (\<lambda>pkt. case pkt of P_Puback a \<Rightarrow> Some a | _ \<Rightarrow> None) X"

definition expect_pubrec :: "mqttrs_api \<Rightarrow> test_client \<Rightarrow> ((error + pid) \<times> test_client) option" where
  "expect_pubrec X = expect_packet (\<lambda>pkt. case pkt of P_Pubrec a \<Rightarrow> Some a | _ \<Rightarrow> None) X"

definition expect_pubrel :: "mqttrs_api \<Rightarrow> test_client \<Rightarrow> ((error + pid) \<times> test_client) option" where
  "expect_pubrel X = expect_packet (\<lambda>pkt. case pkt of P_Pubrel a \<Rightarrow> Some a | _ \<Rightarrow> None) X"

definition expect_pubcomp :: "mqttrs_api \<Rightarrow> test_client \<Rightarrow> ((error + pid) \<times> test_client) option" where
  "expect_pubcomp X = expect_packet (\<lambda>pkt. case pkt of P_Pubcomp a \<Rightarrow> Some a | _ \<Rightarrow> None) X"

definition expect_subscribe :: "mqttrs_api \<Rightarrow> test_client \<Rightarrow> ((error + Subscribe) \<times> test_client) option" where
  "expect_subscribe X = expect_packet (\<lambda>pkt. case pkt of P_Subscribe a \<Rightarrow> Some a | _ \<Rightarrow> None) X"

definition expect_suback :: "mqttrs_api \<Rightarrow> test_client \<Rightarrow> ((error + Suback) \<times> test_client) option" where
  "expect_suback X = expect_packet (\<lambda>pkt. case pkt of P_Suback a \<Rightarrow> Some a | _ \<Rightarrow> None) X"

definition expect_unsubscribe :: "mqttrs_api \<Rightarrow> test_client \<Rightarrow> ((error + Unsubscribe) \<times> test_client) option" where
  "expect_unsubscribe X = expect_packet (\<lambda>pkt. case pkt of P_Unsubscribe a \<Rightarrow> Some a | _ \<Rightarrow> None) X"

definition expect_unsuback :: "mqttrs_api \<Rightarrow> test_client \<Rightarrow> ((error + pid) \<times> test_client) option" where
  "expect_unsuback X = expect_packet (\<lambda>pkt. case pkt of P_Unsuback a \<Rightarrow> Some a | _ \<Rightarrow> None) X"

definition expect_pingreq :: "mqttrs_api \<Rightarrow> test_client \<Rightarrow> ((error + unit) \<times> test_client) option" where
  "expect_pingreq X = expect_packet (\<lambda>pkt. if pkt = P_Pingreq then Some () else None) X"

definition expect_pingresp :: "mqttrs_api \<Rightarrow> test_client \<Rightarrow> ((error + unit) \<times> test_client) option" where
  "expect_pingresp X = expect_packet (\<lambda>pkt. if pkt = P_Pingresp then Some () else None) X"

definition expect_disconnect :: "mqttrs_api \<Rightarrow> test_client \<Rightarrow> ((error + unit) \<times> test_client) option" where
  "expect_disconnect X = expect_packet (\<lambda>pkt. if pkt = P_Disconnect then Some () else None) X"

definition expect_stream_closed :: "test_client \<Rightarrow> ((error + unit) \<times> test_client) option" where
  "expect_stream_closed c =
     (case tc_stream c of
        [] \<Rightarrow> if tc_closed c then Some (Inr (), c) else None
      | _ # rest \<Rightarrow> Some (Inl PacketReceiveFailed, c\<lparr>tc_stream := rest\<rparr>))"

subsection \<open>The tests\<close>

text \<open>\<open>setup::broker\<close>, and the client at the other end of the stream of handler \<open>i\<close>.\<close>

definition setup_broker :: "string \<Rightarrow> u16 \<Rightarrow> u32 \<Rightarrow> u32 \<Rightarrow> u32 \<Rightarrow> system" where
  "setup_broker ip port max_retries retry_interval timeout_interval =
     broker_run (config_new ip port max_retries retry_interval timeout_interval)"

definition client_of :: "system \<Rightarrow> sender \<Rightarrow> test_client" where
  "client_of y i =
     \<lparr>tc_addr = ''0.0.0.0'', tc_stream = (case y_handlers y i of None \<Rightarrow> [] | Some h \<Rightarrow> map Item (h_framed h)),
      tc_closed = (i \<notin> y_running y), tc_sent = []\<rparr>"

text \<open>The packet that the tests connect with.\<close>

definition test_connect :: Packet where
  "test_connect = P_Connect \<lparr>con_protocol = MQTT311, con_keep_alive = 0, con_client_id = ''test-client'',
     con_clean_session = True, con_last_will = None, con_username = None, con_password = None\<rparr>"

lemma encoded_decodes:
  assumes "round_trip X" "encode X k = Inr b"
  shows "decode X b = Inr (Some k)"
  using encode_Inr [OF assms(2)] written_reads_back [OF assms(1)] by (auto simp: decode_def)

lemma fresh_idle: "idle tx (handler_new config addr tx)"
  by (simp add: idle_def handler_new_def)

text \<open>The handler after the \<open>Connect\<close> of the tests.\<close>

lemma test_connect_turn:
  assumes "round_trip (w_mqttrs W)" "encode (w_mqttrs W) (test_connect) = Inr b" "sendable (w_mqttrs W) [accepted]"
    and "links_up W" "idle tx h"
  shows "\<exists>h'. handler_run W [Frame b] h = (Inr True, h') \<and> conn ''test-client'' tx h' \<and> length (h_broker_tx h') = 1 \<and>
    h_framed h' = h_framed h @ [frame_of (w_mqttrs W) accepted]"
proof -
  obtain c where c: "test_connect = P_Connect c" "con_protocol c = MQTT311" "con_client_id c = ''test-client''"
    by (simp add: test_connect_def)
  have dec: "decode (w_mqttrs W) b = Inr (Some (P_Connect c))" using encoded_decodes [OF assms(1,2)] c(1) by simp
  have ack: "encode (w_mqttrs W) accepted = Inr (frame_of (w_mqttrs W) accepted)" using assms(3) by (simp add: sendable_def)
  define h' where "h' = h\<lparr>h_framed := h_framed h @ [frame_of (w_mqttrs W) accepted], h_broker_tx := [ClientConnected ''test-client'' tx],
      h_connect_timeout := False, h_state := Connected (session_new ''test-client'' (h_config h) (con_last_will c) tx)\<rparr>"
  have turn: "listen_turn W (Frame b) h = (Inr True, h')"
    using connect_handshake [OF assms(5) dec] ack assms(4) c by (simp add: links_up_def accepted_def h'_def)
  have "conn ''test-client'' tx h'"
    using update_state_connect_conn [OF assms(5) update_state_connect [OF assms(5), of W c]] assms(4) c(3)
    by (simp add: links_up_def h'_def conn_def)
  moreover have "handler_run W [Frame b] h = (Inr True, h')"
    by (simp add: handler_run_def listen_Cons [OF turn] del: listen_turn.simps listen_for_messages.simps(2))
  ultimately show ?thesis by (intro exI [of _ h']) (simp add: h'_def)
qed

text \<open>C39: the integration tests of the broker pass. With a codec that reads back what it writes and room for the \<open>Connack\<close>: a first
  packet other than \<open>Connect\<close>, and a second \<open>Connect\<close>, make the broker close the connection, so that the
  test client sees the end of its stream, in the second case after one \<open>Connack\<close>; and a \<open>Connect\<close> of MQTT 3.1.1 is answered with \<open>Accepted\<close>.
  The broker goes on in each case.\<close>

theorem broker_tests_pass:
  assumes "X = pf_mqttrs P" "round_trip X" "\<forall>n. tcp n" "sendable X [accepted]" "y0 = setup_broker ip port 0 0 30"
    and "encode X P_Pingreq = Inr b0" "encode X (test_connect) = Inr b1"
  shows "(\<exists>y. acts P [Accept addr, Net 0 (Frame b0) tcp] y0 = Some y \<and> y_halted y = None \<and>
      expect_stream_closed (client_of y 0) = Some (Inr (), client_of y 0)) \<and>
    (\<exists>y a c. acts P [Accept addr, Net 0 (Frame b1) tcp, Forward 0, Net 0 (Frame b1) tcp] y0 = Some y \<and> y_halted y = None \<and>
      expect_connack X (client_of y 0) = Some (Inr a, c) \<and> expect_stream_closed c = Some (Inr (), c)) \<and>
    (\<exists>y a c. acts P [Accept addr, Net 0 (Frame b1) tcp] y0 = Some y \<and> y_halted y = None \<and>
      expect_connack X (client_of y 0) = Some (Inr a, c) \<and> ca_code a = Accepted \<and> expect_stream_closed c = None)"
proof -
  define W where "W = \<lparr>w_mqttrs = pf_mqttrs P, w_tcp_ok = tcp, w_broker_ok = (\<lambda>_. True), w_info = pf_info P\<rparr>"
  define h0 where "h0 = handler_new (config_new ip port 0 0 30) addr 0"
  have h0: "idle 0 h0" "h_framed h0 = []" by (simp_all add: h0_def fresh_idle) (simp add: handler_new_def)
  have W: "w_mqttrs W = X" "links_up W" "\<forall>n. w_broker_ok W n" using assms(1,3) by (simp_all add: W_def links_up_def)
  have bad: "handler_run W [Frame b0] h0 = (Inl (Err MQTTProtocolViolation), h0)"
    using first_packet_must_be_connect [OF h0(1)] encoded_decodes [OF assms(2,6)] W(1) by simp
  obtain h1 where h1: "handler_run W [Frame b1] h0 = (Inr True, h1)" "conn ''test-client'' 0 h1" "length (h_broker_tx h1) = 1"
      "h_framed h1 = [frame_of X accepted]"
    using test_connect_turn [of W b1 0 h0] assms(2,4,7) W h0 by auto
  obtain c where "test_connect = P_Connect c" by (simp add: test_connect_def)
  then have again: "handler_run W [Frame b1] h1 = (Inl (Err MQTTProtocolViolation), h1\<lparr>h_broker_tx := h_broker_tx h1 @ farewell W h1\<rparr>)"
    using second_connect_closes [OF h1(2) _ W(3), of b1 c "[]"] encoded_decodes [OF assms(2,7)] W(1) by simp
  have "encode X accepted = Inr (frame_of X accepted)" using assms(4) by (simp add: sendable_def)
  note dec = encoded_decodes [OF assms(2) this]
  have sys: "y0 = broker_run (config_new ip port 0 0 30)" using assms(5) by (simp add: setup_broker_def)
  note s = sys broker_run_def broker_new_def spawn_handler_def handler_turn_def W_def [symmetric] h0_def [symmetric]
    client_of_def flushed_def Let_def BROKER_MSG_CHANNEL_CAPACITY_def
  define client where "client fs closed = \<lparr>tc_addr = ''0.0.0.0'', tc_stream = map Item fs, tc_closed = closed, tc_sent = []\<rparr>" for fs closed
  let ?ack = "frame_of X accepted"
  have "h_broker_tx h0 = []" by (simp add: h0_def handler_new_def)
  then have runs: "\<exists>y. acts P [Accept addr, Net 0 (Frame b0) tcp] y0 = Some y \<and> y_halted y = None \<and> client_of y 0 = client [] True"
    "\<exists>y. acts P [Accept addr, Net 0 (Frame b1) tcp, Forward 0, Net 0 (Frame b1) tcp] y0 = Some y \<and> y_halted y = None \<and>
       client_of y 0 = client [?ack] True"
    "\<exists>y. acts P [Accept addr, Net 0 (Frame b1) tcp] y0 = Some y \<and> y_halted y = None \<and> client_of y 0 = client [?ack] False"
    using bad h1 again h0 by (simp_all add: s client_def)
  have sees: "expect_stream_closed (client [] True) = Some (Inr (), client [] True)" "expect_stream_closed (client [] False) = None"
      "expect_connack X (client [?ack] closed) = Some (Inr \<lparr>ca_session_present = False, ca_code = Accepted\<rparr>, client [] closed)" for closed
    using dec by (simp_all add: client_def expect_stream_closed_def expect_connack_def expect_packet_def receive_def, simp add: accepted_def)
  show ?thesis using runs sees by (metis Connack.select_convs(2))
qed

theorem broker_tests_pass_witness:
  "\<exists>P b1 y a c. acts P [Accept ''127.0.0.1'', Net 0 (Frame b1) up, Forward 0, Net 0 (Frame b1) up]
       (setup_broker ''0.0.0.0'' 1883 0 0 30) = Some y \<and> y_halted y = None \<and>
     expect_connack (pf_mqttrs P) (client_of y 0) = Some (Inr a, c) \<and> expect_stream_closed c = Some (Inr (), c)"
proof -
  define ps where "ps = [M_Pingreq, packet_into test_connect, packet_into accepted]"
  define P where "P = duo_platform\<lparr>pf_mqttrs := table_codec ps\<rparr>"
  have X: "table_codec ps = pf_mqttrs P" "round_trip (table_codec ps)" "\<forall>n. up n" "sendable (table_codec ps) [accepted]"
    by (simp_all add: P_def table_round_trip up_def table_sendable ps_def)
  have "sendable (table_codec ps) [P_Pingreq, test_connect]"
    by (rule table_sendable) (simp add: ps_def)
  then obtain b0 b1 where b: "encode (table_codec ps) P_Pingreq = Inr b0" "encode (table_codec ps) (test_connect) = Inr b1"
    by (auto simp: sendable_iff)
  show ?thesis
    using broker_tests_pass [OF X refl b, of "''127.0.0.1''" "''0.0.0.0''" 1883] X(1) by metis
qed

end
