(* ===== verification/Spec2Isabelle.thy ===== *)
theory Spec2Isabelle
  imports Wire_Properties Delivery Cli_Errors Client_Conforms Test_Support
begin

text \<open>
  This library is about the two Rust crates of the repository: \<open>src/mqttrs-1\<close>, an MQTT broker on tokio
  tasks, and \<open>src/mqtt-cli\<close>, a command shell that talks to a broker. Both use the crate
  \<open>mqttrs\<close> for the wire format; they share no code.

  \<^bold>\<open>The broker.\<close> \<open>Broker::start\<close> accepts TCP connections and spawns a client handler for each. A handler
  reads frames from its stream, keeps the session of its client, with one transaction
  per packet identifier in flight, and sends requests to the broker task over a channel that all handlers share. The
  broker task owns the maps of clients and of subscriptions and answers over one channel per
  handler. Three kinds of background tasks exist: the connection timeout of a handler, the
  retransmission of a packet, and the handlers themselves.

  \<^item> \<open>Mqtt_Packet\<close> (\<open>mqtt/packet.rs\<close>): the packet types of the crate and of the broker, and their
    conversions, which are bijections.
  \<^item> \<open>Broker_Msg\<close> (\<open>error.rs\<close>, \<open>broker/config.rs\<close>, \<open>broker/msg.rs\<close>): errors, configuration, the messages
    on the channels, and the equality of errors, which recurses on itself.
  \<^item> \<open>Mqtt_Codec\<close> (\<open>mqtt.rs\<close>): encoding into a buffer of a computed size, decoding, sending. The
    crate's \<open>encode_slice\<close> and \<open>decode_slice\<close> are the record \<open>mqttrs_api\<close>, an argument of every
    definition that calls them. What is relied on are \<open>writes_prefix\<close>,
    \<open>needs_room\<close> and \<open>reads_back\<close>, which \<open>ping_codec\<close> satisfies.
  \<^item> \<open>Qos_Tracker\<close> (\<open>broker/session/qos.rs\<close>): one transaction and the retry tasks. A spawned task is an
    entry of a \<open>task_pool\<close>, with its 32-bit attempt counter; aborting and dropping act on the pool.
  \<^item> \<open>Client_Session\<close> (\<open>broker/session.rs\<close>): the session and \<open>update_qos\<close>. The locale \<open>qos_store\<close> states
    what a store of transactions promises, and is interpreted on the session (\<open>txns\<close>). The message flows
    of the protocol (\<open>qos_flow\<close>) are followed through the pool of tasks, read independently of the
    transactions: during a flow it has one task more, and afterwards it is as it was.
  \<^item> \<open>Client_Handler\<close>, \<open>Handler_Properties\<close> (\<open>broker/client_handler.rs\<close>): every packet and message handler,
    the states of a connection, one turn of the \<open>select!\<close> loop, the loop and \<open>run\<close>.
  \<^item> \<open>Broker_State\<close> (\<open>broker.rs\<close>): the maps, every handler of a request, the loop of the broker task. The locale
    \<open>registry\<close> is the contract of the subscription table (interpreted as \<open>table\<close>). The
    record \<open>pubsub\<close> with \<open>ps_step\<close> is the abstract server: a set of subscriptions, an address
    per client, and a multiset of deliveries; \<open>absb\<close> maps the broker to it. The locale
    \<open>pubsub_server\<close> is interpreted on both (\<open>server\<close>, \<open>spec\<close>), so that what the history of requests
    determines is proved once.
  \<^item> \<open>Broker_System\<close>, \<open>System_Properties\<close>: the process. A state (\<open>system\<close>) has the broker, its queue, the sends it has
    still to make, and for every handler its state, its channel and what it has done; an \<open>action\<close> is one
    step of one task or an event of the network, and \<open>reach\<close> is the inductive set of states over all
    interleavings. Channels have the capacities of the code. The invariant \<open>system_ok\<close> is proved
    by rule induction.
  \<^item> \<open>Broker_Channels\<close>: waiting for room. \<open>stuck\<close> says that the broker and a handler wait for each other.
  \<^item> \<open>Broker_Main\<close> (\<open>main.rs\<close>): what \<open>main\<close> makes of the flags, the set-up, and the result of the process.

  \<^bold>\<open>The client.\<close> One thread of the shell reads lines and queues commands; another parses a command, runs
  its callback on the context and answers. A connection adds a TCP thread and a keep-alive
  thread, which queue commands too.

  \<^item> \<open>Cli_Lexer\<close> (\<open>cli/shell/lexer.rs\<close>): splitting into words as the code's state machine, and the quote counter
    that decides whether a command continues on the next line.
  \<^item> \<open>Cli_Spec\<close> (\<open>cli/spec\<close>): flags, their equality, queries and the builder of specifications.
  \<^item> \<open>Cli_Shell\<close> (\<open>cli/shell.rs\<close>, \<open>cli/command\<close>): the parser, the enabled commands, reading input.
  \<^item> \<open>Cli_Help\<close> (\<open>cli/spec/command.rs\<close>, \<open>cli/shell.rs\<close>): the help of a command and of the shell, padded by subtractions
    that panic below zero.
  \<^item> \<open>Cli_Mqtt\<close> (\<open>mqtt.rs\<close>, \<open>mqtt/keep_alive.rs\<close>, \<open>tcp.rs\<close>): the context, its channels and the two threads.
  \<^item> \<open>Cli_Callbacks\<close>, \<open>Cli_Subscribe\<close>, \<open>Cli_Commands\<close> (\<open>commands.rs\<close>, \<open>commands\<close>, \<open>main.rs\<close>): the callback of each command,
    among them \<open>subscribe\<close> with its loop, the specifications, and a turn of the execution thread.
    \<open>Cli_Properties\<close> and \<open>Subscribe_Properties\<close> hold what is proved of them.
  \<^item> \<open>Cli_Threads\<close>, \<open>Shell_Properties\<close> (\<open>Shell::run\<close>, \<open>main.rs\<close>): the two threads of the shell as interleaved steps over
    their two queues, with the locks and their poisoning (\<open>shell_sys\<close>, \<open>shell_act\<close>, \<open>shell_reach\<close>).
  \<^item> \<open>Panic_Freedom\<close>: what can make the execution thread panic.

  \<^item> \<open>Cli_Connections\<close>: more than one connection in the life of a client: threads of an earlier connection, or of one
    that failed, that act on a later one.
  \<^item> \<open>Context_Invariant\<close>: what every command keeps of the context (\<open>ctx_ok\<close>), and so holds in every state of the shell;
    among it, which packets are queued on a connection (\<open>sends_ok\<close>).
  \<^item> \<open>Cli_Errors\<close>: the \<open>Display\<close> text of every error, and what is printed of input that is refused.

  \<^bold>\<open>Both.\<close> The crates meet on the wire: the bytes that one writes are frames that the other reads.

  \<^item> \<open>Wire_Properties\<close>: what either side makes of the bytes that the network delivers, of which one read may hold several packets.
  \<^item> \<open>Client_Broker\<close>: one command of the client and one handler of the broker. \<open>joined\<close> says that both use the same codec,
    of which only the round trip is assumed, and that the connection is up; \<open>receives\<close> that the client
    receives what the handler writes. \<open>table_codec\<close> is a codec that satisfies this, for the witnesses.
  \<^item> \<open>Client_Conforms\<close>: all that the client sends on a connection, whatever the user does, read by one handler.
  \<^item> \<open>Delivery\<close>: two clients with the broker process between them, from the publish command of one to what the loop of
    \<open>subscribe\<close> of the other shows.
  \<^item> \<open>Test_Support\<close> (\<open>mqttrs-1/src/test\<close>, \<open>mqttrs-1/tests\<close>): the allocation of ports, the client of the tests, and the
    integration tests as a theorem about the process.

  \<^bold>\<open>What the lemmas show.\<close> From the outside in: every reachable state of the broker process is one of the
  abstract server, after an interleaving of the handlers' conversations that keeps the order of
  each; messages reach exactly those who asked, if they reach anyone; the task ends only by a
  failed delivery, and concrete interleavings show that this and the loss of a client that
  connected a second time do happen, the latter for good (\<open>forgotten\<close>). No channel is overfilled; the broker is held up only when it and a handler wait
  for each other, which is final and can be reached. Handlers keep to one conversation,
  answer each packet as the protocol asks, and
  reject what is out of order. Transactions follow the protocol's flows, and retransmissions
  are those of open transactions, are counted exactly, and stop with them. For the client: words and whole commands that are
  quoted are read back; parsing never panics and yields well-formed commands only, and running these panics in one
  case only; input that is refused is explained; publishing at quality of service 2 is bounded and returns, at 1 it returns in silence and not
  under a stream of other packets; a session of \<open>subscribe\<close> is a series of exchanges (\<open>exchange\<close>), of which what is shown, acknowledged and recorded
  is stated, and so is what is lost inside one; connecting,
  disconnecting and the keep-alive thread are specified on every branch, as are three ways in which a connection that has gone
  disturbs the next. The context stays in order under every command. The shell runs commands in
  the order queued and ends after \<open>exit\<close>, or is held by a \<open>publish\<close> or \<open>subscribe\<close> that does not return; its prompt means that it is idle, unless another thread queues commands. Of both: publishing, connecting,
  and the other requests work between the two programs with every quality of service; nothing the client sends violates
  the protocol, but for the debug command \<open>connack\<close>; a message typed at one client is shown by
  another; but both sides see one packet for each read.

  \<^bold>\<open>Conventions.\<close> A callee that may fail returns a sum, \<open>Inl\<close> the error; effects are state passing (type
  \<open>op\<close> of \<open>Prelude\<close>). Nothing is bounded by fuel: loops are structural over the events that drive them,
  or a \<open>partial_function\<close> whose value \<open>None\<close> says that the call does not return (an
  endless loop, or a recursion that overflows the stack). Widths are kept where they matter: packet
  identifiers and keep-alive intervals have 16 bits, attempt counters 32. The order of
  a hash set or map is a parameter, as are the outcomes of sending to a channel, of reading
  and writing a socket, and of waiting. A \<open>char\<close> is a code point up to U+00FF.

  \<^bold>\<open>Simplifications.\<close> One turn of a handler is one step: what it writes to its client comes before any of its messages
  to the broker is forwarded, and no other task runs in between; its requests then enter the broker's channel one by
  one. A handler that has failed counts as gone from then on, before its last messages are
  forwarded, and the retry tasks of a handler that is leaving no longer fire. The attempt counter of a retry task wraps, where a
  debug build would panic after \<open>2 ^ 32\<close> attempts. The input of the shell does not end: at its end
  the code would read empty lines for ever.

  \<^bold>\<open>Not modelled.\<close> The parsing of the broker's command line and logging, which belong to crates; the text that commands
  print when they succeed, other than help; the sockets; the signals of the operating system, which are a parameter of \<open>subscribe\<close>;
  real time, of which only the order of events is kept; a failure of \<open>accept\<close>, after which there are
  no new connections, which is the same as none arriving.

  \<^bold>\<open>Plan.\<close> Next comes the client's connection as one system, with its TCP and keep-alive threads running as steps beside the shell's
  and sharing its queues, so that what \<open>Cli_Connections\<close> shows of single runs becomes a property of all
  interleavings; and the retransmissions of the broker seen by this client.
\<close>

end
